(* ===== verification/Prelude.thy ===== *)
theory Prelude
  imports Main "HOL-Library.Word"
begin

text \<open>
  Shared vocabulary of the development: the machine types of the Rust sources
  (\<open>u8\<close> .. \<open>u64\<close> as words of that width), the evaluation result of code that can
  panic, the slice primitives of the language with their bounds checks, the
  big-endian encoders and decoders of \<open>src/src/util.rs\<close>, serial-number comparison,
  and generic list lemmas the components share.

  The collections declared here carry the component proofs: \<open>slice_simps\<close> holds
  the evaluation rules of bounds-checked accesses, \<open>byte_simps\<close> the encoders'
  round trips, \<open>inv_simps\<close> the unfolding rules of component invariants.
\<close>

named_theorems slice_simps
named_theorems byte_simps
named_theorems inv_simps

unbundle bit_operations_syntax


section \<open>Machine types\<close>

type_synonym u8 = "8 word"
type_synonym u16 = "16 word"
type_synonym u32 = "32 word"
type_synonym u64 = "64 word"
type_synonym bytes = "8 word list"


section \<open>Evaluation that may panic\<close>

text \<open>
  A Rust expression either returns a value or panics (an index out of range, a slice whose
  ends are out of order or past the buffer, an \<open>unwrap\<close> of \<open>None\<close>). \<open>rbind\<close> sequences two
  evaluations. Arithmetic is that of the release profile the program is built with: sums and
  increments wrap at their width. Where a build with overflow checks would panic instead, the
  definition says so; unsigned subtractions of the event loop are modelled as checked, so that
  their theorems cover both builds.
\<close>

datatype 'a eval = Panic | Ret 'a

fun rbind :: "'a eval \<Rightarrow> ('a \<Rightarrow> 'b eval) \<Rightarrow> 'b eval" where
  "rbind Panic f = Panic"
| "rbind (Ret x) f = f x"

fun panics :: "'a eval \<Rightarrow> bool" where
  "panics Panic = True"
| "panics (Ret x) = False"

lemma rbind_Ret_right [simp]: "rbind m Ret = m"
  by (cases m) simp_all

lemma rbind_assoc: "rbind (rbind m f) g = rbind m (\<lambda>x. rbind (f x) g)"
  by (cases m) simp_all

lemma rbind_eq_Ret: "rbind m f = Ret y \<longleftrightarrow> (\<exists>x. m = Ret x \<and> f x = Ret y)"
  by (cases m) simp_all

lemma panics_iff: "panics m \<longleftrightarrow> m = Panic"
  by (cases m) simp_all

lemma not_panics_iff: "\<not> panics m \<longleftrightarrow> (\<exists>x. m = Ret x)"
  by (cases m) simp_all

text \<open>The three indexing forms of the language: \<open>p[i]\<close>, \<open>p[i..]\<close>, \<open>p[i..j]\<close>.\<close>

definition idx :: "'a list \<Rightarrow> nat \<Rightarrow> 'a eval" where
  "idx p i = (if i < length p then Ret (p ! i) else Panic)"

definition slice_from :: "'a list \<Rightarrow> nat \<Rightarrow> 'a list eval" where
  "slice_from p i = (if i \<le> length p then Ret (drop i p) else Panic)"

definition subslice :: "'a list \<Rightarrow> nat \<Rightarrow> nat \<Rightarrow> 'a list eval" where
  "subslice p i j = (if i \<le> j \<and> j \<le> length p then Ret (take (j - i) (drop i p)) else Panic)"

lemma idx_ok [slice_simps]: "i < length p \<Longrightarrow> idx p i = Ret (p ! i)"
  by (simp add: idx_def)

lemma slice_from_ok [slice_simps]: "i \<le> length p \<Longrightarrow> slice_from p i = Ret (drop i p)"
  by (simp add: slice_from_def)

lemma subslice_ok [slice_simps]:
  "i \<le> j \<Longrightarrow> j \<le> length p \<Longrightarrow> subslice p i j = Ret (take (j - i) (drop i p))"
  by (simp add: subslice_def)

lemma subslice_panics_iff: "panics (subslice p i j) \<longleftrightarrow> j < i \<or> length p < j"
  by (auto simp: subslice_def)


section \<open>Big-endian encoding (util.rs)\<close>

definition be16 :: "u16 \<Rightarrow> bytes" where
  "be16 w = [ucast (drop_bit 8 w), ucast w]"

definition be32 :: "u32 \<Rightarrow> bytes" where
  "be32 w = [ucast (drop_bit 24 w), ucast (drop_bit 16 w), ucast (drop_bit 8 w), ucast w]"

definition be64 :: "u64 \<Rightarrow> bytes" where
  "be64 w = [ucast (drop_bit 56 w), ucast (drop_bit 48 w), ucast (drop_bit 40 w),
             ucast (drop_bit 32 w), ucast (drop_bit 24 w), ucast (drop_bit 16 w),
             ucast (drop_bit 8 w), ucast w]"

definition bcat :: "'a::len word \<Rightarrow> u8 \<Rightarrow> 'a word" where
  "bcat acc b = push_bit 8 acc OR ucast b"

definition of_be16 :: "u8 \<Rightarrow> u8 \<Rightarrow> u16" where
  "of_be16 a b = bcat (ucast a) b"

definition of_be32 :: "u8 \<Rightarrow> u8 \<Rightarrow> u8 \<Rightarrow> u8 \<Rightarrow> u32" where
  "of_be32 a b c d = bcat (bcat (bcat (ucast a) b) c) d"

definition of_be64 :: "u8 \<Rightarrow> u8 \<Rightarrow> u8 \<Rightarrow> u8 \<Rightarrow> u8 \<Rightarrow> u8 \<Rightarrow> u8 \<Rightarrow> u8 \<Rightarrow> u64" where
  "of_be64 a b c d e f g h =
     bcat (bcat (bcat (bcat (bcat (bcat (bcat (ucast a) b) c) d) e) f) g) h"

definition read_u16_be :: "bytes \<Rightarrow> u16 eval" where
  "read_u16_be p = rbind (idx p 0) (\<lambda>a. rbind (idx p 1) (\<lambda>b. Ret (of_be16 a b)))"

definition read_u32_be :: "bytes \<Rightarrow> u32 eval" where
  "read_u32_be p = rbind (idx p 0) (\<lambda>a. rbind (idx p 1) (\<lambda>b.
     rbind (idx p 2) (\<lambda>c. rbind (idx p 3) (\<lambda>d. Ret (of_be32 a b c d)))))"

definition read_u64_be :: "bytes \<Rightarrow> u64 eval" where
  "read_u64_be p = rbind (subslice p 0 8) (\<lambda>q.
     Ret (of_be64 (q ! 0) (q ! 1) (q ! 2) (q ! 3) (q ! 4) (q ! 5) (q ! 6) (q ! 7)))"

text \<open>Writing \<open>v\<close> at the front of a mutable slice: the first bytes are overwritten.\<close>

definition write_u16_be :: "bytes \<Rightarrow> u16 \<Rightarrow> bytes eval" where
  "write_u16_be p v = (if 2 \<le> length p then Ret (be16 v @ drop 2 p) else Panic)"

definition write_u32_be :: "bytes \<Rightarrow> u32 \<Rightarrow> bytes eval" where
  "write_u32_be p v = (if 4 \<le> length p then Ret (be32 v @ drop 4 p) else Panic)"

definition write_u64_be :: "bytes \<Rightarrow> u64 \<Rightarrow> bytes eval" where
  "write_u64_be p v = (if 8 \<le> length p then Ret (be64 v @ drop 8 p) else Panic)"

text \<open>\<open>copy_from_slice\<close> into \<open>p[i .. i + length s]\<close>: equal lengths by construction.\<close>

definition overwrite :: "'a list \<Rightarrow> nat \<Rightarrow> 'a list \<Rightarrow> 'a list" where
  "overwrite p i s = take i p @ s @ drop (i + length s) p"

lemma overwrite_mid [byte_simps]:
  "length s = length h \<Longrightarrow> length pre = n \<Longrightarrow> overwrite (pre @ h @ rest) n s = pre @ s @ rest"
  by (auto simp: overwrite_def)

lemma length_be [simp]: "length (be16 v) = 2" "length (be32 w) = 4" "length (be64 x) = 8"
  by (simp_all add: be16_def be32_def be64_def)

lemma bcat_drop_bit:
  fixes v :: "'a::len word"
  shows "bcat (drop_bit (8 + k) v) (ucast (drop_bit k v)) = drop_bit k v"
  unfolding bcat_def
  by (rule bit_word_eqI) (auto simp: bit_simps not_le dest: bit_imp_le_length)

lemma ucast_top_byte:
  fixes v :: "'a::len word"
  assumes "LENGTH('a) = k + 8"
  shows "(ucast (ucast (drop_bit k v) :: u8) :: 'a word) = drop_bit k v"
  by (rule bit_word_eqI) (use assms in \<open>auto simp: bit_simps dest: bit_imp_le_length\<close>)

lemma of_be16_be16 [byte_simps]: "of_be16 (ucast (drop_bit 8 v)) (ucast v) = v"
  using bcat_drop_bit[of 0 v] by (simp add: of_be16_def ucast_top_byte)

lemma of_be32_be32 [byte_simps]:
  "of_be32 (ucast (drop_bit 24 v)) (ucast (drop_bit 16 v)) (ucast (drop_bit 8 v)) (ucast v) = v"
  using bcat_drop_bit[of 0 v] bcat_drop_bit[of 8 v] bcat_drop_bit[of 16 v]
  by (simp add: of_be32_def ucast_top_byte)

lemma of_be64_be64 [byte_simps]:
  "of_be64 (ucast (drop_bit 56 v)) (ucast (drop_bit 48 v)) (ucast (drop_bit 40 v))
     (ucast (drop_bit 32 v)) (ucast (drop_bit 24 v)) (ucast (drop_bit 16 v))
     (ucast (drop_bit 8 v)) (ucast v) = v"
  using bcat_drop_bit[of 0 v] bcat_drop_bit[of 8 v] bcat_drop_bit[of 16 v]
    bcat_drop_bit[of 24 v] bcat_drop_bit[of 32 v] bcat_drop_bit[of 40 v]
    bcat_drop_bit[of 48 v]
  by (simp add: of_be64_def ucast_top_byte)

lemma read_u16_be_app [byte_simps]: "read_u16_be (be16 v @ r) = Ret v"
  by (simp add: read_u16_be_def be16_def idx_def of_be16_be16)

lemma read_u32_be_app [byte_simps]: "read_u32_be (be32 v @ r) = Ret v"
  by (simp add: read_u32_be_def be32_def idx_def of_be32_be32)

lemma read_u64_be_app [byte_simps]: "read_u64_be (be64 v @ r) = Ret v"
  by (simp add: read_u64_be_def be64_def subslice_def of_be64_be64)

lemma read_be_ok:
  "2 \<le> length d \<Longrightarrow> \<exists>v. read_u16_be d = Ret v"
  "4 \<le> length d \<Longrightarrow> \<exists>v. read_u32_be d = Ret v"
  "8 \<le> length d \<Longrightarrow> \<exists>v. read_u64_be d = Ret v"
  by (auto simp: read_u16_be_def read_u32_be_def read_u64_be_def idx_def subslice_def)

lemma read_be_drop_ok:
  "k + 2 \<le> length d \<Longrightarrow> \<exists>v. read_u16_be (drop k d) = Ret v"
  "k + 4 \<le> length d \<Longrightarrow> \<exists>v. read_u32_be (drop k d) = Ret v"
  "k + 8 \<le> length d \<Longrightarrow> \<exists>v. read_u64_be (drop k d) = Ret v"
  by (simp_all add: read_be_ok)


section \<open>Words as natural numbers\<close>

lemmas xor_ac = xor.assoc xor.commute xor.left_commute

lemma xor_cancel_left [simp]: "x XOR (x XOR y) = (y :: 'a::len word)"
  by (simp flip: xor.assoc)

lemma unat_inc_less:
  fixes i n :: "'a::len word"
  assumes "i < n"
  shows "unat (i + 1) = Suc (unat i)"
proof -
  have "unat i < unat n" "unat n < 2 ^ LENGTH('a)"
    using assms by (simp_all add: word_less_nat_alt)
  then have "Suc (unat i) < 2 ^ LENGTH('a)"
    by (rule less_trans_Suc)
  then show ?thesis
    by (simp add: unat_word_ariths)
qed

lemma unat_of_nat_small:
  "n < 2 ^ LENGTH('a) \<Longrightarrow> unat (of_nat n :: 'a::len word) = n"
  by (simp add: unat_of_nat take_bit_nat_eq_self)

lemma unat_ucast_up:
  fixes w :: "'a::len word"
  assumes "LENGTH('a) \<le> LENGTH('b::len)"
  shows "unat (ucast w :: 'b word) = unat w"
proof -
  have "unat w < 2 ^ LENGTH('a)"
    by (rule unsigned_less)
  also have "(2::nat) ^ LENGTH('a) \<le> 2 ^ LENGTH('b)"
    using assms by (rule power_increasing) simp
  finally show ?thesis
    by (simp add: unsigned_ucast_eq take_bit_nat_eq_self)
qed

lemma mod_neq_close:
  fixes a b w :: nat
  assumes "a < b" "b - a < w"
  shows "a mod w \<noteq> b mod w"
proof
  assume "a mod w = b mod w"
  then have "w dvd b - a"
    using assms(1) mod_eq_dvd_iff_nat[of a b w] by simp
  then show False
    using assms by (auto dest: dvd_imp_le)
qed

end
