(* ===== verification/Conv.thy ===== *)
theory Conv
  imports Prelude "HOL-Library.Product_Lexorder"
begin

text \<open>
  The conversation table of \<open>src/src/conv.rs\<close>: two maps between 32-bit conversation
  ids and their data, the last activity of every id, and the LRU order used to expire
  idle ids a few at a time. Timestamps are milliseconds of a monotonic clock; the only
  arithmetic on them is the saturating subtraction, which is subtraction on \<open>nat\<close>.
\<close>


section \<open>Model\<close>

definition CONV_CLEAR_RATIO :: nat where "CONV_CLEAR_RATIO = 30"
definition CONV_CLEAR_MIN :: nat where "CONV_CLEAR_MIN = 1"
definition CONV_CLEAR_INTERVAL_MS :: nat where "CONV_CLEAR_INTERVAL_MS = 1000"
definition CONV_TIMEOUT_MS :: nat where "CONV_TIMEOUT_MS = 180000"

lemmas conv_consts = CONV_CLEAR_RATIO_def CONV_CLEAR_MIN_def CONV_CLEAR_INTERVAL_MS_def
  CONV_TIMEOUT_MS_def

record 'a ConvManager =
  data_to_conv :: "'a \<rightharpoonup> u32"
  conv_to_data :: "u32 \<rightharpoonup> 'a"
  last_active :: "u32 \<rightharpoonup> nat"
  lru :: "(nat \<times> u32) set"
  last_clear_time :: nat

definition cm_new :: "'a ConvManager" where
  "cm_new = \<lparr> data_to_conv = Map.empty, conv_to_data = Map.empty, last_active = Map.empty,
     lru = {}, last_clear_time = 0 \<rparr>"

definition cm_len :: "'a ConvManager \<Rightarrow> nat" where
  "cm_len cm = card (dom (conv_to_data cm))"

definition is_conv_used :: "'a ConvManager \<Rightarrow> u32 \<Rightarrow> bool" where
  "is_conv_used cm c \<longleftrightarrow> conv_to_data cm c \<noteq> None"

definition is_data_used :: "'a ConvManager \<Rightarrow> 'a \<Rightarrow> bool" where
  "is_data_used cm d \<longleftrightarrow> data_to_conv cm d \<noteq> None"

definition find_conv_by_data :: "'a ConvManager \<Rightarrow> 'a \<Rightarrow> u32 option" where
  "find_conv_by_data cm d = data_to_conv cm d"

definition find_data_by_conv :: "'a ConvManager \<Rightarrow> u32 \<Rightarrow> 'a option" where
  "find_data_by_conv cm c = conv_to_data cm c"

text \<open>
  \<open>new_conv\<close> draws random words until one is nonzero and unused. \<open>draws\<close> are the words
  the random source delivers; \<open>None\<close> means the loop is still drawing when they run out.
\<close>

fun new_conv :: "'a ConvManager \<Rightarrow> u32 list \<Rightarrow> u32 option" where
  "new_conv cm [] = None"
| "new_conv cm (c # draws) =
     (if c \<noteq> 0 \<and> \<not> is_conv_used cm c then Some c else new_conv cm draws)"

definition cm_insert :: "'a ConvManager \<Rightarrow> u32 \<Rightarrow> 'a \<Rightarrow> nat \<Rightarrow> 'a ConvManager" where
  "cm_insert cm c d now = cm\<lparr>
     data_to_conv := (data_to_conv cm)(d \<mapsto> c),
     conv_to_data := (conv_to_data cm)(c \<mapsto> d),
     last_active := (last_active cm)(c \<mapsto> now),
     lru := insert (now, c) (lru cm)\<rparr>"

definition update_active_time :: "'a ConvManager \<Rightarrow> u32 \<Rightarrow> nat \<Rightarrow> 'a ConvManager" where
  "update_active_time cm c now =
     (case last_active cm c of
        None \<Rightarrow> cm
      | Some old \<Rightarrow>
          if old = now then cm
          else cm\<lparr>last_active := (last_active cm)(c \<mapsto> now),
                  lru := insert (now, c) (lru cm - {(old, c)})\<rparr>)"

definition cm_erase :: "'a ConvManager \<Rightarrow> u32 \<Rightarrow> 'a option \<times> 'a ConvManager" where
  "cm_erase cm c =
     (case conv_to_data cm c of
        None \<Rightarrow> (None, cm)
      | Some d \<Rightarrow>
          let cm1 = cm\<lparr>conv_to_data := (conv_to_data cm)(c := None),
                       data_to_conv := (data_to_conv cm)(d := None)\<rparr>;
              cm2 = (case last_active cm1 c of
                       None \<Rightarrow> cm1
                     | Some ts \<Rightarrow> cm1\<lparr>last_active := (last_active cm1)(c := None),
                                      lru := lru cm1 - {(ts, c)}\<rparr>)
          in (Some d, cm2))"

text \<open>\<open>clear\<close> returns the data of all ids; the order of a hash map is unspecified, so
  the model returns them as a set.\<close>

definition cm_clear :: "'a ConvManager \<Rightarrow> 'a set \<times> 'a ConvManager" where
  "cm_clear cm = (ran (conv_to_data cm), cm\<lparr>data_to_conv := Map.empty,
     conv_to_data := Map.empty, last_active := Map.empty, lru := {}\<rparr>)"

text \<open>The expiry loop: at most \<open>n\<close> rounds, each looking at the least recent entry.\<close>

fun expire_loop :: "nat \<Rightarrow> nat \<Rightarrow> 'a ConvManager \<Rightarrow> (u32 \<times> 'a) list \<times> 'a ConvManager" where
  "expire_loop 0 now cm = ([], cm)"
| "expire_loop (Suc n) now cm =
     (if lru cm = {} then ([], cm)
      else let (ts, c) = Min (lru cm)
           in if now - ts < CONV_TIMEOUT_MS then ([], cm)
              else (case cm_erase cm c of
                      (None, cm') \<Rightarrow> expire_loop n now cm'
                    | (Some d, cm') \<Rightarrow>
                        let (out, cm'') = expire_loop n now cm' in ((c, d) # out, cm'')))"

definition num_to_clean :: "nat \<Rightarrow> nat" where
  "num_to_clean n = min (n div CONV_CLEAR_RATIO + CONV_CLEAR_MIN) n"

definition clear_inactive :: "'a ConvManager \<Rightarrow> nat \<Rightarrow> (u32 \<times> 'a) list \<times> 'a ConvManager" where
  "clear_inactive cm now =
     (if now - last_clear_time cm \<le> CONV_CLEAR_INTERVAL_MS then ([], cm)
      else let cm' = cm\<lparr>last_clear_time := now\<rparr>
           in expire_loop (num_to_clean (card (lru cm'))) now cm')"


section \<open>Invariant\<close>

definition cm_wf :: "'a ConvManager \<Rightarrow> bool" where
  [inv_simps]: "cm_wf cm \<longleftrightarrow>
     (\<forall>c d. conv_to_data cm c = Some d \<longleftrightarrow> data_to_conv cm d = Some c) \<and>
     dom (last_active cm) = dom (conv_to_data cm) \<and>
     lru cm = {(t, c). last_active cm c = Some t} \<and>
     finite (dom (conv_to_data cm))"

lemma cm_wfI:
  assumes "conv_to_data cm = C" "data_to_conv cm = D" "last_active cm = A" "lru cm = L"
    and "\<forall>c d. C c = Some d \<longleftrightarrow> D d = Some c" "dom A = dom C"
    and "L = {(t, c). A c = Some t}" "finite (dom C)"
  shows "cm_wf cm"
  unfolding cm_wf_def assms(1-4) using assms(5-8) by blast

lemma cm_wf_bij: "cm_wf cm \<Longrightarrow> data_to_conv cm d = Some c \<longleftrightarrow> conv_to_data cm c = Some d"
  by (simp add: inv_simps)

lemma cm_wf_inj:
  assumes "cm_wf cm" "conv_to_data cm c = Some d" "conv_to_data cm c' = Some d"
  shows "c' = c"
  using cm_wf_bij[OF assms(1), of d] assms(2,3) by (metis option.inject)

lemma cm_wf_lru: "cm_wf cm \<Longrightarrow> (t, c) \<in> lru cm \<longleftrightarrow> last_active cm c = Some t"
  by (simp add: inv_simps)

lemma cm_wf_active: "cm_wf cm \<Longrightarrow> last_active cm c = None \<longleftrightarrow> conv_to_data cm c = None"
  unfolding inv_simps by (metis domIff)

lemma graph_eq_image: "{(t, c). m c = Some t} = (\<lambda>c. (the (m c), c)) ` dom m"
  by force

lemma cm_wf_finite_lru: "cm_wf cm \<Longrightarrow> finite (lru cm)"
  by (simp add: inv_simps graph_eq_image)

lemma cm_wf_card_lru:
  assumes "cm_wf cm"
  shows "card (lru cm) = cm_len cm"
proof -
  have "inj_on (\<lambda>c. (the (last_active cm c), c)) (dom (last_active cm))"
    by (auto intro: inj_onI)
  then show ?thesis
    using assms by (simp add: inv_simps graph_eq_image cm_len_def card_image)
qed

lemma cm_new_wf: "cm_wf cm_new"
  by (simp add: inv_simps cm_new_def)

lemma cm_insert_wf:
  assumes "cm_wf cm" "\<not> is_conv_used cm c" "\<not> is_data_used cm d"
  shows "cm_wf (cm_insert cm c d now)"
proof -
  have "last_active cm c = None"
    using assms(2) cm_wf_active[OF assms(1)] by (simp add: is_conv_used_def)
  then show ?thesis
    using assms
    by (auto simp: inv_simps cm_insert_def is_conv_used_def is_data_used_def)
qed

lemma update_active_time_wf:
  assumes "cm_wf cm"
  shows "cm_wf (update_active_time cm c now)"
proof (cases "last_active cm c")
  case (Some old)
  have "c \<in> dom (conv_to_data cm)"
    using cm_wf_active[OF assms, of c] Some by (simp add: domIff)
  moreover have "insert (now, c) (lru cm - {(old, c)}) =
      {(t, c'). ((last_active cm)(c \<mapsto> now)) c' = Some t}"
    using Some cm_wf_lru[OF assms] by auto
  ultimately show ?thesis
    using assms unfolding inv_simps update_active_time_def by (simp add: Some insert_absorb)
qed (use assms in \<open>simp add: update_active_time_def\<close>)

lemma cm_erase_Some:
  assumes "conv_to_data cm c = Some d" "last_active cm c = Some ts"
  shows "cm_erase cm c = (Some d, cm\<lparr>conv_to_data := (conv_to_data cm)(c := None),
       data_to_conv := (data_to_conv cm)(d := None),
       last_active := (last_active cm)(c := None), lru := lru cm - {(ts, c)}\<rparr>)"
  using assms by (simp add: cm_erase_def Let_def)

lemma cm_erase_None: "conv_to_data cm c = None \<Longrightarrow> cm_erase cm c = (None, cm)"
  by (simp add: cm_erase_def)

lemma cm_erase_wf:
  assumes "cm_wf cm"
  shows "cm_wf (snd (cm_erase cm c))"
proof (cases "conv_to_data cm c")
  case (Some d)
  obtain ts where ts: "last_active cm c = Some ts"
    using cm_wf_active[OF assms, of c] Some by auto
  have bij: "\<forall>c' d'. ((conv_to_data cm)(c := None)) c' = Some d' \<longleftrightarrow>
      ((data_to_conv cm)(d := None)) d' = Some c'"
    using Some by (auto simp: cm_wf_bij[OF assms] dest: cm_wf_inj[OF assms Some])
  have dom: "dom ((last_active cm)(c := None)) = dom ((conv_to_data cm)(c := None))"
    "finite (dom ((conv_to_data cm)(c := None)))"
    using assms by (simp_all add: inv_simps)
  have graph: "lru cm - {(ts, c)} = {(t, c'). ((last_active cm)(c := None)) c' = Some t}"
    using ts cm_wf_lru[OF assms] by auto
  show ?thesis
    by (rule cm_wfI[OF _ _ _ _ bij dom(1) graph dom(2)])
       (simp_all add: cm_erase_Some[OF Some ts] fun_upd_def)
qed (use assms in \<open>simp add: cm_erase_None\<close>)

lemma cm_clear_wf: "cm_wf (snd (cm_clear cm))"
  by (simp add: inv_simps cm_clear_def)

lemma cm_erase_result:
  assumes "cm_wf cm"
  shows "fst (cm_erase cm c) = conv_to_data cm c"
    and "conv_to_data (snd (cm_erase cm c)) = (conv_to_data cm)(c := None)"
    and "last_active (snd (cm_erase cm c)) = (last_active cm)(c := None)"
    and "lru (snd (cm_erase cm c)) = {(t, c'). (t, c') \<in> lru cm \<and> c' \<noteq> c}"
    and "last_clear_time (snd (cm_erase cm c)) = last_clear_time cm"
proof (atomize (full), goal_cases)
  case 1
  show ?case
  proof (cases "conv_to_data cm c")
    case None
    then have "last_active cm c = None"
      using cm_wf_active[OF assms] by simp
    then show ?thesis
      using None by (auto simp: cm_erase_None cm_wf_lru[OF assms])
  next
    case (Some d)
    then obtain ts where ts: "last_active cm c = Some ts"
      using cm_wf_active[OF assms, of c] by auto
    then show ?thesis
      using Some by (auto simp: cm_erase_Some[OF Some ts] cm_wf_lru[OF assms])
  qed
qed

lemma expire_loop_wf: "cm_wf cm \<Longrightarrow> cm_wf (snd (expire_loop n now cm))"
proof (induction n arbitrary: cm)
  case (Suc n)
  have "cm_wf (snd (expire_loop n now (snd (cm_erase cm c))))" for c
    using Suc.IH[OF cm_erase_wf[OF Suc.prems]] .
  then show ?case
    using Suc.prems by (simp add: split_beta split: option.split)
qed simp

lemma cm_wf_last_clear_time [simp]: "cm_wf (cm\<lparr>last_clear_time := t\<rparr>) = cm_wf cm"
  by (simp add: inv_simps)

lemma clear_inactive_wf: "cm_wf cm \<Longrightarrow> cm_wf (snd (clear_inactive cm now))"
  by (simp add: clear_inactive_def Let_def expire_loop_wf)


section \<open>What a pass of the expiry loop removes\<close>

definition idle :: "nat \<Rightarrow> nat \<times> u32 \<Rightarrow> bool" where
  "idle now e \<longleftrightarrow> CONV_TIMEOUT_MS \<le> now - fst e"

lemma idle_downward: "e \<le> e' \<Longrightarrow> idle now e' \<Longrightarrow> idle now e"
  by (auto simp: idle_def less_eq_prod_def)

lemma sorted_takeWhile_idle:
  "sorted es \<Longrightarrow> takeWhile (idle now) es = filter (idle now) es"
proof (induction es)
  case (Cons e es)
  have "filter (idle now) es = []" if "\<not> idle now e"
  proof (rule filter_False, rule ballI, rule notI)
    fix x assume "x \<in> set es" "idle now x"
    with Cons.prems idle_downward[of e x now] that show False
      by simp
  qed
  then show ?case
    using Cons by simp
qed simp

lemma cm_wf_Min_lru:
  assumes "cm_wf cm" "lru cm \<noteq> {}"
  obtains ts c d where "Min (lru cm) = (ts, c)" "conv_to_data cm c = Some d"
    "lru (snd (cm_erase cm c)) = lru cm - {Min (lru cm)}"
proof -
  obtain ts c where m: "Min (lru cm) = (ts, c)"
    by (rule prod.exhaust)
  then have "(ts, c) \<in> lru cm"
    using Min_in[OF cm_wf_finite_lru[OF assms(1)] assms(2)] by simp
  then have ts: "last_active cm c = Some ts"
    using cm_wf_lru[OF assms(1)] by simp
  then obtain d where d: "conv_to_data cm c = Some d"
    using cm_wf_active[OF assms(1), of c] by auto
  have "lru (snd (cm_erase cm c)) = lru cm - {(ts, c)}"
    using cm_erase_Some[OF d ts] by simp
  then show thesis
    using that[OF m d] m by simp
qed

text \<open>
  The loop removes a prefix of the entries in LRU order: the idle ones, at most \<open>n\<close>.
\<close>

lemma expire_loop_removes:
  assumes "cm_wf cm"
  shows "map fst (fst (expire_loop n now cm)) =
    map snd (take n (filter (idle now) (sorted_list_of_set (lru cm))))"
  using assms
proof (induction n arbitrary: cm)
  case (Suc n)
  show ?case
  proof (cases "lru cm = {}")
    case False
    obtain ts c d where m: "Min (lru cm) = (ts, c)" "conv_to_data cm c = Some d"
        and rest: "lru (snd (cm_erase cm c)) = lru cm - {Min (lru cm)}"
      by (rule cm_wf_Min_lru[OF Suc.prems False])
    have es: "sorted_list_of_set (lru cm) =
        (ts, c) # sorted_list_of_set (lru (snd (cm_erase cm c)))"
      using sorted_list_of_set_nonempty[OF cm_wf_finite_lru[OF Suc.prems] False] m rest by simp
    obtain cm' where er: "cm_erase cm c = (Some d, cm')"
      using cm_erase_result(1)[OF Suc.prems, of c] m by (cases "cm_erase cm c") simp
    obtain out cm'' where lp: "expire_loop n now cm' = (out, cm'')"
      by (rule prod.exhaust)
    show ?thesis
    proof (cases "idle now (ts, c)")
      case True
      then have "\<not> now - ts < CONV_TIMEOUT_MS"
        by (simp add: idle_def)
      then show ?thesis
        using False m es er lp True Suc.IH[OF cm_erase_wf[OF Suc.prems, of c]]
        by simp
    next
      case idle: False
      have "sorted ((ts, c) # sorted_list_of_set (lru (snd (cm_erase cm c))))"
        unfolding es[symmetric] by simp
      then have "filter (idle now) (sorted_list_of_set (lru cm)) = []"
        using sorted_takeWhile_idle[of "sorted_list_of_set (lru cm)" now] idle es by simp
      moreover have "now - ts < CONV_TIMEOUT_MS"
        using idle by (simp add: idle_def)
      ultimately show ?thesis
        using False m by simp
    qed
  qed simp
qed simp


lemma expire_loop_table:
  assumes "cm_wf cm" "expire_loop n now cm = (out, cm')"
  shows "(\<forall>(c, d) \<in> set out. conv_to_data cm c = Some d) \<and>
    conv_to_data cm' = conv_to_data cm |` (- fst ` set out)"
  using assms
proof (induction n arbitrary: cm out cm')
  case (Suc n)
  obtain ts c where m: "Min (lru cm) = (ts, c)"
    by (rule prod.exhaust)
  show ?case
  proof (cases "lru cm = {} \<or> now - ts < CONV_TIMEOUT_MS")
    case True
    then have "out = [] \<and> cm' = cm"
      using Suc.prems(2) by (cases "lru cm = {}") (simp_all add: m)
    then show ?thesis
      by (simp add: restrict_map_def)
  next
    case False
    obtain d where d: "conv_to_data cm c = Some d"
      using cm_wf_Min_lru[OF Suc.prems(1)] False m by (metis prod.inject)
    obtain cm1 where er: "cm_erase cm c = (Some d, cm1)"
      using cm_erase_result(1)[OF Suc.prems(1), of c] d by (cases "cm_erase cm c") simp
    obtain out' cm2 where lp: "expire_loop n now cm1 = (out', cm2)"
      by (rule prod.exhaust)
    have out: "out = (c, d) # out'" "cm' = cm2"
      using Suc.prems(2) False m er lp by auto
    have "cm_wf cm1" "conv_to_data cm1 = (conv_to_data cm)(c := None)"
      using cm_erase_wf[OF Suc.prems(1), of c] cm_erase_result(2)[OF Suc.prems(1), of c] er
      by simp_all
    with Suc.IH[OF _ lp] d show ?thesis
      unfolding out by (auto simp: restrict_map_def fun_eq_iff split: if_splits)
  qed
qed (auto simp: restrict_map_def)

lemma take_num_to_clean:
  assumes "cm_wf cm"
  shows "take (num_to_clean (card (lru cm))) (filter P (sorted_list_of_set (lru cm))) =
    take (cm_len cm div 30 + 1) (filter P (sorted_list_of_set (lru cm)))"
proof -
  have "length (filter P (sorted_list_of_set (lru cm))) \<le> card (lru cm)"
    using length_filter_le[of P "sorted_list_of_set (lru cm)"] cm_wf_finite_lru[OF assms]
    by simp
  then show ?thesis
    by (simp add: num_to_clean_def conv_consts cm_wf_card_lru[OF assms] min_def)
qed


section \<open>The contract of a conversation table\<close>

text \<open>
  What the client and the server rely on: ids and data stay paired one to one, an
  insert creates exactly one pair, an erase removes exactly one pair.
\<close>

locale conv_table =
  fixes wf :: "'t \<Rightarrow> bool"
    and find_data :: "'t \<Rightarrow> u32 \<Rightarrow> 'd option"
    and find_conv :: "'t \<Rightarrow> 'd \<Rightarrow> u32 option"
    and ins :: "'t \<Rightarrow> u32 \<Rightarrow> 'd \<Rightarrow> nat \<Rightarrow> 't"
    and ers :: "'t \<Rightarrow> u32 \<Rightarrow> 'd option \<times> 't"
  assumes paired: "wf t \<Longrightarrow> find_data t c = Some d \<longleftrightarrow> find_conv t d = Some c"
    and ins_wf: "wf t \<Longrightarrow> find_data t c = None \<Longrightarrow> find_conv t d = None \<Longrightarrow> wf (ins t c d now)"
    and ins_find: "find_data (ins t c d now) c' = (if c' = c then Some d else find_data t c')"
    and ers_wf: "wf t \<Longrightarrow> wf (snd (ers t c))"
    and ers_fst: "wf t \<Longrightarrow> fst (ers t c) = find_data t c"
    and ers_find: "wf t \<Longrightarrow>
      find_data (snd (ers t c)) c' = (if c' = c then None else find_data t c')"
begin

lemma data_unique: "wf t \<Longrightarrow> find_data t c = Some d \<Longrightarrow> find_data t c' = Some d \<Longrightarrow> c' = c"
  using paired by (metis option.inject)

lemma reply_reaches_origin:
  assumes "wf t" "find_data t c = None" "find_conv t d = None"
  shows "find_conv (ins t c d now) d = Some c"
  using assms ins_wf ins_find paired by metis

lemma other_flows_kept:
  assumes "wf t" "find_data t c = None" "find_conv t d = None" "d' \<noteq> d"
  shows "find_conv (ins t c d now) d' = find_conv t d'"
proof (rule option.expand)
  have "find_conv (ins t c d now) d' = Some c' \<longleftrightarrow> find_conv t d' = Some c'" for c'
    using assms ins_wf[OF assms(1-3)] ins_find paired by (metis option.inject option.distinct(1))
  then show "(find_conv (ins t c d now) d' = None) = (find_conv t d' = None)"
    "find_conv (ins t c d now) d' \<noteq> None \<Longrightarrow> find_conv t d' \<noteq> None \<Longrightarrow>
       the (find_conv (ins t c d now) d') = the (find_conv t d')"
    by (metis not_Some_eq, metis option.collapse)
qed

lemma erased_data_free:
  assumes "wf t" "find_data t c = Some d"
  shows "find_conv (snd (ers t c)) d = None"
proof (rule ccontr)
  assume "find_conv (snd (ers t c)) d \<noteq> None"
  then obtain c' where "find_data (snd (ers t c)) c' = Some d"
    using paired[OF ers_wf[OF assms(1)]] by blast
  then show False
    using assms ers_find data_unique by (metis option.distinct(1))
qed

end

interpretation conv_manager:
  conv_table cm_wf find_data_by_conv find_conv_by_data cm_insert cm_erase
proof unfold_locales
  fix cm :: "'a ConvManager" and c c' d now
  assume wf: "cm_wf cm"
  show "find_data_by_conv cm c = Some d \<longleftrightarrow> find_conv_by_data cm d = Some c"
    using wf by (simp add: find_data_by_conv_def find_conv_by_data_def cm_wf_bij)
  show "cm_wf (cm_insert cm c d now)"
    if "find_data_by_conv cm c = None" "find_conv_by_data cm d = None"
    using cm_insert_wf[OF wf] that
    by (simp add: find_data_by_conv_def find_conv_by_data_def is_conv_used_def is_data_used_def)
  show "cm_wf (snd (cm_erase cm c))"
    using cm_erase_wf[OF wf] .
  show "fst (cm_erase cm c) = find_data_by_conv cm c"
    using cm_erase_result(1)[OF wf] by (simp add: find_data_by_conv_def)
  show "find_data_by_conv (snd (cm_erase cm c)) c' =
      (if c' = c then None else find_data_by_conv cm c')"
    using cm_erase_result(2)[OF wf, of c] by (simp add: find_data_by_conv_def)
qed (simp add: find_data_by_conv_def cm_insert_def)


section \<open>Reachable tables\<close>

text \<open>
  The client inserts under a fresh id after looking the peer up; the server inserts
  under the id it received after checking that it is not in use, with a new socket.
\<close>

inductive cm_step :: "'a ConvManager \<Rightarrow> 'a ConvManager \<Rightarrow> bool" where
  step_insert: "\<not> is_conv_used cm c \<Longrightarrow> \<not> is_data_used cm d \<Longrightarrow>
     cm_step cm (cm_insert cm c d now)"
| step_touch: "cm_step cm (update_active_time cm c now)"
| step_erase: "cm_step cm (snd (cm_erase cm c))"
| step_clear: "cm_step cm (snd (cm_clear cm))"
| step_expire: "cm_step cm (snd (clear_inactive cm now))"

lemma cm_step_wf: "cm_step cm cm' \<Longrightarrow> cm_wf cm \<Longrightarrow> cm_wf cm'"
  by (induction rule: cm_step.induct)
     (simp_all add: cm_insert_wf update_active_time_wf cm_erase_wf cm_clear_wf clear_inactive_wf)

lemma cm_steps_wf:
  assumes "cm_step\<^sup>*\<^sup>* cm cm'" "cm_wf cm"
  shows "cm_wf cm'"
  using assms by (induction rule: rtranclp_induct) (auto intro: cm_step_wf)


section \<open>Properties\<close>

text \<open>C16: In every table the operations can reach from the empty one, ids and data are
  paired one to one, every id has an activity stamp, and the LRU order holds exactly the
  current stamp of every id (so no id is expired on a stale stamp and none is missed).\<close>

theorem conv_table_consistent:
  assumes "cm_step\<^sup>*\<^sup>* cm_new cm"
  shows "(\<forall>c d. find_data_by_conv cm c = Some d \<longleftrightarrow> find_conv_by_data cm d = Some c) \<and>
    (\<forall>t c. (t, c) \<in> lru cm \<longleftrightarrow> last_active cm c = Some t) \<and>
    (\<forall>c. last_active cm c = None \<longleftrightarrow> \<not> is_conv_used cm c) \<and>
    card (lru cm) = cm_len cm"
proof -
  have wf: "cm_wf cm"
    using assms cm_steps_wf cm_new_wf by blast
  show ?thesis
    by (simp add: conv_manager.paired[OF wf] cm_wf_lru[OF wf] cm_wf_active[OF wf]
        cm_wf_card_lru[OF wf] is_conv_used_def)
qed

theorem conv_table_consistent_witness:
  "cm_step\<^sup>*\<^sup>* cm_new (cm_insert cm_new 7 (''peer'') 100) \<and>
   find_conv_by_data (cm_insert cm_new 7 (''peer'') 100) ''peer'' = Some 7 \<and>
   card (lru (cm_insert cm_new 7 (''peer'') 100)) = 1"
proof -
  have st: "cm_step\<^sup>*\<^sup>* cm_new (cm_insert cm_new 7 (''peer'') 100)"
    by (rule r_into_rtranclp, rule step_insert)
       (simp_all add: is_conv_used_def is_data_used_def cm_new_def)
  from conv_table_consistent[OF st] show ?thesis
    using st by (auto simp: find_conv_by_data_def cm_insert_def cm_new_def)
qed

text \<open>C17: One expiry pass that is not rate limited removes precisely the first
  \<open>size / 30 + 1\<close> idle ids in LRU order (all of them if there are fewer), returns each
  with its data, and leaves every other id as it was.\<close>

theorem clear_inactive_exact:
  assumes "cm_wf cm" "1000 < now - last_clear_time cm"
    and "clear_inactive cm now = (out, cm')"
  shows "map fst out = map snd (take (cm_len cm div 30 + 1)
      (filter (\<lambda>(t, c). 180000 \<le> now - t)
        (sorted_list_of_set {(t, c). last_active cm c = Some t}))) \<and>
    (\<forall>(c, d) \<in> set out. find_data_by_conv cm c = Some d) \<and>
    (\<forall>c. find_data_by_conv cm' c =
       (if c \<in> set (map fst out) then None else find_data_by_conv cm c)) \<and> cm_wf cm'"
proof -
  let ?cm = "cm\<lparr>last_clear_time := now\<rparr>"
  have wf: "cm_wf ?cm"
    using assms(1) by simp
  have run: "expire_loop (num_to_clean (card (lru ?cm))) now ?cm = (out, cm')"
    using assms(2,3) by (simp add: clear_inactive_def conv_consts)
  have idle: "idle now = (\<lambda>(t, c). 180000 \<le> now - t)"
    by (auto simp: idle_def conv_consts)
  have "lru cm = {(t, c). last_active cm c = Some t}"
    using assms(1) by (simp add: inv_simps)
  then have "map fst out = map snd (take (cm_len cm div 30 + 1)
      (filter (\<lambda>(t, c). 180000 \<le> now - t)
        (sorted_list_of_set {(t, c). last_active cm c = Some t})))"
    using expire_loop_removes[OF wf, of "num_to_clean (card (lru ?cm))" now]
      take_num_to_clean[OF wf, of "idle now"] run
    by (simp add: idle cm_len_def)
  moreover have "cm_wf cm'"
    using expire_loop_wf[OF wf, of "num_to_clean (card (lru ?cm))" now] run by simp
  moreover have "\<forall>(c, d) \<in> set out. find_data_by_conv cm c = Some d"
    "\<forall>c. find_data_by_conv cm' c =
       (if c \<in> set (map fst out) then None else find_data_by_conv cm c)"
    using expire_loop_table[OF wf run] by (auto simp: find_data_by_conv_def restrict_map_def)
  ultimately show ?thesis
    by blast
qed

theorem clear_inactive_exact_witness:
  "cm_wf (cm_insert cm_new 7 (''peer'') 100) \<and>
   1000 < (200000::nat) - last_clear_time (cm_insert cm_new 7 (''peer'') 100) \<and>
   fst (clear_inactive (cm_insert cm_new 7 (''peer'') 100) 200000) = [(7, ''peer'')]"
proof -
  let ?cm = "cm_insert cm_new 7 (''peer'') 100"
  have wf: "cm_wf ?cm"
    by (rule cm_insert_wf[OF cm_new_wf]) (simp_all add: is_conv_used_def is_data_used_def cm_new_def)
  have t: "1000 < (200000::nat) - last_clear_time ?cm"
    by (simp add: cm_insert_def cm_new_def)
  have la: "{(t, c). last_active ?cm c = Some t} = {(100, 7)}"
    by (auto simp: cm_insert_def cm_new_def split: if_splits)
  obtain out cm' where r: "clear_inactive ?cm 200000 = (out, cm')"
    by (rule prod.exhaust)
  have len: "cm_len ?cm = 1"
    by (simp add: cm_len_def cm_insert_def cm_new_def)
  from clear_inactive_exact[OF wf t r] show ?thesis
    using wf t r unfolding la len
    by (auto simp: find_data_by_conv_def cm_insert_def cm_new_def)
qed

end
