(* ===== verification/Cipher_Modes.thy ===== *)
theory Cipher_Modes
  imports Prelude
begin

text \<open>
  The mode layer of \<open>src/src/crypto/cipher.rs\<close>: CBC and CFB-128 with a zero IV over a
  16-byte block operation, the padding of the CBC mode and the xor mode. The block
  operation is an argument; what CBC needs of it is the locale \<open>block_cipher\<close>.
\<close>


section \<open>Blocks\<close>

definition xorb :: "bytes \<Rightarrow> bytes \<Rightarrow> bytes" where
  "xorb a b = map2 (\<lambda>x y. x XOR y) a b"

definition zero_iv :: bytes where
  "zero_iv = replicate 16 0"

lemma length_xorb [simp]: "length (xorb a b) = min (length a) (length b)"
  by (simp add: xorb_def)

lemma xorb_cancel: "length a = length b \<Longrightarrow> xorb (xorb a b) b = a"
  by (rule nth_equalityI) (simp_all add: xorb_def xor.assoc)

lemma length_zero_iv [simp]: "length zero_iv = 16"
  by (simp add: zero_iv_def)

text \<open>\<open>chunks_exact(16)\<close>: the full blocks; a remainder is not part of any chunk.\<close>

function chunks16 :: "bytes \<Rightarrow> bytes list" where
  "chunks16 data = (if length data < 16 then [] else take 16 data # chunks16 (drop 16 data))"
  by pat_completeness auto
termination by (relation "measure length") auto

declare chunks16.simps [simp del]


section \<open>CBC\<close>

text \<open>The loop over \<open>chunks_exact_mut(16)\<close> with the running \<open>prev\<close> block.\<close>

function cbc_encrypt_from :: "(bytes \<Rightarrow> bytes) \<Rightarrow> bytes \<Rightarrow> bytes \<Rightarrow> bytes" where
  "cbc_encrypt_from E prev data =
     (if length data < 16 then data
      else let b = E (xorb (take 16 data) prev) in b @ cbc_encrypt_from E b (drop 16 data))"
  by pat_completeness auto
termination by (relation "measure (\<lambda>(E, prev, data). length data)") auto

declare cbc_encrypt_from.simps [simp del]

definition cbc_encrypt_zero_iv :: "(bytes \<Rightarrow> bytes) \<Rightarrow> bytes \<Rightarrow> bytes" where
  "cbc_encrypt_zero_iv E data = cbc_encrypt_from E zero_iv data"

text \<open>Decryption with the table backend works block by block.\<close>

function cbc_decrypt_from :: "(bytes \<Rightarrow> bytes) \<Rightarrow> bytes \<Rightarrow> bytes \<Rightarrow> bytes" where
  "cbc_decrypt_from D prev data =
     (if length data < 16 then data
      else let ct = take 16 data in xorb (D ct) prev @ cbc_decrypt_from D ct (drop 16 data))"
  by pat_completeness auto
termination by (relation "measure (\<lambda>(D, prev, data). length data)") auto

declare cbc_decrypt_from.simps [simp del]

definition cbc_decrypt_table :: "(bytes \<Rightarrow> bytes) \<Rightarrow> bytes \<Rightarrow> bytes" where
  "cbc_decrypt_table D data = (if length data div 16 = 0 then data else cbc_decrypt_from D zero_iv data)"

text \<open>With the crate backend all blocks are decrypted first (\<open>decrypt_blocks\<close>), then each
  is xored with the previous ciphertext block.\<close>

function xor_chain :: "bytes list \<Rightarrow> bytes \<Rightarrow> bytes \<Rightarrow> bytes" where
  "xor_chain blocks prev data =
     (if length data < 16 then data
      else xorb (hd blocks) prev @ xor_chain (tl blocks) (take 16 data) (drop 16 data))"
  by pat_completeness auto
termination by (relation "measure (\<lambda>(blocks, prev, data). length data)") auto

declare xor_chain.simps [simp del]

definition cbc_decrypt_crate :: "(bytes \<Rightarrow> bytes) \<Rightarrow> bytes \<Rightarrow> bytes" where
  "cbc_decrypt_crate D data =
     (if length data div 16 = 0 then data
      else xor_chain (map D (chunks16 data)) zero_iv data)"

lemma cbc_encrypt_from_short: "length data < 16 \<Longrightarrow> cbc_encrypt_from E prev data = data"
  by (subst cbc_encrypt_from.simps) simp

lemma cbc_encrypt_from_step:
  "\<not> length data < 16 \<Longrightarrow> cbc_encrypt_from E prev data =
     E (xorb (take 16 data) prev) @ cbc_encrypt_from E (E (xorb (take 16 data) prev)) (drop 16 data)"
  by (subst cbc_encrypt_from.simps) (simp add: Let_def)

lemma cbc_decrypt_from_short: "length data < 16 \<Longrightarrow> cbc_decrypt_from D prev data = data"
  by (subst cbc_decrypt_from.simps) simp

lemma cbc_decrypt_from_step:
  "\<not> length data < 16 \<Longrightarrow> cbc_decrypt_from D prev data =
     xorb (D (take 16 data)) prev @ cbc_decrypt_from D (take 16 data) (drop 16 data)"
  by (subst cbc_decrypt_from.simps) (simp add: Let_def)

lemma xor_chain_short: "length data < 16 \<Longrightarrow> xor_chain blocks prev data = data"
  by (subst xor_chain.simps) simp

lemma xor_chain_from: "xor_chain (map D (chunks16 data)) prev data = cbc_decrypt_from D prev data"
proof (induction D prev data rule: cbc_decrypt_from.induct)
  case (1 D prev data)
  show ?case
  proof (cases "length data < 16")
    case False
    then have ch: "chunks16 data = take 16 data # chunks16 (drop 16 data)"
      by (subst chunks16.simps) simp
    have "xor_chain (map D (chunks16 data)) prev data =
        xorb (D (take 16 data)) prev @
          xor_chain (map D (chunks16 (drop 16 data))) (take 16 data) (drop 16 data)"
      using False by (subst xor_chain.simps) (simp add: ch)
    then show ?thesis
      using 1[OF False] False by (simp add: cbc_decrypt_from_step)
  qed (simp add: xor_chain_short cbc_decrypt_from_short)
qed

lemma cbc_backends_agree: "cbc_decrypt_crate D data = cbc_decrypt_table D data"
  by (simp add: cbc_decrypt_crate_def cbc_decrypt_table_def xor_chain_from)

lemma cbc_decrypt_table_from: "cbc_decrypt_table D data = cbc_decrypt_from D zero_iv data"
  by (simp add: cbc_decrypt_table_def cbc_decrypt_from_short div_eq_0_iff)


section \<open>The contract of a block cipher\<close>

locale block_cipher =
  fixes E D :: "bytes \<Rightarrow> bytes"
  assumes E_length: "length b = 16 \<Longrightarrow> length (E b) = 16"
    and D_E: "length b = 16 \<Longrightarrow> D (E b) = b"
begin

lemma cbc_from_roundtrip:
  assumes "length data mod 16 = 0" "length prev = 16"
  shows "cbc_decrypt_from D prev (cbc_encrypt_from E prev data) = data"
  using assms
proof (induction data arbitrary: prev rule: length_induct)
  case (1 data)
  show ?case
  proof (cases "length data < 16")
    case True
    then have "data = []"
      using "1.prems" by simp
    then show ?thesis
      by (simp add: cbc_encrypt_from_short cbc_decrypt_from_short)
  next
    case False
    let ?x = "xorb (take 16 data) prev" and ?rest = "drop 16 data"
    have len: "length ?x = 16" "length (E ?x) = 16"
      using False "1.prems" E_length by simp_all
    have enc: "cbc_encrypt_from E prev data = E ?x @ cbc_encrypt_from E (E ?x) ?rest"
      using False by (rule cbc_encrypt_from_step)
    have "length ?rest < length data" "length ?rest mod 16 = 0"
      using False "1.prems" by (simp_all add: mod_if[of "length data"])
    then have "cbc_decrypt_from D (E ?x) (cbc_encrypt_from E (E ?x) ?rest) = ?rest"
      using "1.IH" len(2) by simp
    moreover have "xorb (D (E ?x)) prev = take 16 data"
      using D_E[OF len(1)] False "1.prems" by (simp add: xorb_cancel)
    ultimately show ?thesis
      unfolding enc using len(2) by (simp add: cbc_decrypt_from_step)
  qed
qed

lemma cbc_roundtrip:
  assumes "length data mod 16 = 0"
  shows "cbc_decrypt_table D (cbc_encrypt_zero_iv E data) = data"
    and "cbc_decrypt_crate D (cbc_encrypt_zero_iv E data) = data"
  using cbc_from_roundtrip[OF assms, of zero_iv]
  by (simp_all add: cbc_backends_agree cbc_decrypt_table_from cbc_encrypt_zero_iv_def)

lemma cbc_from_length:
  assumes "length prev = 16"
  shows "length (cbc_encrypt_from E prev data) = length data"
  using assms
proof (induction data arbitrary: prev rule: length_induct)
  case (1 data)
  show ?case
  proof (cases "length data < 16")
    case False
    have "length (E (xorb (take 16 data) prev)) = 16"
      using False "1.prems" E_length by simp
    moreover from this have "length (cbc_encrypt_from E (E (xorb (take 16 data) prev)) (drop 16 data)) =
        length (drop 16 data)"
      using False "1.IH" by simp
    ultimately show ?thesis
      using False by (simp add: cbc_encrypt_from_step)
  qed (simp add: cbc_encrypt_from_short)
qed

lemma cbc_length: "length (cbc_encrypt_zero_iv E data) = length data"
  by (simp add: cbc_encrypt_zero_iv_def cbc_from_length)

end


section \<open>CFB\<close>

text \<open>The byte loop with the feedback register \<open>iv\<close> and the offset \<open>off\<close>.\<close>

fun cfb_encrypt_loop :: "(bytes \<Rightarrow> bytes) \<Rightarrow> bytes \<Rightarrow> nat \<Rightarrow> bytes \<Rightarrow> bytes" where
  "cfb_encrypt_loop E iv off [] = []"
| "cfb_encrypt_loop E iv off (byte # rest) =
     (let iv1 = (if off = 0 then E iv else iv);
          b = byte XOR iv1 ! off
      in b # cfb_encrypt_loop E (iv1[off := b]) ((off + 1) mod 16) rest)"

fun cfb_decrypt_loop :: "(bytes \<Rightarrow> bytes) \<Rightarrow> bytes \<Rightarrow> nat \<Rightarrow> bytes \<Rightarrow> bytes" where
  "cfb_decrypt_loop E iv off [] = []"
| "cfb_decrypt_loop E iv off (c # rest) =
     (let iv1 = (if off = 0 then E iv else iv);
          b = c XOR iv1 ! off
      in b # cfb_decrypt_loop E (iv1[off := c]) ((off + 1) mod 16) rest)"

definition cfb_encrypt_zero_iv :: "(bytes \<Rightarrow> bytes) \<Rightarrow> bytes \<Rightarrow> bytes" where
  "cfb_encrypt_zero_iv E data = cfb_encrypt_loop E zero_iv 0 data"

definition cfb_decrypt_zero_iv :: "(bytes \<Rightarrow> bytes) \<Rightarrow> bytes \<Rightarrow> bytes" where
  "cfb_decrypt_zero_iv E data = cfb_decrypt_loop E zero_iv 0 data"

lemma cfb_loop_roundtrip: "cfb_decrypt_loop E iv off (cfb_encrypt_loop E iv off data) = data"
  by (induction E iv off data rule: cfb_encrypt_loop.induct) (simp_all add: Let_def xor.assoc)

lemma cfb_roundtrip: "cfb_decrypt_zero_iv E (cfb_encrypt_zero_iv E data) = data"
  by (simp add: cfb_encrypt_zero_iv_def cfb_decrypt_zero_iv_def cfb_loop_roundtrip)

lemma cfb_length [simp]: "length (cfb_encrypt_zero_iv E data) = length data"
proof -
  have "length (cfb_encrypt_loop E iv off data) = length data" for iv off
    by (induction E iv off data rule: cfb_encrypt_loop.induct) (simp_all add: Let_def)
  then show ?thesis
    by (simp add: cfb_encrypt_zero_iv_def)
qed


section \<open>Padding and xor\<close>

definition padded_len :: "nat \<Rightarrow> nat" where
  "padded_len old = (let new_len = old + 1 in
     if new_len mod 16 \<noteq> 0 then (new_len div 16) * 16 + 16 else new_len)"

definition pad16 :: "bytes \<Rightarrow> bytes" where
  "pad16 buf = (let old = length buf; new_len = padded_len old
     in (buf @ replicate (new_len - old) 0)[new_len - 1 := of_nat (new_len - old)])"

text \<open>\<open>None\<close> is the result \<open>false\<close>.\<close>

definition unpad16 :: "bytes \<Rightarrow> bytes option" where
  "unpad16 buf =
     (if buf = [] then None
      else let p = unat (last buf)
           in if p > 16 \<or> p > length buf then None else Some (take (length buf - p) buf))"

definition xor_in_place :: "bytes \<Rightarrow> bytes \<Rightarrow> bytes" where
  "xor_in_place data key16 = map2 (\<lambda>i b. b XOR key16 ! (i mod 16)) [0..<length data] data"

lemma padded_len_bounds: "old < padded_len old" "padded_len old \<le> old + 16"
    "padded_len old mod 16 = 0"
proof -
  define q r where "q = (old + 1) div 16" and "r = (old + 1) mod 16"
  then have old: "old + 1 = q * 16 + r" "r < 16"
    by simp_all
  have "padded_len old = (if r = 0 then q * 16 else q * 16 + 16)"
    using old(1) unfolding padded_len_def Let_def q_def[symmetric] r_def[symmetric] by simp
  then show "old < padded_len old" "padded_len old \<le> old + 16" "padded_len old mod 16 = 0"
    using old by (auto split: if_splits)
qed

lemma length_pad16: "length (pad16 buf) = padded_len (length buf)"
  using padded_len_bounds[of "length buf"] by (simp add: pad16_def Let_def)

lemma pad16_split:
  "pad16 buf = buf @ replicate (padded_len (length buf) - length buf - 1) 0 @
     [of_nat (padded_len (length buf) - length buf)]"
proof -
  define n where "n = padded_len (length buf) - length buf - 1"
  have n: "padded_len (length buf) = length buf + Suc n"
    using padded_len_bounds[of "length buf"] by (simp add: n_def)
  have r: "(replicate (Suc n) 0 :: bytes) = replicate n 0 @ [0]"
    by (simp add: replicate_append_same)
  show ?thesis
    unfolding pad16_def Let_def n diff_add_inverse r by (simp add: list_update_append)
qed

lemma unpad16_pad16: "unpad16 (pad16 buf) = Some buf"
proof -
  let ?p = "padded_len (length buf) - length buf"
  have p: "0 < ?p" "?p \<le> 16"
    using padded_len_bounds[of "length buf"] by simp_all
  have "unat (of_nat ?p :: u8) = ?p"
    using p by (intro unat_of_nat_small) simp
  moreover have "last (pad16 buf) = of_nat ?p" "pad16 buf \<noteq> []"
    unfolding pad16_split by simp_all
  moreover have "take (length (pad16 buf) - ?p) (pad16 buf) = buf"
    using p padded_len_bounds(1)[of "length buf"] unfolding length_pad16 by (simp add: pad16_split)
  ultimately show ?thesis
    using p padded_len_bounds(1)[of "length buf"] by (simp add: unpad16_def length_pad16 Let_def)
qed

lemma xor_in_place_involutive: "xor_in_place (xor_in_place data key) key = data"
  by (rule nth_equalityI) (simp_all add: xor_in_place_def xor.assoc)

lemma length_xor_in_place [simp]: "length (xor_in_place data key) = length data"
  by (simp add: xor_in_place_def)

end
