(* ===== verification/Aes_Table.thy ===== *)
theory Aes_Table
  imports Cipher_Modes
begin

text \<open>
  The table-driven AES-128 of \<open>src/src/crypto/aes_table.rs\<close>: table generation from the
  field arithmetic, the key schedule, and the two block operations.
\<close>


section \<open>Tables\<close>

definition rotate_left8 :: "nat \<Rightarrow> u8 \<Rightarrow> u8" where
  "rotate_left8 n w = push_bit n w OR drop_bit (8 - n) w"

definition rotate_right32 :: "nat \<Rightarrow> u32 \<Rightarrow> u32" where
  "rotate_right32 n w = drop_bit n w OR push_bit (32 - n) w"

definition xtime :: "u8 \<Rightarrow> u8" where
  "xtime x = push_bit 1 x XOR (if x AND 0x80 \<noteq> 0 then 0x1b else 0)"

text \<open>\<open>gf_mul\<close>: the \<open>while b != 0\<close> loop, with the accumulator as an argument.\<close>

function gf_mul_loop :: "u8 \<Rightarrow> u8 \<Rightarrow> u8 \<Rightarrow> u8" where
  "gf_mul_loop p a b =
     (if b \<noteq> 0 then gf_mul_loop (if b AND 1 \<noteq> 0 then p XOR a else p) (xtime a) (drop_bit 1 b)
      else p)"
  by pat_completeness auto
termination
proof (relation "measure (\<lambda>(p, a, b). unat b)")
  fix p a b :: u8
  assume "b \<noteq> 0"
  then have "unat b div 2 < unat b"
    by (simp add: word_unat_eq_iff)
  then show "((if b AND 1 \<noteq> 0 then p XOR a else p, xtime a, drop_bit 1 b), p, a, b) \<in>
      measure (\<lambda>(p, a, b). unat b)"
    by (simp add: drop_bit_eq_div unat_div)
qed simp

declare gf_mul_loop.simps [simp del]

definition gf_mul :: "u8 \<Rightarrow> u8 \<Rightarrow> u8" where
  "gf_mul a b = gf_mul_loop 0 a b"

text \<open>Powers and logarithms of the generator 3.\<close>

definition pow_log :: "bytes \<times> bytes" where
  "pow_log = (let (pow, log, x) =
     fold (\<lambda>i (pow, log, x). (pow[i := x], log[unat x := of_nat i], x XOR xtime x))
       [0..<255] (replicate 256 0, replicate 256 0, 1)
     in (pow, log))"

definition affine :: "u8 \<Rightarrow> u8" where
  "affine iv = (let (s, y) =
     fold (\<lambda>_ (s, y). let y = rotate_left8 1 y in (s XOR y, y)) [0..<4] (iv, iv)
     in s XOR 0x63)"

definition sboxes :: "bytes \<times> bytes" where
  "sboxes = (let (pow, log) = pow_log in
     fold (\<lambda>i (sbox, inv_sbox).
        let iv = (if i = 0 then 0 else pow ! ((255 - unat (log ! i)) mod 255));
            s = affine iv
        in (sbox[i := s], inv_sbox[unat s := of_nat i]))
       [0..<256] (replicate 256 0, replicate 256 0))"

text \<open>One word of the first encryption table and of the first decryption table.\<close>

definition te_word :: "u8 \<Rightarrow> u32" where
  "te_word s = (let s2 = xtime s; s3 = s2 XOR s in
     push_bit 24 (ucast s2) OR push_bit 16 (ucast s) OR push_bit 8 (ucast s) OR ucast s3)"

definition td_word :: "u8 \<Rightarrow> u32" where
  "td_word si = push_bit 24 (ucast (gf_mul si 0x0e)) OR push_bit 16 (ucast (gf_mul si 0x09)) OR
     push_bit 8 (ucast (gf_mul si 0x0d)) OR ucast (gf_mul si 0x0b)"

record Tables =
  sbox :: bytes
  inv_sbox :: bytes
  te :: "u32 list list"
  td :: "u32 list list"

definition gen_tables :: Tables where
  "gen_tables = (let (sb, isb) = sboxes in
     \<lparr> sbox = sb, inv_sbox = isb,
       te = [map (\<lambda>i. te_word (sb ! i)) [0..<256],
             map (\<lambda>i. rotate_right32 8 (te_word (sb ! i))) [0..<256],
             map (\<lambda>i. rotate_right32 16 (te_word (sb ! i))) [0..<256],
             map (\<lambda>i. rotate_right32 24 (te_word (sb ! i))) [0..<256]],
       td = [map (\<lambda>i. td_word (isb ! i)) [0..<256],
             map (\<lambda>i. rotate_right32 8 (td_word (isb ! i))) [0..<256],
             map (\<lambda>i. rotate_right32 16 (td_word (isb ! i))) [0..<256],
             map (\<lambda>i. rotate_right32 24 (td_word (isb ! i))) [0..<256]] \<rparr>)"


section \<open>Key schedule and block operations\<close>

definition RCON :: "u32 list" where
  "RCON = [0x01000000, 0x02000000, 0x04000000, 0x08000000, 0x10000000, 0x20000000,
           0x40000000, 0x80000000, 0x1b000000, 0x36000000]"

text \<open>The four byte positions of a word, as table indices.\<close>

definition ix0 :: "u32 \<Rightarrow> nat" where "ix0 w = unat (drop_bit 24 w)"
definition ix1 :: "u32 \<Rightarrow> nat" where "ix1 w = unat (drop_bit 16 w AND 0xff)"
definition ix2 :: "u32 \<Rightarrow> nat" where "ix2 w = unat (drop_bit 8 w AND 0xff)"
definition ix3 :: "u32 \<Rightarrow> nat" where "ix3 w = unat (w AND 0xff)"

record AesTable =
  ek :: "u32 list"
  dk :: "u32 list"

definition get_u32 :: "bytes \<Rightarrow> nat \<Rightarrow> u32" where
  "get_u32 b i = of_be32 (b ! i) (b ! (i + 1)) (b ! (i + 2)) (b ! (i + 3))"

text \<open>Four bytes substituted and placed at the four positions of a word.\<close>

definition sub_word :: "bytes \<Rightarrow> nat \<Rightarrow> nat \<Rightarrow> nat \<Rightarrow> nat \<Rightarrow> u32" where
  "sub_word s a b c d = push_bit 24 (ucast (s ! a)) XOR push_bit 16 (ucast (s ! b)) XOR
     push_bit 8 (ucast (s ! c)) XOR ucast (s ! d)"

definition expand_step :: "bytes \<Rightarrow> nat \<Rightarrow> u32 list \<Rightarrow> u32 list" where
  "expand_step s i ek0 =
     (let tmp = ek0 ! (4 * i + 3);
          sub = sub_word s (ix1 tmp) (ix2 tmp) (ix3 tmp) (ix0 tmp);
          ek1 = ek0[4 * i + 4 := ek0 ! (4 * i) XOR sub XOR RCON ! i];
          ek2 = ek1[4 * i + 5 := ek1 ! (4 * i + 1) XOR ek1 ! (4 * i + 4)];
          ek3 = ek2[4 * i + 6 := ek2 ! (4 * i + 2) XOR ek2 ! (4 * i + 5)]
      in ek3[4 * i + 7 := ek3 ! (4 * i + 3) XOR ek3 ! (4 * i + 6)])"

definition expand_key :: "bytes \<Rightarrow> bytes \<Rightarrow> u32 list" where
  "expand_key s key =
     fold (expand_step s) [0..<10] (map (\<lambda>i. get_u32 key (4 * i)) [0..<4] @ replicate 40 0)"

definition tcol :: "u32 list list \<Rightarrow> nat \<Rightarrow> nat \<Rightarrow> nat \<Rightarrow> nat \<Rightarrow> u32" where
  "tcol t a b c d = t ! 0 ! a XOR t ! 1 ! b XOR t ! 2 ! c XOR t ! 3 ! d"

text \<open>The decryption schedule: reversed round keys, \<open>InvMixColumns\<close> applied to the
  words of rounds 1 to 9.\<close>

definition inv_schedule :: "Tables \<Rightarrow> u32 list \<Rightarrow> u32 list" where
  "inv_schedule t ek0 =
     (let s = sbox t; rev_keys = concat (map (\<lambda>i. take 4 (drop (4 * (10 - i)) ek0)) [0..<11])
      in map (\<lambda>j. let v = rev_keys ! j in
                  if 4 \<le> j \<and> j < 40
                  then tcol (td t) (unat (s ! ix0 v)) (unat (s ! ix1 v)) (unat (s ! ix2 v))
                         (unat (s ! ix3 v))
                  else v) [0..<44])"

definition AesTable_new :: "bytes \<Rightarrow> AesTable" where
  "AesTable_new key =
     (let t = gen_tables; e = expand_key (sbox t) key
      in \<lparr> ek = e, dk = inv_schedule t e \<rparr>)"

type_synonym state4 = "u32 \<times> u32 \<times> u32 \<times> u32"

definition load_state :: "bytes \<Rightarrow> u32 list \<Rightarrow> state4" where
  "load_state block rk = (get_u32 block 0 XOR rk ! 0, get_u32 block 4 XOR rk ! 1,
     get_u32 block 8 XOR rk ! 2, get_u32 block 12 XOR rk ! 3)"

definition store_state :: "state4 \<Rightarrow> bytes" where
  "store_state st = (case st of (o0, o1, o2, o3) \<Rightarrow> be32 o0 @ be32 o1 @ be32 o2 @ be32 o3)"

definition enc_round :: "Tables \<Rightarrow> u32 list \<Rightarrow> nat \<Rightarrow> state4 \<Rightarrow> state4" where
  "enc_round t rk k st = (case st of (s0, s1, s2, s3) \<Rightarrow>
     (tcol (te t) (ix0 s0) (ix1 s1) (ix2 s2) (ix3 s3) XOR rk ! k,
      tcol (te t) (ix0 s1) (ix1 s2) (ix2 s3) (ix3 s0) XOR rk ! (k + 1),
      tcol (te t) (ix0 s2) (ix1 s3) (ix2 s0) (ix3 s1) XOR rk ! (k + 2),
      tcol (te t) (ix0 s3) (ix1 s0) (ix2 s1) (ix3 s2) XOR rk ! (k + 3)))"

definition enc_final :: "Tables \<Rightarrow> u32 list \<Rightarrow> state4 \<Rightarrow> state4" where
  "enc_final t rk st = (case st of (s0, s1, s2, s3) \<Rightarrow>
     (sub_word (sbox t) (ix0 s0) (ix1 s1) (ix2 s2) (ix3 s3) XOR rk ! 40,
      sub_word (sbox t) (ix0 s1) (ix1 s2) (ix2 s3) (ix3 s0) XOR rk ! 41,
      sub_word (sbox t) (ix0 s2) (ix1 s3) (ix2 s0) (ix3 s1) XOR rk ! 42,
      sub_word (sbox t) (ix0 s3) (ix1 s0) (ix2 s1) (ix3 s2) XOR rk ! 43))"

definition encrypt_block_table :: "AesTable \<Rightarrow> bytes \<Rightarrow> bytes" where
  "encrypt_block_table a block =
     (let t = gen_tables; rk = ek a;
          (st, k) = fold (\<lambda>_ (st, k). (enc_round t rk k st, k + 4)) [0..<9]
                      (load_state block rk, 4)
      in store_state (enc_final t rk st))"

definition dec_round :: "Tables \<Rightarrow> u32 list \<Rightarrow> nat \<Rightarrow> state4 \<Rightarrow> state4" where
  "dec_round t rk k st = (case st of (s0, s1, s2, s3) \<Rightarrow>
     (tcol (td t) (ix0 s0) (ix1 s3) (ix2 s2) (ix3 s1) XOR rk ! k,
      tcol (td t) (ix0 s1) (ix1 s0) (ix2 s3) (ix3 s2) XOR rk ! (k + 1),
      tcol (td t) (ix0 s2) (ix1 s1) (ix2 s0) (ix3 s3) XOR rk ! (k + 2),
      tcol (td t) (ix0 s3) (ix1 s2) (ix2 s1) (ix3 s0) XOR rk ! (k + 3)))"

definition dec_final :: "Tables \<Rightarrow> u32 list \<Rightarrow> state4 \<Rightarrow> state4" where
  "dec_final t rk st = (case st of (s0, s1, s2, s3) \<Rightarrow>
     (sub_word (inv_sbox t) (ix0 s0) (ix1 s3) (ix2 s2) (ix3 s1) XOR rk ! 40,
      sub_word (inv_sbox t) (ix0 s1) (ix1 s0) (ix2 s3) (ix3 s2) XOR rk ! 41,
      sub_word (inv_sbox t) (ix0 s2) (ix1 s1) (ix2 s0) (ix3 s3) XOR rk ! 42,
      sub_word (inv_sbox t) (ix0 s3) (ix1 s2) (ix2 s1) (ix3 s0) XOR rk ! 43))"

definition decrypt_block_table :: "AesTable \<Rightarrow> bytes \<Rightarrow> bytes" where
  "decrypt_block_table a block =
     (let t = gen_tables; rk = dk a;
          (st, k) = fold (\<lambda>_ (st, k). (dec_round t rk k st, k + 4)) [0..<9]
                      (load_state block rk, 4)
      in store_state (dec_final t rk st))"


section \<open>Words as four bytes\<close>

definition pack :: "u8 \<Rightarrow> u8 \<Rightarrow> u8 \<Rightarrow> u8 \<Rightarrow> u32" where
  "pack a b c d = push_bit 24 (ucast a) OR push_bit 16 (ucast b) OR push_bit 8 (ucast c) OR ucast d"

lemma bit_u8: "bit (a :: u8) n \<Longrightarrow> n < 8"
  using bit_imp_le_length[of a n] by simp

lemma bit_pack:
  "bit (pack a b c d) n \<longleftrightarrow> n < 32 \<and>
    (if n < 8 then bit d n else if n < 16 then bit c (n - 8)
     else if n < 24 then bit b (n - 16) else bit a (n - 24))"
  by (auto simp: pack_def bit_simps dest: bit_u8)

lemma pack_xor_form:
  "push_bit 24 (ucast a) XOR push_bit 16 (ucast b) XOR push_bit 8 (ucast c) XOR ucast d =
   pack a b c (d :: u8)"
  by (rule bit_word_eqI) (auto simp: bit_pack bit_simps dest: bit_u8)

lemma of_be32_pack: "of_be32 a b c d = pack a b c d"
  by (rule bit_word_eqI)
     (auto simp: bit_pack of_be32_def bcat_def bit_simps dest: bit_u8)

lemma pack_xor: "pack a b c d XOR pack a' b' c' d' =
    pack (a XOR a') (b XOR b') (c XOR c') (d XOR d')"
  by (rule bit_word_eqI) (simp add: bit_pack bit_xor_iff)

lemma ror_pack: "rotate_right32 8 (pack a b c d) = pack d a b c"
  "rotate_right32 16 (pack a b c d) = pack c d a b"
  "rotate_right32 24 (pack a b c d) = pack b c d a"
  by (rule bit_word_eqI; auto simp: bit_pack rotate_right32_def bit_simps)+

lemma ix_pack: "ix0 (pack a b c d) = unat a" "ix1 (pack a b c d) = unat b"
  "ix2 (pack a b c d) = unat c" "ix3 (pack a b c d) = unat d"
proof -
  have m: "(0xff :: u32) = mask 8"
    by (simp add: mask_eq_exp_minus_1)
  have "drop_bit 24 (pack a b c d) = ucast a"
    by (rule bit_word_eqI) (auto simp: bit_pack bit_simps dest: bit_u8)
  moreover have "drop_bit 16 (pack a b c d) AND 0xff = ucast b"
    unfolding m by (rule bit_word_eqI) (auto simp: bit_pack bit_simps dest: bit_u8)
  moreover have "drop_bit 8 (pack a b c d) AND 0xff = ucast c"
    unfolding m by (rule bit_word_eqI) (auto simp: bit_pack bit_simps dest: bit_u8)
  moreover have "pack a b c d AND 0xff = ucast d"
    unfolding m by (rule bit_word_eqI) (auto simp: bit_pack bit_simps dest: bit_u8)
  ultimately show "ix0 (pack a b c d) = unat a" "ix1 (pack a b c d) = unat b"
    "ix2 (pack a b c d) = unat c" "ix3 (pack a b c d) = unat d"
    by (simp_all add: ix0_def ix1_def ix2_def ix3_def unat_ucast_up)
qed

lemma pack_cases:
  obtains a b c d where "w = pack a b c d"
  using of_be32_be32[of w] of_be32_pack by metis


section \<open>Field arithmetic\<close>

lemma xtime_bit: "xtime x = push_bit 1 x XOR (if bit x 7 then 0x1b else 0)"
proof -
  have "x AND 0x80 \<noteq> 0 \<longleftrightarrow> bit x 7"
    using bit_iff_and_push_bit_not_eq_0[of x 7] by simp
  then show ?thesis
    by (simp add: xtime_def)
qed

lemma xtime_xor: "xtime (x XOR y) = xtime x XOR xtime y"
  by (simp add: xtime_bit bit_xor_iff xor_ac)

lemma xtime_0 [simp]: "xtime 0 = 0"
  by (simp add: xtime_def)

lemmas gf_loop = gf_mul_loop.simps[of _ _ "numeral n" for n] gf_mul_loop.simps[of _ _ 1]
  gf_mul_loop.simps[of _ _ 0]

lemma gf_mul_coeffs:
  "gf_mul x 0x0e = xtime x XOR xtime (xtime x) XOR xtime (xtime (xtime x))"
  "gf_mul x 0x09 = x XOR xtime (xtime (xtime x))"
  "gf_mul x 0x0d = x XOR xtime (xtime x) XOR xtime (xtime (xtime x))"
  "gf_mul x 0x0b = x XOR xtime x XOR xtime (xtime (xtime x))"
  by (simp_all add: gf_mul_def gf_loop xor_ac)


subsection \<open>Column mixing\<close>

definition mix :: "u32 \<Rightarrow> u32" where
  "mix w = (case (ix0 w, ix1 w, ix2 w, ix3 w) of (a, b, c, d) \<Rightarrow>
     te_word (of_nat a) XOR rotate_right32 8 (te_word (of_nat b)) XOR
     rotate_right32 16 (te_word (of_nat c)) XOR rotate_right32 24 (te_word (of_nat d)))"

definition inv_mix :: "u32 \<Rightarrow> u32" where
  "inv_mix w = (case (ix0 w, ix1 w, ix2 w, ix3 w) of (a, b, c, d) \<Rightarrow>
     td_word (of_nat a) XOR rotate_right32 8 (td_word (of_nat b)) XOR
     rotate_right32 16 (td_word (of_nat c)) XOR rotate_right32 24 (td_word (of_nat d)))"

lemma te_word_pack: "te_word s = pack (xtime s) s s (xtime s XOR s)"
  by (simp add: te_word_def pack_def Let_def)

lemma td_word_pack: "td_word s =
    pack (gf_mul s 0x0e) (gf_mul s 0x09) (gf_mul s 0x0d) (gf_mul s 0x0b)"
  by (simp add: td_word_def pack_def)

lemma mix_pack: "mix (pack a b c d) =
    pack (xtime a XOR xtime b XOR b XOR c XOR d) (a XOR xtime b XOR xtime c XOR c XOR d)
      (a XOR b XOR xtime c XOR xtime d XOR d) (xtime a XOR a XOR b XOR c XOR xtime d)"
  by (simp add: mix_def ix_pack te_word_pack ror_pack pack_xor xor_ac)

lemma inv_mix_pack: "inv_mix (pack a b c d) = pack
    (gf_mul a 0x0e XOR gf_mul b 0x0b XOR gf_mul c 0x0d XOR gf_mul d 0x09)
    (gf_mul a 0x09 XOR gf_mul b 0x0e XOR gf_mul c 0x0b XOR gf_mul d 0x0d)
    (gf_mul a 0x0d XOR gf_mul b 0x09 XOR gf_mul c 0x0e XOR gf_mul d 0x0b)
    (gf_mul a 0x0b XOR gf_mul b 0x0d XOR gf_mul c 0x09 XOR gf_mul d 0x0e)"
  by (simp add: inv_mix_def ix_pack td_word_pack ror_pack pack_xor xor_ac)

lemma inv_mix_mix: "inv_mix (mix w) = w"
  by (rule pack_cases[of w])
     (simp add: mix_pack inv_mix_pack gf_mul_coeffs xtime_xor xor_ac)

lemma inv_mix_xor: "inv_mix (v XOR w) = inv_mix v XOR inv_mix w"
  by (rule pack_cases[of v], rule pack_cases[of w])
     (simp add: pack_xor inv_mix_pack gf_mul_coeffs xtime_xor xor_ac)


section \<open>The substitution boxes are inverse to each other\<close>

definition gen3 :: "u8 \<Rightarrow> u8" where
  "gen3 x = x XOR xtime x"

definition gp :: "nat \<Rightarrow> u8" where
  "gp n = (gen3 ^^ n) 1"

lemma gen3_xor: "gen3 (x XOR y) = gen3 x XOR gen3 y"
  by (simp add: gen3_def xtime_xor xor_ac)

lemma gen3_kernel:
  assumes "gen3 x = 0"
  shows "x = 0"
proof -
  have "bit x n \<longleftrightarrow> (1 \<le> n \<and> bit x (n - 1)) \<noteq> (bit x 7 \<and> bit (0x1b :: u8) n)" if "n < 8" for n
  proof -
    have "\<not> bit (gen3 x) n"
      using assms by simp
    then show ?thesis
      using that unfolding gen3_def xtime_bit bit_xor_iff bit_push_bit_iff by auto
  qed
  from this[of 0] this[of 1] this[of 2] this[of 3] this[of 4] this[of 5] this[of 6] this[of 7]
  have "\<not> bit x 0 \<and> \<not> bit x 1 \<and> \<not> bit x 2 \<and> \<not> bit x 3 \<and> \<not> bit x 4 \<and> \<not> bit x 5 \<and>
      \<not> bit x 6 \<and> \<not> bit x 7"
    by (simp split: if_splits)
  moreover have "n < 8 \<Longrightarrow> n \<in> {0, 1, 2, 3, 4, 5, 6, 7}" for n :: nat
    by auto
  ultimately show ?thesis
    by (intro bit_word_eqI) fastforce
qed

lemma gen3_inj: "inj gen3"
proof (rule injI)
  fix x y assume "gen3 x = gen3 y"
  then have "x XOR y = 0"
    using gen3_kernel[of "x XOR y"] by (simp add: gen3_xor)
  then show "x = y"
    by (metis xor_cancel_left xor.right_neutral)
qed

text \<open>The orbit of 1 under multiplication by 3 does not return before step 255.\<close>

fun orbit_ok :: "u8 \<Rightarrow> bytes \<Rightarrow> bool" where
  "orbit_ok x [] = True"
| "orbit_ok x (y # ys) = (x XOR xtime x = y \<and> y \<noteq> 1 \<and> orbit_ok y ys)"

lemma orbit_ok_nth: "orbit_ok x ys \<Longrightarrow> k < length ys \<Longrightarrow> (gen3 ^^ Suc k) x \<noteq> 1"
proof (induction ys arbitrary: x k)
  case (Cons y ys)
  then have y: "gen3 x = y" "y \<noteq> 1" "orbit_ok y ys"
    by (auto simp: gen3_def)
  show ?case
  proof (cases k)
    case (Suc m)
    then have "(gen3 ^^ Suc k) x = (gen3 ^^ Suc m) y"
      using y(1) by (simp only: funpow_Suc_right comp_apply)
    then show ?thesis
      using Cons.IH[OF y(3), of m] Cons.prems Suc by simp
  qed (use y in simp)
qed simp

lemma orbit_of_1: "orbit_ok 1 [
     3, 5, 15, 17, 51, 85, 255, 26, 46, 114, 150, 161, 248, 19, 53, 95, 225, 56,
     72, 216, 115, 149, 164, 247, 2, 6, 10, 30, 34, 102, 170, 229, 52, 92, 228, 55,
     89, 235, 38, 106, 190, 217, 112, 144, 171, 230, 49, 83, 245, 4, 12, 20, 60, 68,
     204, 79, 209, 104, 184, 211, 110, 178, 205, 76, 212, 103, 169, 224, 59, 77, 215, 98,
     166, 241, 8, 24, 40, 120, 136, 131, 158, 185, 208, 107, 189, 220, 127, 129, 152, 179,
     206, 73, 219, 118, 154, 181, 196, 87, 249, 16, 48, 80, 240, 11, 29, 39, 105, 187,
     214, 97, 163, 254, 25, 43, 125, 135, 146, 173, 236, 47, 113, 147, 174, 233, 32, 96,
     160, 251, 22, 58, 78, 210, 109, 183, 194, 93, 231, 50, 86, 250, 21, 63, 65, 195,
     94, 226, 61, 71, 201, 64, 192, 91, 237, 44, 116, 156, 191, 218, 117, 159, 186, 213,
     100, 172, 239, 42, 126, 130, 157, 188, 223, 122, 142, 137, 128, 155, 182, 193, 88, 232,
     35, 101, 175, 234, 37, 111, 177, 200, 67, 197, 84, 252, 31, 33, 99, 165, 244, 7,
     9, 27, 45, 119, 153, 176, 203, 70, 202, 69, 207, 74, 222, 121, 139, 134, 145, 168,
     227, 62, 66, 198, 81, 243, 14, 18, 54, 90, 238, 41, 123, 141, 140, 143, 138, 133,
     148, 167, 242, 13, 23, 57, 75, 221, 124, 132, 151, 162, 253, 28, 36, 108, 180, 199,
     82, 246]"
  by (simp add: xtime_def)

lemma gp_not_1: "0 < k \<Longrightarrow> k < 255 \<Longrightarrow> gp k \<noteq> 1"
  using orbit_ok_nth[OF orbit_of_1, of "k - 1"] by (simp add: gp_def)

lemma gp_inj: "inj_on gp {..<255}"
proof (rule linorder_inj_onI)
  fix i j :: nat assume ij: "i < j" "i \<in> {..<255}" "j \<in> {..<255}"
  show "gp i \<noteq> gp j"
  proof
    assume eq: "gp i = gp j"
    have "gp j = (gen3 ^^ i) (gp (j - i))"
      using ij(1) by (simp add: gp_def flip: funpow_add comp_apply[of "gen3 ^^ i"])
    then have "gp (j - i) = 1"
      using eq injD[OF inj_fn[OF gen3_inj, of i]] by (simp add: gp_def)
    moreover have "0 < j - i" "j - i < 255"
      using ij by auto
    ultimately show False
      using gp_not_1 by blast
  qed
qed auto

lemma gp_nonzero: "gp k \<noteq> 0"
proof
  assume "gp k = 0"
  moreover have "(gen3 ^^ k) 0 = 0"
    by (induction k) (simp_all add: gen3_def)
  ultimately show False
    using injD[OF inj_fn[OF gen3_inj, of k], of 1 0] by (simp add: gp_def)
qed

lemma gp_onto:
  assumes "x \<noteq> 0"
  obtains k where "k < 255" "x = gp k"
proof -
  have "card (gp ` {..<255}) = 255"
    using gp_inj by (simp add: card_image)
  moreover have "card (UNIV - {0 :: u8}) = 255"
    by (simp add: card_Diff_subset card_word)
  moreover have "gp ` {..<255} \<subseteq> UNIV - {0}"
    using gp_nonzero by auto
  ultimately have "gp ` {..<255} = UNIV - {0}"
    by (simp add: card_subset_eq)
  then show thesis
    using assms that by blast
qed

text \<open>A loop that writes two arrays, the second one at computed indices.\<close>

lemma fold_two_arrays:
  assumes "fold (\<lambda>i (A, B). (A[i := f i], B[g i := h i])) [0..<n] (A0, B0) = (A, B)"
    and "n \<le> length A0" "inj_on g {..<n}" "\<And>i. i < n \<Longrightarrow> g i < length B0"
  shows "length A = length A0 \<and> length B = length B0 \<and>
    (\<forall>i<n. A ! i = f i \<and> B ! g i = h i)"
  using assms
proof (induction n arbitrary: A B)
  case (Suc n)
  obtain A1 B1 where r: "fold (\<lambda>i (A, B). (A[i := f i], B[g i := h i])) [0..<n] (A0, B0) = (A1, B1)"
    by (rule prod.exhaust)
  have IH: "length A1 = length A0" "length B1 = length B0"
      "\<And>i. i < n \<Longrightarrow> A1 ! i = f i \<and> B1 ! g i = h i"
    using Suc.IH[OF r] Suc.prems by (auto simp: inj_on_def)
  have AB: "A = A1[n := f n]" "B = B1[g n := h n]"
    using Suc.prems(1) r by simp_all
  have "g n \<noteq> g i" if "i < n" for i
    using that inj_onD[OF Suc.prems(3), of n i] by auto
  then show ?case
    using IH AB Suc.prems(2,4) by (auto simp: less_Suc_eq nth_list_update)
qed simp

lemma pow_log_loop:
  "fold (\<lambda>i (pow, log, x). (pow[i := x], log[unat x := of_nat i], x XOR xtime x)) [0..<n] (P, L, 1) =
   (case fold (\<lambda>i (A, B). (A[i := gp i], B[unat (gp i) := of_nat i])) [0..<n] (P, L) of
      (A, B) \<Rightarrow> (A, B, gp n))"
  by (induction n) (simp_all add: gp_def gen3_def split: prod.splits)

lemma unat_u8_less: "unat (x :: u8) < 256"
  using unsigned_less[of x, where ?'a = nat] by simp

lemma pow_log_spec:
  assumes "pow_log = (pow, log)" "k < 255"
  shows "pow ! k = gp k" "log ! unat (gp k) = of_nat k"
proof -
  let ?loop = "fold (\<lambda>i (A, B). (A[i := gp i], B[unat (gp i) := of_nat i])) [0..<255]
    (replicate 256 0, replicate 256 0) :: bytes \<times> bytes"
  have "?loop = (pow, log)"
    using assms(1) unfolding pow_log_def pow_log_loop by (simp split: prod.splits)
  moreover have "inj_on (\<lambda>i. unat (gp i)) {..<255}"
    using gp_inj by (auto simp: inj_on_def word_unat_eq_iff)
  ultimately show "pow ! k = gp k" "log ! unat (gp k) = of_nat k"
    using fold_two_arrays[of gp "\<lambda>i. unat (gp i)" of_nat 255 "replicate 256 0" "replicate 256 0"
        pow log] assms(2) unat_u8_less by simp_all
qed

text \<open>The value the S-box loop computes from the byte \<open>i\<close> before the affine map.\<close>

definition finv :: "nat \<Rightarrow> u8" where
  "finv i = (if i = 0 then 0 else fst pow_log ! ((255 - unat (snd pow_log ! i)) mod 255))"

lemma finv_gp:
  assumes "k < 255"
  shows "finv (unat (gp k)) = gp ((255 - k) mod 255)"
proof -
  obtain pow log where pl: "pow_log = (pow, log)"
    by (rule prod.exhaust)
  have "unat (of_nat k :: u8) = k"
    using assms by (intro unat_of_nat_small) simp
  then show ?thesis
    using pow_log_spec[OF pl] assms gp_nonzero[of k]
    by (simp add: finv_def pl word_unat_eq_iff)
qed

lemma neg_mod_inj:
  fixes j k :: nat
  assumes "j < 255" "k < 255" "(255 - j) mod 255 = (255 - k) mod 255"
  shows "j = k"
  using assms by (cases "j = 0"; cases "k = 0") auto

lemma finv_inj: "inj_on finv {..<256}"
proof (rule inj_onI)
  fix i j :: nat assume ij: "i \<in> {..<256}" "j \<in> {..<256}" and eq: "finv i = finv j"
  have rep: "\<exists>k<255. i = unat (gp k)" if i: "i \<noteq> 0" "i < 256" for i
  proof -
    have "(of_nat i :: u8) \<noteq> 0"
      using i by (simp add: word_unat_eq_iff unat_of_nat_small)
    then obtain k where k: "k < 255" "of_nat i = gp k"
      by (rule gp_onto)
    then have "i = unat (gp k)"
      using i unat_of_nat_small[of i, where ?'a = 8] by simp
    with k show ?thesis
      by blast
  qed
  have nz: "finv i \<noteq> 0" if "i \<noteq> 0" "i < 256" for i
    using rep[OF that] finv_gp gp_nonzero by auto
  show "i = j"
  proof (cases "i = 0 \<or> j = 0")
    case True
    then show ?thesis
      using eq nz[of i] nz[of j] ij by (auto simp: finv_def split: if_splits)
  next
    case False
    then obtain k l where kl: "k < 255" "l < 255" "i = unat (gp k)" "j = unat (gp l)"
      using rep ij by (metis lessThan_iff)
    then have "(255 - k) mod 255 = (255 - l) mod 255"
      using eq finv_gp gp_inj by (auto simp: inj_on_def)
    then show ?thesis
      using kl neg_mod_inj by metis
  qed
qed

lemma bit_rot1: "n < 8 \<Longrightarrow> bit (rotate_left8 (Suc 0) x) n = bit x (if n = 0 then 7 else n - 1)"
  unfolding rotate_left8_def bit_or_iff bit_push_bit_iff bit_drop_bit_eq comp_apply
  by (auto dest: bit_u8)

lemma rot1_xor: "rotate_left8 (Suc 0) (x XOR y) = rotate_left8 (Suc 0) x XOR rotate_left8 (Suc 0) y"
  by (rule bit_word_eqI) (simp add: bit_rot1 bit_xor_iff)

lemma rot1_8: "(rotate_left8 (Suc 0) ^^ 8) x = x"
proof (rule bit_word_eqI)
  fix n assume "n < LENGTH(8)"
  then have "n \<in> {0, 1, 2, 3, 4, 5, 6, 7}"
    by auto
  then show "bit ((rotate_left8 (Suc 0) ^^ 8) x) n = bit x n"
    by (auto simp: bit_rot1 numeral_eq_Suc)
qed

lemma affine_rotations:
  "affine x = x XOR rotate_left8 (Suc 0) x XOR rotate_left8 (Suc 0) (rotate_left8 (Suc 0) x) XOR
     rotate_left8 (Suc 0) (rotate_left8 (Suc 0) (rotate_left8 (Suc 0) x)) XOR
     rotate_left8 (Suc 0) (rotate_left8 (Suc 0) (rotate_left8 (Suc 0) (rotate_left8 (Suc 0) x))) XOR 0x63"
proof -
  have "[0..<4] = [0, 1, 2, 3 :: nat]"
    by (simp add: upt_rec)
  then show ?thesis
    unfolding affine_def by (simp add: Let_def xor.assoc)
qed

lemma affine_inj: "inj affine"
proof (rule inj_on_inverseI)
  let ?r = "rotate_left8 (Suc 0)"
  fix x
  have r8: "?r (?r (?r (?r (?r (?r (?r (?r y))))))) = y" for y
    using rot1_8[of y] by (simp add: numeral_eq_Suc)
  show "?r (affine x XOR 0x63) XOR ?r (?r (?r (affine x XOR 0x63))) XOR
      ?r (?r (?r (?r (?r (?r (affine x XOR 0x63)))))) = x"
    by (simp add: affine_rotations rot1_xor r8 xor_ac)
qed

lemma sboxes_spec:
  assumes "i < 256"
  shows "fst sboxes ! i = affine (finv i)" "snd sboxes ! unat (affine (finv i)) = of_nat i"
    "length (fst sboxes) = 256" "length (snd sboxes) = 256"
proof -
  let ?g = "\<lambda>i. unat (affine (finv i))"
  have "sboxes = fold (\<lambda>i (A, B). (A[i := affine (finv i)], B[?g i := of_nat i])) [0..<256]
      (replicate 256 0, replicate 256 0)"
    by (simp add: sboxes_def finv_def Let_def split_beta del: upt_rec_numeral)
  then have loop: "fold (\<lambda>i (A, B). (A[i := affine (finv i)], B[?g i := of_nat i])) [0..<256]
      (replicate 256 0, replicate 256 0) = (fst sboxes, snd sboxes)"
    by (simp del: upt_rec_numeral)
  have inj: "inj_on ?g {..<256}"
  proof (rule inj_onI)
    fix i j :: nat assume ij: "i \<in> {..<256}" "j \<in> {..<256}" and eq: "?g i = ?g j"
    have "affine (finv i) = affine (finv j)"
      using eq unfolding word_unat_eq_iff .
    then have "finv i = finv j"
      by (rule injD[OF affine_inj])
    then show "i = j"
      using ij by (rule inj_onD[OF finv_inj])
  qed
  have "length (fst sboxes) = 256 \<and> length (snd sboxes) = 256 \<and>
      (\<forall>i<256. fst sboxes ! i = affine (finv i) \<and> snd sboxes ! ?g i = of_nat i)"
    using fold_two_arrays[OF loop _ inj] unat_u8_less by simp
  then show "fst sboxes ! i = affine (finv i)" "snd sboxes ! unat (affine (finv i)) = of_nat i"
    "length (fst sboxes) = 256" "length (snd sboxes) = 256"
    using assms by auto
qed

lemma gen_tables_sel:
  "sbox gen_tables = fst sboxes" "inv_sbox gen_tables = snd sboxes"
  by (simp_all add: gen_tables_def split_beta del: upt_rec_numeral)

lemma inv_sbox_sbox: "inv_sbox gen_tables ! unat (sbox gen_tables ! unat x) = x"
  using sboxes_spec(1,2)[OF unat_u8_less, of x] by (simp add: gen_tables_sel)


section \<open>Decryption inverts encryption\<close>

definition map4 :: "(u32 \<Rightarrow> u32) \<Rightarrow> state4 \<Rightarrow> state4" where
  "map4 f st = (case st of (a, b, c, d) \<Rightarrow> (f a, f b, f c, f d))"

definition xor4 :: "state4 \<Rightarrow> state4 \<Rightarrow> state4" where
  "xor4 st st' = (case (st, st') of ((a, b, c, d), (a', b', c', d')) \<Rightarrow>
     (a XOR a', b XOR b', c XOR c', d XOR d'))"

definition key4 :: "u32 list \<Rightarrow> nat \<Rightarrow> state4" where
  "key4 rk k = (rk ! k, rk ! (k + 1), rk ! (k + 2), rk ! (k + 3))"

text \<open>\<open>ShiftRows\<close> after \<open>SubBytes\<close>, and the inverse composition.\<close>

definition sr_sb :: "state4 \<Rightarrow> state4" where
  "sr_sb st = (case st of (s0, s1, s2, s3) \<Rightarrow>
     (let s = sbox gen_tables in
       (sub_word s (ix0 s0) (ix1 s1) (ix2 s2) (ix3 s3),
        sub_word s (ix0 s1) (ix1 s2) (ix2 s3) (ix3 s0),
        sub_word s (ix0 s2) (ix1 s3) (ix2 s0) (ix3 s1),
        sub_word s (ix0 s3) (ix1 s0) (ix2 s1) (ix3 s2))))"

definition isr_isb :: "state4 \<Rightarrow> state4" where
  "isr_isb st = (case st of (s0, s1, s2, s3) \<Rightarrow>
     (let s = inv_sbox gen_tables in
       (sub_word s (ix0 s0) (ix1 s3) (ix2 s2) (ix3 s1),
        sub_word s (ix0 s1) (ix1 s0) (ix2 s3) (ix3 s2),
        sub_word s (ix0 s2) (ix1 s1) (ix2 s0) (ix3 s3),
        sub_word s (ix0 s3) (ix1 s2) (ix2 s1) (ix3 s0))))"

lemmas aes_state_simps = map4_def xor4_def key4_def sr_sb_def isr_isb_def Let_def

lemma sub_word_pack: "sub_word s a b c d = pack (s ! a) (s ! b) (s ! c) (s ! d)"
  by (simp add: sub_word_def pack_xor_form)

lemma ix_less: "ix0 w < 256" "ix1 w < 256" "ix2 w < 256" "ix3 w < 256"
  by (rule pack_cases[of w], simp add: ix_pack unat_u8_less)+

lemma isr_isb_sr_sb: "isr_isb (sr_sb st) = st"
proof -
  obtain s0 s1 s2 s3 where st: "st = (s0, s1, s2, s3)"
    by (rule prod_cases4)
  show ?thesis
    unfolding st
    by (rule pack_cases[of s0], rule pack_cases[of s1], rule pack_cases[of s2],
        rule pack_cases[of s3])
       (simp add: aes_state_simps sub_word_pack ix_pack inv_sbox_sbox)
qed

lemma tcol_te:
  assumes "a < 256" "b < 256" "c < 256" "d < 256"
  shows "tcol (te gen_tables) a b c d = mix (sub_word (sbox gen_tables) a b c d)"
  using assms
  by (simp add: tcol_def gen_tables_def split_beta sub_word_pack mix_def ix_pack
      del: upt_rec_numeral)

lemma tcol_td:
  assumes "a < 256" "b < 256" "c < 256" "d < 256"
  shows "tcol (td gen_tables) a b c d = inv_mix (sub_word (inv_sbox gen_tables) a b c d)"
  using assms
  by (simp add: tcol_def gen_tables_def split_beta sub_word_pack inv_mix_def ix_pack
      del: upt_rec_numeral)

lemma enc_round_eq: "enc_round gen_tables rk k st = xor4 (map4 mix (sr_sb st)) (key4 rk k)"
  by (cases st rule: prod_cases4) (simp add: enc_round_def aes_state_simps tcol_te ix_less)

lemma enc_final_eq: "enc_final gen_tables rk st = xor4 (sr_sb st) (key4 rk 40)"
  by (cases st rule: prod_cases4) (simp add: enc_final_def aes_state_simps )

lemma dec_round_eq: "dec_round gen_tables rk k st = xor4 (map4 inv_mix (isr_isb st)) (key4 rk k)"
  by (cases st rule: prod_cases4) (simp add: dec_round_def aes_state_simps tcol_td ix_less)

lemma dec_final_eq: "dec_final gen_tables rk st = xor4 (isr_isb st) (key4 rk 40)"
  by (cases st rule: prod_cases4) (simp add: dec_final_def aes_state_simps )

lemma load_store: "load_state (store_state st) rk = xor4 st (key4 rk 0)"
  by (cases st rule: prod_cases4)
     (simp add: load_state_def store_state_def xor4_def key4_def get_u32_def be32_def
       of_be32_be32 numeral_2_eq_2)

lemma map4_inv_mix:
  "map4 inv_mix (xor4 st st') = xor4 (map4 inv_mix st) (map4 inv_mix st')"
  "map4 inv_mix (map4 mix st) = st"
  by (cases st rule: prod_cases4; cases st' rule: prod_cases4;
      simp add: map4_def xor4_def inv_mix_xor inv_mix_mix)+

lemma xor4_cancel: "xor4 (xor4 st st') st' = st"
  by (cases st rule: prod_cases4; cases st' rule: prod_cases4)
     (simp add: xor4_def xor.assoc)

text \<open>The counter \<open>k\<close> of the round loop takes the values 4, 8, ..., 36.\<close>

lemma rounds_counter:
  "fold (\<lambda>_ (st, k). (f k st, k + 4)) [0..<n] (st, 4 :: nat) =
   (fold (\<lambda>i st. f (4 * (i + 1)) st) [0..<n] st, 4 * (n + 1))"
  by (induction n) simp_all

lemma rounds_invert:
  assumes "\<And>j. 1 \<le> j \<Longrightarrow> j \<le> 9 \<Longrightarrow> key4 rk' (4 * j) = map4 inv_mix (key4 rk (4 * (10 - j)))"
    and "m \<le> 9"
  shows "fold (\<lambda>i st. dec_round gen_tables rk' (4 * (i + 1)) st) [0..<m]
      (sr_sb (fold (\<lambda>i st. enc_round gen_tables rk (4 * (i + 1)) st) [0..<9] st)) =
    sr_sb (fold (\<lambda>i st. enc_round gen_tables rk (4 * (i + 1)) st) [0..<9 - m] st)"
  using assms(2)
proof (induction m)
  case (Suc m)
  let ?enc = "\<lambda>n. fold (\<lambda>i st. enc_round gen_tables rk (4 * (i + 1)) st) [0..<n] st"
  have n: "9 - m = Suc (9 - Suc m)"
    using Suc.prems by simp
  have key: "key4 rk' (4 * (m + 1)) = map4 inv_mix (key4 rk (4 * (9 - Suc m + 1)))"
  proof -
    have "10 - (m + 1) = 9 - Suc m + 1"
      using Suc.prems by simp
    then show ?thesis
      using assms(1)[of "m + 1"] Suc.prems by simp
  qed
  have e: "?enc (9 - m) = xor4 (map4 mix (sr_sb (?enc (9 - Suc m)))) (key4 rk (4 * (9 - Suc m + 1)))"
    unfolding n by (simp add: enc_round_eq)
  have "dec_round gen_tables rk' (4 * (m + 1)) (sr_sb (?enc (9 - m))) = sr_sb (?enc (9 - Suc m))"
    unfolding dec_round_eq isr_isb_sr_sb key map4_inv_mix(1)[symmetric]
    unfolding e xor4_cancel map4_inv_mix(2) ..
  then show ?case
    using Suc by simp
qed simp

lemma length_expand_key: "length (expand_key s key) = 44"
proof -
  have "length (fold (expand_step s) is e) = length e" for "is" e
    by (induction "is" arbitrary: e) (simp_all add: expand_step_def Let_def)
  then show ?thesis
    by (simp add: expand_key_def)
qed

lemma length_rev_keys:
  assumes "length e = 44" "n \<le> 11"
  shows "length (concat (map (\<lambda>i. take 4 (drop (4 * (10 - i)) e)) [0..<n])) = 4 * n"
  using assms by (induction n) auto

lemma rev_keys_nth:
  assumes "length e = 44" "i < n" "n \<le> 11" "l < 4"
  shows "concat (map (\<lambda>i. take 4 (drop (4 * (10 - i)) e)) [0..<n]) ! (4 * i + l) =
    e ! (4 * (10 - i) + l)"
  using assms(2,3)
proof (induction n)
  case (Suc n)
  then show ?case
    using assms(1,4) length_rev_keys[of e n]
    by (cases "i < n") (auto simp: nth_append less_Suc_eq)
qed simp

lemma inv_schedule_key4:
  assumes "length e = 44" "j \<le> 10"
  shows "key4 (inv_schedule gen_tables e) (4 * j) =
    (if 1 \<le> j \<and> j \<le> 9 then map4 inv_mix else id) (key4 e (4 * (10 - j)))"
proof -
  have word: "inv_schedule gen_tables e ! (4 * j + l) =
      (if 1 \<le> j \<and> j \<le> 9 then inv_mix else id) (e ! (4 * (10 - j) + l))" if "l < 4" for l
  proof -
    let ?v = "e ! (4 * (10 - j) + l)"
    have "sub_word (inv_sbox gen_tables) (unat (sbox gen_tables ! ix0 ?v))
        (unat (sbox gen_tables ! ix1 ?v)) (unat (sbox gen_tables ! ix2 ?v))
        (unat (sbox gen_tables ! ix3 ?v)) = ?v"
      by (rule pack_cases[of ?v]) (simp add: sub_word_pack ix_pack inv_sbox_sbox)
    moreover have "4 * j + l < 44" "4 \<le> 4 * j + l \<and> 4 * j + l < 40 \<longleftrightarrow> 1 \<le> j \<and> j \<le> 9"
      using that assms(2) by auto
    ultimately show ?thesis
      using that assms rev_keys_nth[of e j 11 l]
      by (simp add: inv_schedule_def Let_def tcol_td unat_u8_less del: upt_rec_numeral)
  qed
  show ?thesis
    using word[of 0] word[of 1] word[of 2] word[of 3] by (simp add: key4_def map4_def)
qed

lemma encrypt_block_table_eq:
  "encrypt_block_table a block = store_state (xor4 (sr_sb
     (fold (\<lambda>i st. enc_round gen_tables (ek a) (4 * (i + 1)) st) [0..<9]
       (load_state block (ek a)))) (key4 (ek a) 40))"
  by (simp add: encrypt_block_table_def rounds_counter enc_final_eq Let_def
      del: upt_rec_numeral)

lemma decrypt_block_table_eq:
  "decrypt_block_table a block = store_state (xor4 (isr_isb
     (fold (\<lambda>i st. dec_round gen_tables (dk a) (4 * (i + 1)) st) [0..<9]
       (load_state block (dk a)))) (key4 (dk a) 40))"
  by (simp add: decrypt_block_table_def rounds_counter dec_final_eq Let_def
      del: upt_rec_numeral)

lemma store_load:
  assumes "length block = 16"
  shows "store_state (xor4 (load_state block rk) (key4 rk 0)) = block"
proof -
  have "be32 (of_be32 a b c d) = [a, b, c, d]" for a b c d
    unfolding of_be32_pack be32_def
    by (auto intro!: bit_word_eqI simp: bit_pack bit_simps dest: bit_u8)
  then have "store_state (xor4 (load_state block rk) (key4 rk 0)) =
      [block ! 0, block ! 1, block ! 2, block ! 3, block ! 4, block ! 5, block ! 6, block ! 7,
       block ! 8, block ! 9, block ! 10, block ! 11, block ! 12, block ! 13, block ! 14, block ! 15]"
    by (simp add: load_state_def key4_def xor4_def store_state_def get_u32_def xor.assoc
        numeral_2_eq_2)
  then show ?thesis
    using assms by (auto simp: numeral_eq_Suc length_Suc_conv)
qed

lemma length_store_state [simp]: "length (store_state st) = 16"
  by (cases st rule: prod_cases4) (simp add: store_state_def)

lemma decrypt_encrypt_table:
  assumes "length block = 16"
  shows "decrypt_block_table (AesTable_new key) (encrypt_block_table (AesTable_new key) block) = block"
proof -
  let ?e = "expand_key (sbox gen_tables) key" and ?d = "inv_schedule gen_tables (expand_key (sbox gen_tables) key)"
  note key = inv_schedule_key4[OF length_expand_key, of _ "sbox gen_tables" key]
  have k0: "key4 ?d 0 = key4 ?e 40" and k10: "key4 ?d 40 = key4 ?e 0"
    using key[of 0] key[of 10] by simp_all
  have mid: "key4 ?d (4 * j) = map4 inv_mix (key4 ?e (4 * (10 - j)))" if "1 \<le> j" "j \<le> 9" for j
    using key[of j] that by simp
  have "load_state (encrypt_block_table (AesTable_new key) block) ?d =
      sr_sb (fold (\<lambda>i st. enc_round gen_tables ?e (4 * (i + 1)) st) [0..<9] (load_state block ?e))"
    by (simp add: encrypt_block_table_eq AesTable_new_def Let_def load_store k0 xor4_cancel
        del: upt_rec_numeral)
  then have "decrypt_block_table (AesTable_new key) (encrypt_block_table (AesTable_new key) block) =
      store_state (xor4 (load_state block ?e) (key4 ?e 0))"
    using rounds_invert[of ?d ?e 9 "load_state block ?e", OF mid]
    by (simp add: decrypt_block_table_eq AesTable_new_def Let_def k10 isr_isb_sr_sb
        del: upt_rec_numeral)
  then show ?thesis
    using store_load[OF assms] by simp
qed

lemma length_encrypt_block_table [simp]: "length (encrypt_block_table a block) = 16"
  by (simp add: encrypt_block_table_eq)

interpretation t_table: block_cipher "encrypt_block_table (AesTable_new key)"
  "decrypt_block_table (AesTable_new key)" for key
  by unfold_locales (simp_all add: decrypt_encrypt_table)


section \<open>Properties\<close>

text \<open>C14: For every 16-byte key and every 16-byte block, the table-driven block decryption (with
  its own decryption schedule and inverse tables) undoes the table-driven encryption.\<close>

theorem aes_table_decrypt_encrypt:
  assumes "length key = 16" "length block = 16"
  shows "decrypt_block_table (AesTable_new key) (encrypt_block_table (AesTable_new key) block) = block"
  using assms(2) by (rule t_table.D_E)

theorem aes_table_decrypt_encrypt_witness:
  "length (replicate 16 (1 :: u8)) = 16 \<and> length (replicate 16 (7 :: u8)) = 16 \<and>
   decrypt_block_table (AesTable_new (replicate 16 1))
     (encrypt_block_table (AesTable_new (replicate 16 1)) (replicate 16 7)) = replicate 16 7"
  using aes_table_decrypt_encrypt[of "replicate 16 1" "replicate 16 7"] by simp

text \<open>The generated S-box and inverse S-box are inverse permutations of the bytes:
  every byte is recovered from its substitute, so no two bytes share one.\<close>

lemma sbox_permutation:
  "inv_sbox gen_tables ! unat (sbox gen_tables ! unat x) = x \<and>
   bij (\<lambda>x :: u8. sbox gen_tables ! unat x)"
proof -
  have "inj (\<lambda>x :: u8. sbox gen_tables ! unat x)"
    by (rule inj_on_inverseI[where g = "\<lambda>s. inv_sbox gen_tables ! unat s"]) (rule inv_sbox_sbox)
  then have "bij (\<lambda>x :: u8. sbox gen_tables ! unat x)"
    by (simp add: bij_def finite_UNIV_inj_surj)
  then show ?thesis
    using inv_sbox_sbox by blast
qed

end
