(* ===== verification/Aes_Spec.thy ===== *)
theory Aes_Spec
  imports Aes_Table
begin

text \<open>
  AES-128 as FIPS-197 states it, byte by byte, and the proof that the table code of
  \<open>src/src/crypto/aes_table.rs\<close> computes it. The definitions of the first section are the
  standard's and do not use the code's tables, so they can serve as the documented behaviour
  of the \<open>aes\<close> crate, the other AES backend of the program.
\<close>


section \<open>The standard\<close>

text \<open>The S-box (Figure 7): row and column are the two hexadecimal digits of the byte.\<close>

definition SBOX :: "u8 list list" where
  "SBOX = [[0x63, 0x7c, 0x77, 0x7b, 0xf2, 0x6b, 0x6f, 0xc5, 0x30, 0x01, 0x67, 0x2b, 0xfe, 0xd7, 0xab, 0x76],
     [0xca, 0x82, 0xc9, 0x7d, 0xfa, 0x59, 0x47, 0xf0, 0xad, 0xd4, 0xa2, 0xaf, 0x9c, 0xa4, 0x72, 0xc0],
     [0xb7, 0xfd, 0x93, 0x26, 0x36, 0x3f, 0xf7, 0xcc, 0x34, 0xa5, 0xe5, 0xf1, 0x71, 0xd8, 0x31, 0x15],
     [0x04, 0xc7, 0x23, 0xc3, 0x18, 0x96, 0x05, 0x9a, 0x07, 0x12, 0x80, 0xe2, 0xeb, 0x27, 0xb2, 0x75],
     [0x09, 0x83, 0x2c, 0x1a, 0x1b, 0x6e, 0x5a, 0xa0, 0x52, 0x3b, 0xd6, 0xb3, 0x29, 0xe3, 0x2f, 0x84],
     [0x53, 0xd1, 0x00, 0xed, 0x20, 0xfc, 0xb1, 0x5b, 0x6a, 0xcb, 0xbe, 0x39, 0x4a, 0x4c, 0x58, 0xcf],
     [0xd0, 0xef, 0xaa, 0xfb, 0x43, 0x4d, 0x33, 0x85, 0x45, 0xf9, 0x02, 0x7f, 0x50, 0x3c, 0x9f, 0xa8],
     [0x51, 0xa3, 0x40, 0x8f, 0x92, 0x9d, 0x38, 0xf5, 0xbc, 0xb6, 0xda, 0x21, 0x10, 0xff, 0xf3, 0xd2],
     [0xcd, 0x0c, 0x13, 0xec, 0x5f, 0x97, 0x44, 0x17, 0xc4, 0xa7, 0x7e, 0x3d, 0x64, 0x5d, 0x19, 0x73],
     [0x60, 0x81, 0x4f, 0xdc, 0x22, 0x2a, 0x90, 0x88, 0x46, 0xee, 0xb8, 0x14, 0xde, 0x5e, 0x0b, 0xdb],
     [0xe0, 0x32, 0x3a, 0x0a, 0x49, 0x06, 0x24, 0x5c, 0xc2, 0xd3, 0xac, 0x62, 0x91, 0x95, 0xe4, 0x79],
     [0xe7, 0xc8, 0x37, 0x6d, 0x8d, 0xd5, 0x4e, 0xa9, 0x6c, 0x56, 0xf4, 0xea, 0x65, 0x7a, 0xae, 0x08],
     [0xba, 0x78, 0x25, 0x2e, 0x1c, 0xa6, 0xb4, 0xc6, 0xe8, 0xdd, 0x74, 0x1f, 0x4b, 0xbd, 0x8b, 0x8a],
     [0x70, 0x3e, 0xb5, 0x66, 0x48, 0x03, 0xf6, 0x0e, 0x61, 0x35, 0x57, 0xb9, 0x86, 0xc1, 0x1d, 0x9e],
     [0xe1, 0xf8, 0x98, 0x11, 0x69, 0xd9, 0x8e, 0x94, 0x9b, 0x1e, 0x87, 0xe9, 0xce, 0x55, 0x28, 0xdf],
     [0x8c, 0xa1, 0x89, 0x0d, 0xbf, 0xe6, 0x42, 0x68, 0x41, 0x99, 0x2d, 0x0f, 0xb0, 0x54, 0xbb, 0x16]]"

definition sub_byte :: "u8 \<Rightarrow> u8" where
  "sub_byte x = SBOX ! (unat x div 16) ! (unat x mod 16)"

text \<open>Multiplication by \<open>x\<close> modulo \<open>x^8 + x^4 + x^3 + x + 1\<close> (Section 4.2.1).\<close>

definition times2 :: "u8 \<Rightarrow> u8" where
  "times2 b = (if unat b < 128 then b + b else (b + b) XOR 0x1b)"

text \<open>The state is the block itself: byte \<open>r\<close> of column \<open>c\<close> is at position \<open>4 c + r\<close>.\<close>

definition SubBytes :: "bytes \<Rightarrow> bytes" where
  "SubBytes st = map sub_byte st"

definition ShiftRows :: "bytes \<Rightarrow> bytes" where
  "ShiftRows st = [st ! 0, st ! 5, st ! 10, st ! 15, st ! 4, st ! 9, st ! 14, st ! 3,
     st ! 8, st ! 13, st ! 2, st ! 7, st ! 12, st ! 1, st ! 6, st ! 11]"

definition mix_column :: "u8 \<Rightarrow> u8 \<Rightarrow> u8 \<Rightarrow> u8 \<Rightarrow> bytes" where
  "mix_column a b c d =
     [times2 a XOR (times2 b XOR b) XOR c XOR d, a XOR times2 b XOR (times2 c XOR c) XOR d,
      a XOR b XOR times2 c XOR (times2 d XOR d), (times2 a XOR a) XOR b XOR c XOR times2 d]"

definition MixColumns :: "bytes \<Rightarrow> bytes" where
  "MixColumns st = mix_column (st ! 0) (st ! 1) (st ! 2) (st ! 3) @ mix_column (st ! 4) (st ! 5) (st ! 6) (st ! 7) @
     mix_column (st ! 8) (st ! 9) (st ! 10) (st ! 11) @ mix_column (st ! 12) (st ! 13) (st ! 14) (st ! 15)"

definition AddRoundKey :: "bytes \<Rightarrow> bytes \<Rightarrow> bytes" where
  "AddRoundKey st w = map2 (XOR) st w"

text \<open>Key expansion (Figure 11). A word is a list of four bytes; \<open>next_word\<close> computes the word
  after those in the list.\<close>

definition Rcon :: "nat \<Rightarrow> bytes" where
  "Rcon i = [(times2 ^^ (i - 1)) 1, 0, 0, 0]"

definition next_word :: "bytes list \<Rightarrow> bytes" where
  "next_word ws = (let i = length ws; temp = ws ! (i - 1) in
     map2 (XOR) (ws ! (i - 4))
       (if i mod 4 = 0 then map2 (XOR) (map sub_byte (rotate1 temp)) (Rcon (i div 4)) else temp))"

definition KeyExpansion :: "bytes \<Rightarrow> bytes list" where
  "KeyExpansion key = ((\<lambda>ws. ws @ [next_word ws]) ^^ 40)
     [take 4 key, take 4 (drop 4 key), take 4 (drop 8 key), take 4 (drop 12 key)]"

definition round_key :: "bytes list \<Rightarrow> nat \<Rightarrow> bytes" where
  "round_key w r = w ! (4 * r) @ w ! (4 * r + 1) @ w ! (4 * r + 2) @ w ! (4 * r + 3)"

text \<open>The cipher (Figure 5) with \<open>Nr = 10\<close>.\<close>

definition Cipher :: "bytes \<Rightarrow> bytes \<Rightarrow> bytes" where
  "Cipher key block = (let w = KeyExpansion key in
     AddRoundKey (ShiftRows (SubBytes
       (fold (\<lambda>r st. AddRoundKey (MixColumns (ShiftRows (SubBytes st))) (round_key w r)) [1..<10]
         (AddRoundKey block (round_key w 0))))) (round_key w 10))"


section \<open>The generated S-box is the table of the standard\<close>

lemma orbit_ok_value: "orbit_ok x ys \<Longrightarrow> k < length ys \<Longrightarrow> (gen3 ^^ Suc k) x = ys ! k"
proof (induction ys arbitrary: x k)
  case (Cons y ys)
  then have y: "gen3 x = y" "orbit_ok y ys"
    by (auto simp: gen3_def)
  show ?case
  proof (cases k)
    case (Suc m)
    then have "(gen3 ^^ Suc k) x = (gen3 ^^ Suc m) y"
      using y(1) by (simp only: funpow_Suc_right comp_apply)
    then show ?thesis
      using Cons.IH[OF y(2), of m] Cons.prems Suc by simp
  qed (use y in simp)
qed simp

text \<open>The powers of the generator, and their inverses in the same order.\<close>

definition powers :: bytes where
  "powers = [1, 3, 5, 15, 17, 51, 85, 255, 26, 46, 114, 150, 161, 248, 19, 53, 95, 225,
     56, 72, 216, 115, 149, 164, 247, 2, 6, 10, 30, 34, 102, 170, 229, 52, 92, 228,
     55, 89, 235, 38, 106, 190, 217, 112, 144, 171, 230, 49, 83, 245, 4, 12, 20, 60,
     68, 204, 79, 209, 104, 184, 211, 110, 178, 205, 76, 212, 103, 169, 224, 59, 77, 215,
     98, 166, 241, 8, 24, 40, 120, 136, 131, 158, 185, 208, 107, 189, 220, 127, 129, 152,
     179, 206, 73, 219, 118, 154, 181, 196, 87, 249, 16, 48, 80, 240, 11, 29, 39, 105,
     187, 214, 97, 163, 254, 25, 43, 125, 135, 146, 173, 236, 47, 113, 147, 174, 233, 32,
     96, 160, 251, 22, 58, 78, 210, 109, 183, 194, 93, 231, 50, 86, 250, 21, 63, 65,
     195, 94, 226, 61, 71, 201, 64, 192, 91, 237, 44, 116, 156, 191, 218, 117, 159, 186,
     213, 100, 172, 239, 42, 126, 130, 157, 188, 223, 122, 142, 137, 128, 155, 182, 193, 88,
     232, 35, 101, 175, 234, 37, 111, 177, 200, 67, 197, 84, 252, 31, 33, 99, 165, 244,
     7, 9, 27, 45, 119, 153, 176, 203, 70, 202, 69, 207, 74, 222, 121, 139, 134, 145,
     168, 227, 62, 66, 198, 81, 243, 14, 18, 54, 90, 238, 41, 123, 141, 140, 143, 138,
     133, 148, 167, 242, 13, 23, 57, 75, 221, 124, 132, 151, 162, 253, 28, 36, 108, 180,
     199, 82, 246]"

definition inverses :: bytes where
  "inverses = [1, 246, 82, 199, 180, 108, 36, 28, 253, 162, 151, 132, 124, 221, 75, 57, 23, 13,
     242, 167, 148, 133, 138, 143, 140, 141, 123, 41, 238, 90, 54, 18, 14, 243, 81, 198,
     66, 62, 227, 168, 145, 134, 139, 121, 222, 74, 207, 69, 202, 70, 203, 176, 153, 119,
     45, 27, 9, 7, 244, 165, 99, 33, 31, 252, 84, 197, 67, 200, 177, 111, 37, 234,
     175, 101, 35, 232, 88, 193, 182, 155, 128, 137, 142, 122, 223, 188, 157, 130, 126, 42,
     239, 172, 100, 213, 186, 159, 117, 218, 191, 156, 116, 44, 237, 91, 192, 64, 201, 71,
     61, 226, 94, 195, 65, 63, 21, 250, 86, 50, 231, 93, 194, 183, 109, 210, 78, 58,
     22, 251, 160, 96, 32, 233, 174, 147, 113, 47, 236, 173, 146, 135, 125, 43, 25, 254,
     163, 97, 214, 187, 105, 39, 29, 11, 240, 80, 48, 16, 249, 87, 196, 181, 154, 118,
     219, 73, 206, 179, 152, 129, 127, 220, 189, 107, 208, 185, 158, 131, 136, 120, 40, 24,
     8, 241, 166, 98, 215, 77, 59, 224, 169, 103, 212, 76, 205, 178, 110, 211, 184, 104,
     209, 79, 204, 68, 60, 20, 12, 4, 245, 83, 49, 230, 171, 144, 112, 217, 190, 106,
     38, 235, 89, 55, 228, 92, 52, 229, 170, 102, 34, 30, 10, 6, 2, 247, 164, 149,
     115, 216, 72, 56, 225, 95, 53, 19, 248, 161, 150, 114, 46, 26, 255, 85, 51, 17,
     15, 5, 3]"

lemma powers_nth:
  assumes "k < 255"
  shows "powers ! k = gp k"
proof (cases k)
  case (Suc m)
  then show ?thesis
    using orbit_ok_value[OF orbit_of_1, of m] assms by (simp add: powers_def gp_def)
qed (simp add: powers_def gp_def)

lemma inverses_rev: "inverses = 1 # rev (tl powers)"
  by (simp add: inverses_def powers_def)

lemma inverses_nth:
  assumes "k < 255"
  shows "inverses ! k = gp ((255 - k) mod 255)"
proof (cases k)
  case (Suc m)
  have "length powers = 255"
    by (simp add: powers_def)
  moreover have "Suc (253 - m) = 254 - m"
    using Suc assms by simp
  ultimately have "inverses ! k = powers ! (255 - k)"
    using Suc assms by (simp add: inverses_rev rev_nth nth_tl)
  then show ?thesis
    using Suc assms powers_nth[of "255 - k"] by simp
qed (simp add: inverses_rev gp_def)

fun sbox_ok :: "bytes \<Rightarrow> bytes \<Rightarrow> bool" where
  "sbox_ok (x # xs) (y # ys) = (sub_byte x = affine y \<and> sbox_ok xs ys)"
| "sbox_ok xs ys = True"

lemma sbox_ok_nth: "sbox_ok xs ys \<Longrightarrow> k < length xs \<Longrightarrow> k < length ys \<Longrightarrow> sub_byte (xs ! k) = affine (ys ! k)"
  by (induction xs ys arbitrary: k rule: sbox_ok.induct) (auto simp: nth_Cons split: nat.split)

lemma sbox_ok_powers: "sbox_ok powers inverses"
  by (simp add: powers_def inverses_def sub_byte_def SBOX_def affine_rotations rotate_left8_def)

lemma sbox_standard: "sbox gen_tables ! unat x = sub_byte x"
proof (cases "x = 0")
  case True
  then show ?thesis
    using sboxes_spec(1)[of 0]
    by (simp add: gen_tables_sel finv_def sub_byte_def SBOX_def affine_rotations rotate_left8_def)
next
  case False
  then obtain k where k: "k < 255" "x = gp k"
    by (rule gp_onto)
  have "length powers = 255" "length inverses = 255"
    by (simp_all add: powers_def inverses_def)
  then have "sub_byte (powers ! k) = affine (inverses ! k)"
    using sbox_ok_nth[OF sbox_ok_powers] k(1) by simp
  then show ?thesis
    using k sboxes_spec(1)[OF unat_u8_less, of x] by (simp add: gen_tables_sel powers_nth inverses_nth finv_gp)
qed


section \<open>The table rounds are the rounds of the standard\<close>

lemma odd_half_byte: "n < 256 \<Longrightarrow> odd (n div 128) \<longleftrightarrow> \<not> n < (128 :: nat)"
  by (cases "n < 128") (auto simp: div_nat_eqI[of 128 1 n])

lemma xtime_standard: "xtime x = times2 x"
proof -
  have "bit x 7 \<longleftrightarrow> bit (unat x) 7"
    by (simp add: bit_unsigned_iff)
  then have "bit x 7 \<longleftrightarrow> \<not> unat x < 128"
    using odd_half_byte[OF unat_u8_less, of x] by (simp add: bit_iff_odd)
  then show ?thesis
    by (simp add: xtime_bit times2_def push_bit_eq_mult mult.commute)
qed

lemma be32_pack: "be32 (pack a b c d) = [a, b, c, d]"
  unfolding be32_def by (auto intro!: bit_word_eqI simp: bit_pack bit_simps dest: bit_u8)

lemma store_pack: "store_state (pack a0 a1 a2 a3, pack b0 b1 b2 b3, pack c0 c1 c2 c3, pack d0 d1 d2 d3) =
    [a0, a1, a2, a3, b0, b1, b2, b3, c0, c1, c2, c3, d0, d1, d2, d3]"
  by (simp add: store_state_def be32_pack)

lemma state_cases:
  obtains a0 a1 a2 a3 b0 b1 b2 b3 c0 c1 c2 c3 d0 d1 d2 d3 where
    "st = (pack a0 a1 a2 a3, pack b0 b1 b2 b3, pack c0 c1 c2 c3, pack d0 d1 d2 d3)"
  by (cases st rule: prod_cases4) (metis pack_cases)

lemma store_sr_sb: "store_state (sr_sb st) = ShiftRows (SubBytes (store_state st))"
  by (rule state_cases[of st])
     (simp add: sr_sb_def sub_word_pack ix_pack store_pack ShiftRows_def SubBytes_def sbox_standard)

lemma store_mix: "store_state (map4 mix st) = MixColumns (store_state st)"
  by (rule state_cases[of st])
     (simp add: map4_def mix_pack store_pack MixColumns_def mix_column_def xtime_standard xor_ac)

lemma store_xor: "store_state (xor4 st st') = AddRoundKey (store_state st) (store_state st')"
  by (rule state_cases[of st], rule state_cases[of st']) (simp add: xor4_def pack_xor store_pack AddRoundKey_def)

lemma store_load_state:
  assumes "length block = 16"
  shows "store_state (load_state block rk) = AddRoundKey block (store_state (key4 rk 0))"
proof -
  have "store_state (load_state block rk) =
      store_state (xor4 (xor4 (load_state block rk) (key4 rk 0)) (key4 rk 0))"
    by (simp add: xor4_cancel)
  then show ?thesis
    using store_load[OF assms] by (simp add: store_xor)
qed


section \<open>The key schedule\<close>

text \<open>The four words a step of the code's schedule writes.\<close>

definition step_words :: "u32 list \<Rightarrow> nat \<Rightarrow> u32 list" where
  "step_words ws i = (let tmp = ws ! (4 * i + 3);
       a = ws ! (4 * i) XOR sub_word (sbox gen_tables) (ix1 tmp) (ix2 tmp) (ix3 tmp) (ix0 tmp) XOR RCON ! i;
       b = ws ! (4 * i + 1) XOR a; c = ws ! (4 * i + 2) XOR b; d = ws ! (4 * i + 3) XOR c
     in [a, b, c, d])"

lemma expand_step_append:
  assumes "length ws = 4 * i + 4"
  shows "expand_step (sbox gen_tables) i (ws @ replicate (Suc (Suc (Suc (Suc n)))) 0) =
    (ws @ step_words ws i) @ replicate n 0"
  using assms by (simp add: expand_step_def step_words_def Let_def nth_append list_update_append)

lemma times2_powers:
  "(times2 ^^ 2) 1 = 4" "(times2 ^^ 3) 1 = 8" "(times2 ^^ 4) 1 = 0x10" "(times2 ^^ 5) 1 = 0x20"
  "(times2 ^^ 6) 1 = 0x40" "(times2 ^^ 7) 1 = 0x80" "(times2 ^^ 8) 1 = 0x1b" "(times2 ^^ 9) 1 = 0x36" "times2 1 = 2"
proof -
  have 1: "times2 1 = 2"
    by (simp add: times2_def)
  have "(times2 ^^ 2) 1 = times2 2"
    by (simp add: numeral_2_eq_2 1)
  then have 2: "(times2 ^^ 2) 1 = 4"
    by (simp add: times2_def)
  have n: "(3 :: nat) = Suc 2" "(4 :: nat) = Suc 3" "(5 :: nat) = Suc 4" "(6 :: nat) = Suc 5" "(7 :: nat) = Suc 6"
    "(8 :: nat) = Suc 7" "(9 :: nat) = Suc 8"
    by simp_all
  have 3: "(times2 ^^ 3) 1 = 8"
    by (simp only: n(1) funpow.simps comp_apply 2) (simp add: times2_def)
  have 4: "(times2 ^^ 4) 1 = 0x10"
    by (simp only: n(2) funpow.simps comp_apply 3) (simp add: times2_def)
  have 5: "(times2 ^^ 5) 1 = 0x20"
    by (simp only: n(3) funpow.simps comp_apply 4) (simp add: times2_def)
  have 6: "(times2 ^^ 6) 1 = 0x40"
    by (simp only: n(4) funpow.simps comp_apply 5) (simp add: times2_def)
  have 7: "(times2 ^^ 7) 1 = 0x80"
    by (simp only: n(5) funpow.simps comp_apply 6) (simp add: times2_def)
  have 8: "(times2 ^^ 8) 1 = 0x1b"
    by (simp only: n(6) funpow.simps comp_apply 7) (simp add: times2_def)
  have 9: "(times2 ^^ 9) 1 = 0x36"
    by (simp only: n(7) funpow.simps comp_apply 8) (simp add: times2_def)
  show "(times2 ^^ 2) 1 = 4" "(times2 ^^ 3) 1 = 8" "(times2 ^^ 4) 1 = 0x10" "(times2 ^^ 5) 1 = 0x20"
    "(times2 ^^ 6) 1 = 0x40" "(times2 ^^ 7) 1 = 0x80" "(times2 ^^ 8) 1 = 0x1b" "(times2 ^^ 9) 1 = 0x36" "times2 1 = 2"
    by (fact 1 2 3 4 5 6 7 8 9)+
qed

lemma Rcon_RCON:
  assumes "i < 10"
  shows "be32 (RCON ! i) = Rcon (i + 1)"
proof -
  have "list_all (\<lambda>i. be32 (RCON ! i) = Rcon (i + 1)) [0, 1, 2, 3, 4, 5, 6, 7, 8, 9]"
    by (simp add: RCON_def Rcon_def be32_def times2_powers)
  moreover have "i \<in> set [0, 1, 2, 3, 4, 5, 6, 7, 8, 9]"
    using assms by auto
  ultimately show ?thesis
    unfolding list_all_iff by blast
qed

lemma be32_xor: "map2 (XOR) (be32 v) (be32 w) = be32 (v XOR w)"
  by (rule pack_cases[of v], rule pack_cases[of w]) (simp add: be32_pack pack_xor)

lemma be32_sub_rot:
  "map sub_byte (rotate1 (be32 w)) = be32 (sub_word (sbox gen_tables) (ix1 w) (ix2 w) (ix3 w) (ix0 w))"
  by (rule pack_cases[of w]) (simp add: be32_pack ix_pack sub_word_pack sbox_standard)

lemma next_word_first:
  assumes "length ws = 4 * i + 4" "i < 10"
  shows "next_word (map be32 ws) = be32 (step_words ws i ! 0)"
proof -
  have n: "(4 * i + 4) mod 4 = 0" "(4 * i + 4) div 4 = i + 1" "4 * i + 4 - 1 = 4 * i + 3" "4 * i + 4 - 4 = 4 * i"
    by simp_all
  show ?thesis
    unfolding next_word_def Let_def length_map assms(1) n Rcon_RCON[OF assms(2), symmetric]
    using assms(1) by (simp add: step_words_def Let_def be32_sub_rot be32_xor xor.assoc)
qed

lemma next_word_rest:
  assumes "length ws = 4 * i + 4" "length vs = l" "1 \<le> l" "l < 4"
  shows "next_word (map be32 (ws @ vs)) = be32 (ws ! (4 * i + l) XOR vs ! (l - 1))"
proof -
  have "(4 * i + 4 + l) mod 4 = l mod 4"
    by (simp add: mod_add_eq[symmetric] mod_mult_self2)
  then have "(4 * i + 4 + l) mod 4 \<noteq> 0"
    using assms(3,4) by simp
  then show ?thesis
    using assms by (simp add: next_word_def Let_def nth_append be32_xor)
qed

lemma next_words:
  assumes "length ws = 4 * i + 4" "i < 10"
  shows "((\<lambda>ws. ws @ [next_word ws]) ^^ 4) (map be32 ws) = map be32 (ws @ step_words ws i)"
proof -
  define a b c d where "a = step_words ws i ! 0" and "b = ws ! (4 * i + 1) XOR a"
    and "c = ws ! (4 * i + 2) XOR b" and "d = ws ! (4 * i + 3) XOR c"
  have "step_words ws i = [a, b, c, d]"
    by (simp add: a_def b_def c_def d_def step_words_def Let_def)
  moreover have "next_word (map be32 ws) = be32 a"
    using next_word_first[OF assms] by (simp add: a_def)
  moreover have "next_word (map be32 (ws @ [a])) = be32 b" "next_word (map be32 (ws @ [a, b])) = be32 c"
    "next_word (map be32 (ws @ [a, b, c])) = be32 d"
    using next_word_rest[OF assms(1), of "[a]"] next_word_rest[OF assms(1), of "[a, b]"]
      next_word_rest[OF assms(1), of "[a, b, c]"] by (simp_all add: b_def c_def d_def numeral_2_eq_2 numeral_3_eq_3)
  ultimately show ?thesis
    by (simp add: numeral_eq_Suc)
qed

primrec key_words :: "u32 list \<Rightarrow> nat \<Rightarrow> u32 list" where
  "key_words w 0 = w"
| "key_words w (Suc n) = key_words w n @ step_words (key_words w n) n"

lemma length_key_words: "length w = 4 \<Longrightarrow> length (key_words w n) = 4 * n + 4"
  by (induction n) (simp_all add: step_words_def Let_def)

lemma code_schedule:
  assumes "length w = 4" "n \<le> 10"
  shows "fold (expand_step (sbox gen_tables)) [0..<n] (w @ replicate 40 0) = key_words w n @ replicate (40 - 4 * n) 0"
  using assms(2)
proof (induction n)
  case (Suc n)
  then have "40 - 4 * n = Suc (Suc (Suc (Suc (40 - 4 * Suc n))))"
    by simp
  then show ?case
    using Suc expand_step_append[OF length_key_words[OF assms(1)], of n "40 - 4 * Suc n"] by simp
qed simp

lemma spec_schedule:
  assumes "length w = 4" "n \<le> 10"
  shows "((\<lambda>ws. ws @ [next_word ws]) ^^ (4 * n)) (map be32 w) = map be32 (key_words w n)"
  using assms(2)
proof (induction n)
  case (Suc n)
  have "((\<lambda>ws. ws @ [next_word ws]) ^^ (4 * Suc n)) (map be32 w) =
      ((\<lambda>ws. ws @ [next_word ws]) ^^ 4) (((\<lambda>ws. ws @ [next_word ws]) ^^ (4 * n)) (map be32 w))"
    by (simp only: mult_Suc_right funpow_add comp_apply)
  then show ?case
    using Suc next_words[OF length_key_words[OF assms(1)], of n] by simp
qed simp

lemma be32_get_u32:
  assumes "n + 4 \<le> length b"
  shows "be32 (get_u32 b n) = take 4 (drop n b)"
proof (rule nth_equalityI)
  show "length (be32 (get_u32 b n)) = length (take 4 (drop n b))"
    using assms by simp
next
  fix i
  assume "i < length (be32 (get_u32 b n))"
  then consider "i = 0" | "i = 1" | "i = 2" | "i = 3"
    by force
  then show "be32 (get_u32 b n) ! i = take 4 (drop n b) ! i"
    using assms by cases (simp_all add: get_u32_def of_be32_pack be32_pack)
qed

lemma key_schedule_standard:
  assumes "length key = 16"
  shows "KeyExpansion key = map be32 (expand_key (sbox gen_tables) key)"
proof -
  let ?w = "map (\<lambda>i. get_u32 key (4 * i)) [0..<4]"
  have "?w = [get_u32 key 0, get_u32 key 4, get_u32 key 8, get_u32 key 12]"
    by (simp add: upt_rec)
  then have w: "[take 4 key, take 4 (drop 4 key), take 4 (drop 8 key), take 4 (drop 12 key)] = map be32 ?w"
    using assms by (simp add: be32_get_u32)
  have "length ?w = 4"
    by simp
  then show ?thesis
    unfolding KeyExpansion_def expand_key_def w
    using spec_schedule[of ?w 10] code_schedule[of ?w 10] by (simp del: upt_rec_numeral)
qed

lemma round_key_standard:
  assumes "length key = 16" "r \<le> 10"
  shows "round_key (KeyExpansion key) r = store_state (key4 (expand_key (sbox gen_tables) key) (4 * r))"
  using assms(2)
  by (simp add: round_key_def key_schedule_standard[OF assms(1)] length_expand_key key4_def store_state_def)


section \<open>The table cipher is AES-128\<close>

definition std_round :: "bytes list \<Rightarrow> nat \<Rightarrow> bytes \<Rightarrow> bytes" where
  "std_round w r st = AddRoundKey (MixColumns (ShiftRows (SubBytes st))) (round_key w r)"

lemma rounds_standard:
  assumes "length key = 16" "n \<le> 9"
  shows "store_state (fold (\<lambda>i st. enc_round gen_tables (expand_key (sbox gen_tables) key) (4 * (i + 1)) st) [0..<n] st) =
    fold (std_round (KeyExpansion key)) [1..<Suc n] (store_state st)"
  using assms(2)
proof (induction n)
  case (Suc n)
  have "[1..<Suc (Suc n)] = [1..<Suc n] @ [Suc n]"
    by simp
  then show ?case
    using Suc round_key_standard[OF assms(1), of "Suc n"]
    by (simp add: std_round_def enc_round_eq store_xor store_mix store_sr_sb)
qed simp

lemma table_is_standard:
  assumes "length key = 16" "length block = 16"
  shows "encrypt_block_table (AesTable_new key) block = Cipher key block"
proof -
  have n: "[1..<10] = [1..<Suc 9]"
    by simp
  show ?thesis
    unfolding Cipher_def Let_def n encrypt_block_table_eq store_xor store_sr_sb std_round_def[symmetric, abs_def]
    using rounds_standard[OF assms(1), of 9 "load_state block (expand_key (sbox gen_tables) key)"]
      round_key_standard[OF assms(1), of 0] round_key_standard[OF assms(1), of 10]
    by (simp add: AesTable_new_def Let_def store_load_state[OF assms(2)] del: upt_rec_numeral upt_Suc)
qed

text \<open>A decryption that inverts AES on every block is the table decryption: encryption is
  injective on the finitely many blocks, so every block is an encrypted one.\<close>

lemma table_surj:
  assumes "length c = 16"
  obtains b where "length b = 16" "encrypt_block_table (AesTable_new key) b = c"
proof -
  let ?B = "{b :: bytes. length b = 16}" and ?f = "encrypt_block_table (AesTable_new key)"
  have "finite {b. set b \<subseteq> (UNIV :: u8 set) \<and> length b = 16}"
    by (rule finite_lists_length_eq) simp
  then have "finite ?B"
    by simp
  moreover have "inj_on ?f ?B"
    by (rule inj_on_inverseI[of _ "decrypt_block_table (AesTable_new key)"]) (simp add: decrypt_encrypt_table)
  moreover have "?f ` ?B \<subseteq> ?B"
    by (rule image_subsetI) simp
  ultimately have "?f ` ?B = ?B"
    by (simp only: endo_inj_surj)
  moreover have "c \<in> ?B"
    using assms by simp
  ultimately have "c \<in> ?f ` ?B"
    by simp
  then show thesis
    using that by (elim imageE) simp
qed

lemma inverse_is_table_decryption:
  assumes "length key = 16" "\<And>b. length b = 16 \<Longrightarrow> dec (Cipher key b) = b" "length c = 16"
  shows "dec c = decrypt_block_table (AesTable_new key) c"
proof -
  obtain b where b: "length b = 16" "encrypt_block_table (AesTable_new key) b = c"
    by (rule table_surj[OF assms(3)])
  show ?thesis
    using assms(2)[OF b(1)] decrypt_encrypt_table[OF b(1), of key]
    unfolding b(2)[symmetric] table_is_standard[OF assms(1) b(1)] by simp
qed

end
