(* ===== verification/Auth_Kdf.thy ===== *)
theory Auth_Kdf
  imports Aes_Spec
begin

text \<open>
  Integrity tags (\<open>src/src/crypto/auth.rs\<close>) and key derivation
  (\<open>src/src/crypto/kdf.rs\<close>). The hash functions, CRC-32, the AES block operation and the
  AEAD of external crates are the fields of the record \<open>prims\<close>; HMAC, PBKDF2 and
  HKDF-Expand are the code's own and are translated. A streaming hasher is the list of
  bytes it has absorbed.
\<close>


section \<open>External primitives\<close>

record prims =
  p_md5 :: "bytes \<Rightarrow> bytes"
  p_sha1 :: "bytes \<Rightarrow> bytes"
  p_sha256 :: "bytes \<Rightarrow> bytes"
  p_crc32 :: "bytes \<Rightarrow> u32"
  p_aes_enc :: "bytes \<Rightarrow> bytes \<Rightarrow> bytes"
  p_aes_dec :: "bytes \<Rightarrow> bytes \<Rightarrow> bytes"
  p_aead_enc :: "bytes \<Rightarrow> bytes \<Rightarrow> bytes \<Rightarrow> bytes option"
  p_aead_dec :: "bytes \<Rightarrow> bytes \<Rightarrow> bytes \<Rightarrow> bytes option"

text \<open>Documented behaviour of the hash crates: fixed digest lengths.\<close>

definition hash_lengths :: "prims \<Rightarrow> bool" where
  "hash_lengths p \<longleftrightarrow> (\<forall>d. length (p_md5 p d) = 16 \<and> length (p_sha1 p d) = 20 \<and>
     length (p_sha256 p d) = 32)"

text \<open>Documented behaviour of the \<open>aes\<close> crate: it encrypts a block as FIPS-197 says, and
  decryption undoes encryption.\<close>

definition aes_crate_ok :: "prims \<Rightarrow> bool" where
  "aes_crate_ok p \<longleftrightarrow> (\<forall>k b. length k = 16 \<longrightarrow> length b = 16 \<longrightarrow>
     p_aes_enc p k b = Cipher k b \<and> p_aes_dec p k (Cipher k b) = b)"

text \<open>So the crate and the code's own tables compute the same permutation.\<close>

lemma aes_crate_table:
  assumes "aes_crate_ok p" "length k = 16" "length b = 16"
  shows "p_aes_enc p k b = encrypt_block_table (AesTable_new k) b"
    "p_aes_dec p k b = decrypt_block_table (AesTable_new k) b"
  using assms table_is_standard inverse_is_table_decryption[of k "p_aes_dec p k"]
  by (simp_all add: aes_crate_ok_def)

text \<open>Documented behaviour of XChaCha20-Poly1305: sealing succeeds on packet-sized input,
  appends a 16-byte tag, and opening with the same key and nonce returns the input.\<close>

definition aead_ok :: "prims \<Rightarrow> bool" where
  "aead_ok p \<longleftrightarrow> (\<forall>k n m. length k = 32 \<longrightarrow> length n = 24 \<longrightarrow> length m \<le> 65535 \<longrightarrow>
     (\<exists>c. p_aead_enc p k n m = Some c \<and> length c = length m + 16 \<and>
        p_aead_dec p k n c = Some m))"


section \<open>Authentication tags\<close>

datatype AuthMode = AuthNone | Md5 | Crc32 | Simple | AuthHmacSha1

definition AuthMode_parse :: "string \<Rightarrow> AuthMode option" where
  "AuthMode_parse s =
     (if s = ''none'' then Some AuthNone else if s = ''md5'' then Some Md5
      else if s = ''crc32'' then Some Crc32 else if s = ''simple'' then Some Simple
      else if s = ''hmac_sha1'' then Some AuthHmacSha1 else None)"

fun AuthMode_name :: "AuthMode \<Rightarrow> string" where
  "AuthMode_name AuthNone = ''none''"
| "AuthMode_name Md5 = ''md5''"
| "AuthMode_name Crc32 = ''crc32''"
| "AuthMode_name Simple = ''simple''"
| "AuthMode_name AuthHmacSha1 = ''hmac_sha1''"

fun tag_len :: "AuthMode \<Rightarrow> nat" where
  "tag_len AuthNone = 0"
| "tag_len Md5 = 16"
| "tag_len Crc32 = 4"
| "tag_len Simple = 8"
| "tag_len AuthHmacSha1 = 20"

definition simple_hash_step :: "u8 \<Rightarrow> u32 \<times> u32 \<Rightarrow> u32 \<times> u32" where
  "simple_hash_step b h = (case h of (hash, hash2) \<Rightarrow>
     let c = ucast b in
     ((push_bit 5 hash + hash) XOR c, c + push_bit 6 hash2 + push_bit 16 hash2 - hash2))"

definition simple_hash :: "bytes \<Rightarrow> bytes" where
  "simple_hash data = (case fold simple_hash_step data (5381, 0) of
     (hash, hash2) \<Rightarrow> be32 hash @ be32 hash2)"

definition ct_eq :: "bytes \<Rightarrow> bytes \<Rightarrow> bool" where
  "ct_eq a b = (if length a \<noteq> length b then False
     else fold (\<lambda>(x, y) acc. acc OR (x XOR y)) (zip a b) 0 = 0)"

record HmacState =
  inner :: bytes
  outer :: bytes

text \<open>The zero-padded 64-byte key block; \<open>h\<close> is the hash, used on keys over 64 bytes.\<close>

definition hmac_key_block :: "(bytes \<Rightarrow> bytes) \<Rightarrow> bytes \<Rightarrow> bytes" where
  "hmac_key_block h key =
     (let k = (if length key > 64 then h key else key) in k @ replicate (64 - length k) 0)"

definition hmac_new :: "(bytes \<Rightarrow> bytes) \<Rightarrow> bytes \<Rightarrow> HmacState" where
  "hmac_new h key = (let k = hmac_key_block h key in
     \<lparr> inner = xorb (replicate 64 0x36) k, outer = xorb (replicate 64 0x5c) k \<rparr>)"

definition hmac_mac :: "(bytes \<Rightarrow> bytes) \<Rightarrow> HmacState \<Rightarrow> bytes \<Rightarrow> bytes" where
  "hmac_mac h st data = h (outer st @ h (inner st @ data))"

definition mac_parts :: "(bytes \<Rightarrow> bytes) \<Rightarrow> HmacState \<Rightarrow> bytes list \<Rightarrow> bytes" where
  "mac_parts h st parts = h (outer st @ h (fold (\<lambda>p acc. acc @ p) parts (inner st)))"

record Authenticator =
  a_mode :: AuthMode
  a_hmac :: "HmacState option"

definition Authenticator_new :: "prims \<Rightarrow> AuthMode \<Rightarrow> bytes \<Rightarrow> Authenticator" where
  "Authenticator_new p mode hmac_key =
     \<lparr> a_mode = mode,
       a_hmac = (if mode = AuthHmacSha1 then Some (hmac_new (p_sha1 p) (take 20 hmac_key)) else None) \<rparr>"

text \<open>The tag of a buffer under the authenticator's mode.\<close>

definition auth_tag :: "prims \<Rightarrow> Authenticator \<Rightarrow> bytes \<Rightarrow> bytes" where
  "auth_tag p a buf = (case a_mode a of
       AuthNone \<Rightarrow> []
     | Md5 \<Rightarrow> p_md5 p buf
     | Crc32 \<Rightarrow> be32 (p_crc32 p buf)
     | Simple \<Rightarrow> simple_hash buf
     | AuthHmacSha1 \<Rightarrow> hmac_mac (p_sha1 p) (the (a_hmac a)) buf)"

definition append_tag :: "prims \<Rightarrow> Authenticator \<Rightarrow> bytes \<Rightarrow> bytes" where
  "append_tag p a buf = buf @ auth_tag p a buf"

definition verify_tag :: "prims \<Rightarrow> Authenticator \<Rightarrow> bytes \<Rightarrow> nat option" where
  "verify_tag p a data =
     (let tl = tag_len (a_mode a) in
      if length data < tl then None
      else let body = take (length data - tl) data; tag = drop (length data - tl) data;
               ok = (case a_mode a of
                       AuthNone \<Rightarrow> True
                     | _ \<Rightarrow> ct_eq (auth_tag p a body) tag)
           in if ok then Some (length body) else None)"


lemma fold_or_eq_0:
  "fold (\<lambda>(x, y) acc. acc OR (x XOR y)) zs (acc :: u8) = 0 \<longleftrightarrow>
   acc = 0 \<and> (\<forall>(x, y) \<in> set zs. x = y)"
proof (induction zs arbitrary: acc)
  case (Cons z zs)
  obtain x y where z: "z = (x, y)"
    by (rule prod.exhaust)
  have "x XOR y = 0 \<longleftrightarrow> x = y"
    by (metis xor_cancel_left xor.right_neutral xor_self_eq)
  then show ?case
    using Cons[of "acc OR (x XOR y)"] z by (auto simp: or_eq_0_iff)
qed simp

lemma ct_eq_iff: "ct_eq a b \<longleftrightarrow> a = b"
proof (cases "length a = length b")
  case True
  then show ?thesis
    by (auto simp: ct_eq_def fold_or_eq_0 list_eq_iff_zip_eq)
qed (auto simp: ct_eq_def)

lemma length_simple_hash [simp]: "length (simple_hash d) = 8"
  by (simp add: simple_hash_def split: prod.split)

lemma length_auth_tag:
  "hash_lengths p \<Longrightarrow> length (auth_tag p a buf) = tag_len (a_mode a)"
  by (simp add: auth_tag_def hash_lengths_def hmac_mac_def split: AuthMode.split)

lemma verify_append_tag:
  assumes "hash_lengths p"
  shows "verify_tag p a (append_tag p a buf) = Some (length buf)"
  using length_auth_tag[OF assms, of a buf]
  by (simp add: verify_tag_def append_tag_def Let_def ct_eq_iff split: AuthMode.split)

lemma verify_tag_Some:
  assumes "verify_tag p a data = Some n"
  shows "n \<le> length data" "data = append_tag p a (take n data)"
proof -
  have n: "tag_len (a_mode a) \<le> length data" "n = length data - tag_len (a_mode a)"
    "a_mode a = AuthNone \<or> drop n data = auth_tag p a (take n data)"
    using assms by (auto simp: verify_tag_def Let_def ct_eq_iff split: if_splits AuthMode.splits)
  then show "n \<le> length data" "data = append_tag p a (take n data)"
    by (auto simp: append_tag_def auth_tag_def) (metis append_take_drop_id)
qed

lemma fold_append_parts: "fold (\<lambda>p acc. acc @ p) parts acc = acc @ concat parts"
  by (induction parts arbitrary: acc) simp_all

lemma mac_parts_concat: "mac_parts h st parts = hmac_mac h st (concat parts)"
  by (simp add: mac_parts_def hmac_mac_def fold_append_parts)


section \<open>PBKDF2 and HKDF\<close>

text \<open>The \<open>for _ in 1..iterations\<close> loop of one output block.\<close>

fun pbkdf2_iter :: "prims \<Rightarrow> HmacState \<Rightarrow> nat \<Rightarrow> bytes \<Rightarrow> bytes \<Rightarrow> bytes" where
  "pbkdf2_iter p prf 0 u t = t"
| "pbkdf2_iter p prf (Suc n) u t =
     (let u' = hmac_mac (p_sha256 p) prf u in pbkdf2_iter p prf n u' (xorb t u'))"

definition pbkdf2_block :: "prims \<Rightarrow> HmacState \<Rightarrow> bytes \<Rightarrow> nat \<Rightarrow> u32 \<Rightarrow> bytes" where
  "pbkdf2_block p prf salt iterations block_index =
     (let u = mac_parts (p_sha256 p) prf [salt, be32 block_index]
      in pbkdf2_iter p prf (iterations - 1) u u)"

text \<open>A loop \<open>while written < out.len()\<close> that copies up to 32 bytes of the block \<open>f k\<close> per
  round; it returns the bytes it writes.\<close>

function fill_blocks :: "(nat \<Rightarrow> bytes) \<Rightarrow> nat \<Rightarrow> nat \<Rightarrow> nat \<Rightarrow> bytes" where
  "fill_blocks f out_len written k =
     (if written < out_len
      then let n = min (out_len - written) 32
           in take n (f k) @ fill_blocks f out_len (written + n) (k + 1)
      else [])"
  by pat_completeness auto
termination by (relation "measure (\<lambda>(f, out_len, written, k). out_len - written)") auto

declare fill_blocks.simps [simp del]

definition pbkdf2_hmac_sha256 :: "prims \<Rightarrow> bytes \<Rightarrow> bytes \<Rightarrow> nat \<Rightarrow> nat \<Rightarrow> bytes" where
  "pbkdf2_hmac_sha256 p password salt iterations out_len =
     (let prf = hmac_new (p_sha256 p) password
      in fill_blocks (\<lambda>k. pbkdf2_block p prf salt iterations (of_nat k)) out_len 0 1)"

text \<open>The HKDF loop also threads \<open>prev\<close> and a one-byte counter, which wraps after the 255th block
  (with overflow checks \<open>counter += 1\<close> panics there; the program asks for 8 blocks at most).\<close>

function hkdf_loop :: "prims \<Rightarrow> HmacState \<Rightarrow> bytes \<Rightarrow> nat \<Rightarrow> nat \<Rightarrow> bytes \<Rightarrow> u8 \<Rightarrow> bytes" where
  "hkdf_loop p prf info out_len written prev counter =
     (if written < out_len
      then let t = mac_parts (p_sha256 p) prf [prev, info, [counter]];
               n = min (out_len - written) 32
           in take n t @ hkdf_loop p prf info out_len (written + n) t (counter + 1)
      else [])"
  by pat_completeness auto
termination
  by (relation "measure (\<lambda>(p, prf, info, out_len, written, prev, counter). out_len - written)") auto

declare hkdf_loop.simps [simp del]

definition hkdf_sha256_expand :: "prims \<Rightarrow> bytes \<Rightarrow> bytes \<Rightarrow> nat \<Rightarrow> bytes eval" where
  "hkdf_sha256_expand p prk info out_len =
     (if length prk < 32 \<or> 255 * 32 < out_len then Panic
      else Ret (hkdf_loop p (hmac_new (p_sha256 p) prk) info out_len 0 [] 1))"


subsection \<open>Reference definitions of the RFCs\<close>

text \<open>RFC 5869, section 2.3: the blocks \<open>T(0), T(1), ...\<close> and the output keying material.\<close>

fun hkdf_T :: "prims \<Rightarrow> HmacState \<Rightarrow> bytes \<Rightarrow> nat \<Rightarrow> bytes" where
  "hkdf_T p prf info 0 = []"
| "hkdf_T p prf info (Suc n) =
     hmac_mac (p_sha256 p) prf (hkdf_T p prf info n @ info @ [of_nat (Suc n)])"

definition hkdf_okm :: "prims \<Rightarrow> bytes \<Rightarrow> bytes \<Rightarrow> nat \<Rightarrow> bytes" where
  "hkdf_okm p prk info L = take L (concat
     (map (hkdf_T p (hmac_new (p_sha256 p) prk) info) [1..<Suc ((L + 31) div 32)]))"

text \<open>RFC 8018, section 5.2: \<open>U_1, ..., U_c\<close>, \<open>F\<close> and the derived key.\<close>

fun pbkdf2_U :: "prims \<Rightarrow> HmacState \<Rightarrow> bytes \<Rightarrow> nat \<Rightarrow> nat \<Rightarrow> bytes" where
  "pbkdf2_U p prf salt i 0 = hmac_mac (p_sha256 p) prf (salt @ be32 (of_nat i))"
| "pbkdf2_U p prf salt i (Suc n) = hmac_mac (p_sha256 p) prf (pbkdf2_U p prf salt i n)"

definition pbkdf2_F :: "prims \<Rightarrow> HmacState \<Rightarrow> bytes \<Rightarrow> nat \<Rightarrow> nat \<Rightarrow> bytes" where
  "pbkdf2_F p prf salt c i =
     foldl (\<lambda>t j. xorb t (pbkdf2_U p prf salt i j)) (pbkdf2_U p prf salt i 0) [1..<c]"

definition pbkdf2_dk :: "prims \<Rightarrow> bytes \<Rightarrow> bytes \<Rightarrow> nat \<Rightarrow> nat \<Rightarrow> bytes" where
  "pbkdf2_dk p password salt c L = take L (concat
     (map (pbkdf2_F p (hmac_new (p_sha256 p) password) salt c) [1..<Suc ((L + 31) div 32)]))"

lemma fill_blocks_stop: "L \<le> w \<Longrightarrow> fill_blocks f L w k = []"
  by (subst fill_blocks.simps) simp

lemma fill_blocks_step:
  "w < L \<Longrightarrow> fill_blocks f L w k =
     take (min (L - w) 32) (f k) @ fill_blocks f L (w + min (L - w) 32) (k + 1)"
  by (subst fill_blocks.simps) (simp add: Let_def)

lemma fill_blocks_take:
  assumes "\<And>j. k \<le> j \<Longrightarrow> length (f j) = 32" "L - w \<le> 32 * m"
  shows "fill_blocks f L w k = take (L - w) (concat (map f [k..<k + m]))"
  using assms
proof (induction m arbitrary: w k)
  case 0
  then show ?case
    by (simp add: fill_blocks_stop)
next
  case (Suc m)
  show ?case
  proof (cases "w < L")
    case True
    have upt: "[k..<k + Suc m] = k # [k + 1..<k + 1 + m]"
      by (simp add: upt_conv_Cons)
    have "fill_blocks f L (w + min (L - w) 32) (k + 1) =
        take (L - (w + min (L - w) 32)) (concat (map f [k + 1..<k + 1 + m]))"
      using Suc.prems by (intro Suc.IH) auto
    moreover have "L - (w + min (L - w) 32) = (L - w) - 32" "length (f k) = 32"
      using Suc.prems(1) by auto
    ultimately show ?thesis
      unfolding upt by (simp add: fill_blocks_step[OF True]) (simp add: min_def)
  qed (simp add: fill_blocks_stop)
qed

lemma hkdf_loop_stop: "L \<le> w \<Longrightarrow> hkdf_loop p prf info L w prev c = []"
  by (subst hkdf_loop.simps) simp

lemma hkdf_loop_fill:
  "hkdf_loop p prf info L w (hkdf_T p prf info j) (of_nat (Suc j)) =
   fill_blocks (hkdf_T p prf info) L w (Suc j)"
proof (induction "L - w" arbitrary: w j rule: less_induct)
  case less
  show ?case
  proof (cases "w < L")
    case True
    have t: "mac_parts (p_sha256 p) prf [hkdf_T p prf info j, info, [of_nat (Suc j)]] =
        hkdf_T p prf info (Suc j)"
      by (simp add: mac_parts_concat)
    have "hkdf_loop p prf info L (w + min (L - w) 32) (hkdf_T p prf info (Suc j)) (of_nat (Suc (Suc j))) =
        fill_blocks (hkdf_T p prf info) L (w + min (L - w) 32) (Suc (Suc j))"
      using True by (intro less) auto
    moreover have "(of_nat (Suc (Suc j)) :: u8) = of_nat (Suc j) + 1"
      by simp
    ultimately show ?thesis
      using True unfolding fill_blocks_step[OF True]
      by (subst hkdf_loop.simps) (simp only: t Let_def if_True Suc_eq_plus1[symmetric] add.assoc)
  qed (simp add: hkdf_loop_stop fill_blocks_stop)
qed

lemma pbkdf2_iter_foldl:
  "pbkdf2_iter p prf n (pbkdf2_U p prf salt i j) t =
   foldl (\<lambda>t j. xorb t (pbkdf2_U p prf salt i j)) t [Suc j..<Suc j + n]"
proof (induction n arbitrary: j t)
  case (Suc n)
  have "[Suc j..<Suc j + Suc n] = Suc j # [Suc (Suc j)..<Suc (Suc j) + n]"
    by (simp add: upt_conv_Cons)
  then show ?case
    using Suc.IH[of "Suc j" "xorb t (pbkdf2_U p prf salt i (Suc j))"]
    by (simp add: Let_def del: upt_Suc)
qed simp

lemma pbkdf2_block_F:
  "pbkdf2_block p prf salt c (of_nat i) = pbkdf2_F p prf salt c i"
proof -
  have "[1..<c] = [Suc 0..<Suc 0 + (c - 1)]"
    by (cases c) simp_all
  then show ?thesis
    using pbkdf2_iter_foldl[of p "prf" "c - 1" salt i 0 "pbkdf2_U p prf salt i 0"]
    by (simp add: pbkdf2_block_def pbkdf2_F_def mac_parts_concat Let_def del: upt_Suc)
qed

lemma length_pbkdf2_F: "hash_lengths p \<Longrightarrow> length (pbkdf2_F p prf salt c i) = 32"
proof -
  assume h: "hash_lengths p"
  have u: "length (pbkdf2_U p prf salt i j) = 32" for j
    using h by (cases j) (simp_all add: hash_lengths_def hmac_mac_def)
  have "length (foldl (\<lambda>t j. xorb t (pbkdf2_U p prf salt i j)) t js) = 32" if "length t = 32" for t js
    using that by (induction js arbitrary: t) (simp_all add: u)
  then show ?thesis
    using u[of 0] by (simp add: pbkdf2_F_def del: pbkdf2_U.simps)
qed

lemma length_hkdf_T: "hash_lengths p \<Longrightarrow> 0 < n \<Longrightarrow> length (hkdf_T p prf info n) = 32"
  by (cases n) (simp_all add: hash_lengths_def hmac_mac_def)

lemma pbkdf2_eq_dk:
  "hash_lengths p \<Longrightarrow> pbkdf2_hmac_sha256 p password salt c L = pbkdf2_dk p password salt c L"
  using fill_blocks_take[of 1 "pbkdf2_F p (hmac_new (p_sha256 p) password) salt c" L 0 "(L + 31) div 32"]
  by (simp add: pbkdf2_hmac_sha256_def pbkdf2_dk_def pbkdf2_block_F length_pbkdf2_F Let_def)

lemma hkdf_eq_okm:
  assumes "hash_lengths p" "32 \<le> length prk" "L \<le> 255 * 32"
  shows "hkdf_sha256_expand p prk info L = Ret (hkdf_okm p prk info L)"
proof -
  let ?T = "hkdf_T p (hmac_new (p_sha256 p) prk) info"
  have "hkdf_loop p (hmac_new (p_sha256 p) prk) info L 0 [] 1 = fill_blocks ?T L 0 1"
    using hkdf_loop_fill[of p "hmac_new (p_sha256 p) prk" info L 0 0] by simp
  also have "\<dots> = take L (concat (map ?T [1..<1 + (L + 31) div 32]))"
    using fill_blocks_take[of 1 ?T L 0 "(L + 31) div 32"] length_hkdf_T[OF assms(1)] by simp
  finally show ?thesis
    using assms(2,3) by (simp add: hkdf_sha256_expand_def hkdf_okm_def)
qed

lemma length_okm:
  assumes "hash_lengths p"
  shows "length (hkdf_okm p prk info L) = L"
proof -
  let ?T = "hkdf_T p (hmac_new (p_sha256 p) prk) info"
  have "length (concat (map ?T [1..<Suc m])) = 32 * m" for m
    using length_hkdf_T[OF assms] by (induction m) (simp_all del: hkdf_T.simps)
  then show ?thesis
    by (simp add: hkdf_okm_def)
qed


section \<open>Properties\<close>

text \<open>C18: HKDF-Expand and PBKDF2 as coded (write loops with a running offset, a wrapping
  one-byte counter and in-place xor) compute the output of RFC 5869 and RFC 8018, for
  every output length the assertion of the code admits. (The counter wraps after the last
  block of the longest output, as in a release build.)\<close>

theorem kdf_matches_rfc:
  assumes "hash_lengths p" "32 \<le> length prk" "L \<le> 255 * 32"
  shows "hkdf_sha256_expand p prk info L = Ret (hkdf_okm p prk info L) \<and>
    pbkdf2_hmac_sha256 p password salt c L' = pbkdf2_dk p password salt c L'"
  using assms by (simp add: hkdf_eq_okm pbkdf2_eq_dk)

definition demo_prims :: prims where
  "demo_prims = \<lparr> p_md5 = \<lambda>d. replicate 16 (of_nat (length d)), p_sha1 = \<lambda>d. replicate 20 3,
     p_sha256 = \<lambda>d. replicate 32 (of_nat (length d)), p_crc32 = \<lambda>d. of_nat (length d),
     p_aes_enc = \<lambda>k. encrypt_block_table (AesTable_new k),
     p_aes_dec = \<lambda>k. decrypt_block_table (AesTable_new k),
     p_aead_enc = \<lambda>k n m. Some (m @ replicate 16 9),
     p_aead_dec = \<lambda>k n c. Some (take (length c - 16) c) \<rparr>"

lemma demo_prims_ok: "hash_lengths demo_prims" "aes_crate_ok demo_prims" "aead_ok demo_prims"
  by (simp_all add: hash_lengths_def aes_crate_ok_def aead_ok_def demo_prims_def table_is_standard
      decrypt_encrypt_table flip: table_is_standard)

theorem kdf_matches_rfc_witness:
  "hash_lengths demo_prims \<and> 32 \<le> length (replicate 32 (1 :: u8)) \<and> (64 :: nat) \<le> 255 * 32 \<and>
   hkdf_sha256_expand demo_prims (replicate 32 1) [5] 64 =
     Ret (hkdf_okm demo_prims (replicate 32 1) [5] 64)"
  using kdf_matches_rfc[OF demo_prims_ok(1), of "replicate 32 1" 64 "[5]"] demo_prims_ok(1) by simp

text \<open>C19: A tag verifies if and only if it is the tag of the bytes before it: appending a
  tag and verifying returns the original length, and whatever verifies was tagged by the
  same authenticator.\<close>

theorem tag_verifies_iff_appended:
  assumes "hash_lengths p"
  shows "verify_tag p a data = Some n \<longleftrightarrow> n \<le> length data \<and> data = append_tag p a (take n data)"
proof
  assume "n \<le> length data \<and> data = append_tag p a (take n data)"
  then show "verify_tag p a data = Some n"
    using verify_append_tag[OF assms, of a "take n data"] by simp
qed (use verify_tag_Some in blast)

theorem tag_verifies_iff_appended_witness:
  "hash_lengths demo_prims \<and>
   verify_tag demo_prims (Authenticator_new demo_prims Md5 []) ([1, 2] @ replicate 16 2) = Some 2"
  using tag_verifies_iff_appended[OF demo_prims_ok(1), of "Authenticator_new demo_prims Md5 []"
      "[1, 2] @ replicate 16 2" 2] demo_prims_ok(1)
  by (simp add: Authenticator_new_def append_tag_def auth_tag_def demo_prims_def)

end
