(* ===== verification/Crypto.thy ===== *)
theory Crypto
  imports Auth_Kdf
begin

text \<open>
  The packet encryption engine: cipher modes and AES backends of
  \<open>src/src/crypto/cipher.rs\<close>, the AEAD wrapper of \<open>src/src/crypto/aead.rs\<close>, key material
  and the \<open>Crypto\<close> engine of \<open>src/src/crypto/mod.rs\<close>. The engine is proved to deliver on
  one end exactly what was encrypted on the other end, in every mode.
\<close>


section \<open>Modes and backends\<close>

definition MAX_DATA_LEN :: nat where "MAX_DATA_LEN = 1800"

datatype AesBackend = Auto | Hardware | TableBackend | Fixslice

definition AesBackend_parse :: "string \<Rightarrow> AesBackend option" where
  "AesBackend_parse s =
     (if s = ''auto'' then Some Auto
      else if s = ''hw'' \<or> s = ''hardware'' then Some Hardware
      else if s = ''table'' then Some TableBackend
      else if s = ''fixslice'' \<or> s = ''soft'' then Some Fixslice else None)"

fun AesBackend_name :: "AesBackend \<Rightarrow> string" where
  "AesBackend_name Auto = ''auto''"
| "AesBackend_name Hardware = ''hardware''"
| "AesBackend_name TableBackend = ''table''"
| "AesBackend_name Fixslice = ''fixslice''"

text \<open>\<open>has_aes\<close> is the answer of the CPU feature test.\<close>

fun resolve_backend :: "bool \<Rightarrow> AesBackend \<Rightarrow> AesBackend" where
  "resolve_backend has_aes Auto = (if has_aes then Hardware else TableBackend)"
| "resolve_backend has_aes b = b"

datatype CipherMode = CipherNone | Xor | Aes128Cbc | Aes128Cfb | ChaCha20Poly1305

definition CipherMode_parse :: "string \<Rightarrow> (CipherMode \<times> bool) option" where
  "CipherMode_parse s =
     (if s = ''none'' then Some (CipherNone, False)
      else if s = ''xor'' then Some (Xor, False)
      else if s = ''aes128cbc'' then Some (Aes128Cbc, False)
      else if s = ''aes128cfb'' then Some (Aes128Cfb, False)
      else if s = ''aes128cfb_0'' then Some (Aes128Cfb, True)
      else if s = ''chacha20poly1305'' \<or> s = ''chacha'' then Some (ChaCha20Poly1305, False)
      else None)"

fun CipherMode_name :: "CipherMode \<Rightarrow> string" where
  "CipherMode_name CipherNone = ''none''"
| "CipherMode_name Xor = ''xor''"
| "CipherMode_name Aes128Cbc = ''aes128cbc''"
| "CipherMode_name Aes128Cfb = ''aes128cfb''"
| "CipherMode_name ChaCha20Poly1305 = ''chacha20poly1305''"

definition is_aes :: "CipherMode \<Rightarrow> bool" where
  "is_aes m \<longleftrightarrow> m = Aes128Cbc \<or> m = Aes128Cfb"

definition is_aead :: "CipherMode \<Rightarrow> bool" where
  "is_aead m \<longleftrightarrow> m = ChaCha20Poly1305"

text \<open>One AES-128 key schedule: the external crate's, or the code's own tables. The
  crate's schedule is its key.\<close>

datatype AesKey = Crate bytes | TableKey AesTable

definition AesKey_with_backend :: "bool \<Rightarrow> bytes \<Rightarrow> AesBackend \<Rightarrow> AesKey" where
  "AesKey_with_backend has_aes key16 backend =
     (case resolve_backend has_aes backend of
        TableBackend \<Rightarrow> TableKey (AesTable_new (take 16 key16))
      | _ \<Rightarrow> Crate (take 16 key16))"

fun encrypt_block :: "prims \<Rightarrow> AesKey \<Rightarrow> bytes \<Rightarrow> bytes" where
  "encrypt_block p (Crate k) b = p_aes_enc p k b"
| "encrypt_block p (TableKey t) b = encrypt_block_table t b"

fun decrypt_block :: "prims \<Rightarrow> AesKey \<Rightarrow> bytes \<Rightarrow> bytes" where
  "decrypt_block p (Crate k) b = p_aes_dec p k b"
| "decrypt_block p (TableKey t) b = decrypt_block_table t b"

fun cbc_decrypt_zero_iv :: "prims \<Rightarrow> AesKey \<Rightarrow> bytes \<Rightarrow> bytes" where
  "cbc_decrypt_zero_iv p (Crate k) data = cbc_decrypt_crate (p_aes_dec p k) data"
| "cbc_decrypt_zero_iv p (TableKey t) data = cbc_decrypt_table (decrypt_block_table t) data"


section \<open>AEAD\<close>

definition NONCE_LEN :: nat where "NONCE_LEN = 24"
definition TAG_LEN :: nat where "TAG_LEN = 16"
definition OVERHEAD :: nat where "OVERHEAD = NONCE_LEN + TAG_LEN"

record Aead =
  aead_enc :: bytes
  aead_dec :: bytes

definition Aead_new :: "bytes \<Rightarrow> bytes \<Rightarrow> Aead" where
  "Aead_new enc_key dec_key = \<lparr> aead_enc = take 32 enc_key, aead_dec = take 32 dec_key \<rparr>"

text \<open>\<open>encrypt_vec\<close> draws the nonce; \<open>encrypt_with_nonce\<close> is its body.\<close>

definition encrypt_with_nonce :: "prims \<Rightarrow> Aead \<Rightarrow> bytes \<Rightarrow> bytes \<Rightarrow> bytes option" where
  "encrypt_with_nonce p a buf nonce =
     (case p_aead_enc p (aead_enc a) nonce buf of None \<Rightarrow> None | Some c \<Rightarrow> Some (nonce @ c))"

definition Aead_decrypt_vec :: "prims \<Rightarrow> Aead \<Rightarrow> bytes \<Rightarrow> bytes option" where
  "Aead_decrypt_vec p a buf =
     (if length buf < OVERHEAD then None
      else p_aead_dec p (aead_dec a) (take NONCE_LEN buf) (drop NONCE_LEN buf))"


section \<open>Key material\<close>

record Keys =
  normal_key :: bytes
  cipher_key_encrypt :: bytes
  cipher_key_decrypt :: bytes
  hmac_key_encrypt :: bytes
  hmac_key_decrypt :: bytes
  gro_xor :: bytes

definition str_bytes :: "string \<Rightarrow> bytes" where
  "str_bytes s = map (\<lambda>c. of_nat (of_char c)) s"

text \<open>The expansions of the derived key have fixed lengths within the asserted bound, so
  they return; \<open>expand\<close> is that value.\<close>

definition expand :: "prims \<Rightarrow> bytes \<Rightarrow> string \<Rightarrow> nat \<Rightarrow> bytes eval" where
  "expand p prk info n = hkdf_sha256_expand p prk (str_bytes info) n"

definition Keys_derive :: "prims \<Rightarrow> bytes \<Rightarrow> bool \<Rightarrow> Keys eval" where
  "Keys_derive p password is_client =
     (let nk = p_md5 p (password @ str_bytes ''key1'');
          salt = p_md5 p (str_bytes ''udp2raw_salt1'');
          prk = pbkdf2_hmac_sha256 p password (take 16 salt) 10000 32;
          info_hmac_enc = (if is_client then ''hmac_key client-->server'' else ''hmac_key server-->client'');
          info_hmac_dec = (if is_client then ''hmac_key server-->client'' else ''hmac_key client-->server'');
          info_cipher_enc = (if is_client then ''cipher_key client-->server'' else ''cipher_key server-->client'');
          info_cipher_dec = (if is_client then ''cipher_key server-->client'' else ''cipher_key client-->server'')
      in rbind (expand p prk info_cipher_enc 64) (\<lambda>ce.
         rbind (expand p prk info_cipher_dec 64) (\<lambda>cd.
         rbind (expand p prk info_hmac_enc 64) (\<lambda>he.
         rbind (expand p prk info_hmac_dec 64) (\<lambda>hd.
         rbind (expand p prk ''gro'' 256) (\<lambda>g.
           Ret \<lparr> normal_key = nk, cipher_key_encrypt = ce, cipher_key_decrypt = cd,
                 hmac_key_encrypt = he, hmac_key_decrypt = hd, gro_xor = g \<rparr>))))))"


section \<open>The engine\<close>

record Crypto =
  cipher_mode :: CipherMode
  auth_mode :: AuthMode
  cfb_legacy :: bool
  keys :: Keys
  tx_xor_key :: bytes
  rx_xor_key :: bytes
  tx_aes :: "AesKey option"
  rx_aes :: "AesKey option"
  ecb_enc :: "AesKey option"
  ecb_dec :: "AesKey option"
  tx_auth :: Authenticator
  rx_auth :: Authenticator
  aead :: "Aead option"

definition Crypto_with_backend ::
  "prims \<Rightarrow> bool \<Rightarrow> CipherMode \<Rightarrow> AuthMode \<Rightarrow> bool \<Rightarrow> Keys \<Rightarrow> AesBackend \<Rightarrow> Crypto" where
  "Crypto_with_backend p has_aes cm am legacy ks backend =
     (let am' = (if is_aead cm then AuthNone else am);
          ad = (if is_aead cm then Some (Aead_new (cipher_key_encrypt ks) (cipher_key_decrypt ks)) else None);
          hmac = (am' = AuthHmacSha1);
          tx_key = (if hmac then take 16 (cipher_key_encrypt ks) else normal_key ks);
          rx_key = (if hmac then take 16 (cipher_key_decrypt ks) else normal_key ks);
          mk = (\<lambda>k. if is_aes cm then Some (AesKey_with_backend has_aes k backend) else None)
      in \<lparr> cipher_mode = cm, auth_mode = am', cfb_legacy = legacy, keys = ks,
           tx_xor_key = tx_key, rx_xor_key = rx_key, tx_aes = mk tx_key, rx_aes = mk rx_key,
           ecb_enc = mk (take 16 (cipher_key_encrypt ks)),
           ecb_dec = mk (take 16 (cipher_key_decrypt ks)),
           tx_auth = Authenticator_new p am' (hmac_key_encrypt ks),
           rx_auth = Authenticator_new p am' (hmac_key_decrypt ks),
           aead = ad \<rparr>)"

definition is_hmac_used :: "Crypto \<Rightarrow> bool" where
  "is_hmac_used c \<longleftrightarrow> auth_mode c = AuthHmacSha1"

text \<open>Replace the first 16 bytes of a buffer by the image under a block operation.\<close>

definition on_head16 :: "(bytes \<Rightarrow> bytes) \<Rightarrow> bytes \<Rightarrow> bytes" where
  "on_head16 f buf = f (take 16 buf) @ drop 16 buf"

definition cipher_encrypt :: "prims \<Rightarrow> Crypto \<Rightarrow> bytes \<Rightarrow> bytes option" where
  "cipher_encrypt p c buf = (case cipher_mode c of
       CipherNone \<Rightarrow> Some buf
     | ChaCha20Poly1305 \<Rightarrow> Some buf
     | Xor \<Rightarrow> Some (xor_in_place buf (tx_xor_key c))
     | Aes128Cbc \<Rightarrow> Some (cbc_encrypt_zero_iv (encrypt_block p (the (tx_aes c))) (pad16 buf))
     | Aes128Cfb \<Rightarrow>
         if length buf < 16 then None
         else let buf1 = (if \<not> cfb_legacy c then on_head16 (encrypt_block p (the (ecb_enc c))) buf
                          else buf)
              in Some (cfb_encrypt_zero_iv (encrypt_block p (the (tx_aes c))) buf1))"

definition cipher_decrypt :: "prims \<Rightarrow> Crypto \<Rightarrow> bytes \<Rightarrow> bytes option" where
  "cipher_decrypt p c buf = (case cipher_mode c of
       CipherNone \<Rightarrow> Some buf
     | ChaCha20Poly1305 \<Rightarrow> Some buf
     | Xor \<Rightarrow> Some (xor_in_place buf (rx_xor_key c))
     | Aes128Cbc \<Rightarrow>
         if length buf mod 16 \<noteq> 0 then None
         else unpad16 (cbc_decrypt_zero_iv p (the (rx_aes c)) buf)
     | Aes128Cfb \<Rightarrow>
         if length buf < 16 then None
         else let buf1 = cfb_decrypt_zero_iv (encrypt_block p (the (rx_aes c))) buf
              in Some (if \<not> cfb_legacy c then on_head16 (decrypt_block p (the (ecb_dec c))) buf1
                       else buf1))"

text \<open>\<open>encrypt_vec\<close>; \<open>nonce\<close> is the random nonce the AEAD branch draws.\<close>

definition encrypt_vec :: "prims \<Rightarrow> Crypto \<Rightarrow> bytes \<Rightarrow> bytes \<Rightarrow> bytes option" where
  "encrypt_vec p c nonce buf =
     (if length buf > MAX_DATA_LEN then None
      else case aead c of
        Some a \<Rightarrow> encrypt_with_nonce p a buf nonce
      | None \<Rightarrow>
          if is_hmac_used c
          then (case cipher_encrypt p c buf of
                  None \<Rightarrow> None | Some buf1 \<Rightarrow> Some (append_tag p (tx_auth c) buf1))
          else cipher_encrypt p c (append_tag p (tx_auth c) buf))"

definition decrypt_vec :: "prims \<Rightarrow> Crypto \<Rightarrow> bytes \<Rightarrow> bytes option" where
  "decrypt_vec p c buf =
     (if length buf > MAX_DATA_LEN then None
      else case aead c of
        Some a \<Rightarrow> Aead_decrypt_vec p a buf
      | None \<Rightarrow>
          if is_hmac_used c
          then (case verify_tag p (rx_auth c) buf of
                  None \<Rightarrow> None
                | Some body_len \<Rightarrow> cipher_decrypt p c (take body_len buf))
          else (case cipher_decrypt p c buf of
                  None \<Rightarrow> None
                | Some buf1 \<Rightarrow>
                    (case verify_tag p (rx_auth c) buf1 of
                       None \<Rightarrow> None | Some body_len \<Rightarrow> Some (take body_len buf1))))"

text \<open>The head obfuscation of \<open>--fix-gro\<close>. The AES modes need 16 bytes, the xor modes 2;
  shorter heads panic.\<close>

definition xor_head2 :: "bytes \<Rightarrow> bytes \<Rightarrow> bytes eval" where
  "xor_head2 g head =
     (if length head < 2 then Panic
      else Ret ((head ! 0 XOR g ! 0) # (head ! 1 XOR g ! 1) # drop 2 head))"

definition ecb_encrypt1 :: "prims \<Rightarrow> Crypto \<Rightarrow> bytes \<Rightarrow> bytes eval" where
  "ecb_encrypt1 p c block =
     (if length block < 16 \<or> ecb_enc c = None then Panic
      else Ret (on_head16 (encrypt_block p (the (ecb_enc c))) block))"

definition ecb_decrypt1 :: "prims \<Rightarrow> Crypto \<Rightarrow> bytes \<Rightarrow> bytes eval" where
  "ecb_decrypt1 p c block =
     (if length block < 16 \<or> ecb_dec c = None then Panic
      else Ret (on_head16 (decrypt_block p (the (ecb_dec c))) block))"

definition gro_obfuscate_head :: "prims \<Rightarrow> Crypto \<Rightarrow> bytes \<Rightarrow> bytes eval" where
  "gro_obfuscate_head p c head = (case cipher_mode c of
       Xor \<Rightarrow> xor_head2 (gro_xor (keys c)) head
     | ChaCha20Poly1305 \<Rightarrow> xor_head2 (gro_xor (keys c)) head
     | Aes128Cbc \<Rightarrow> ecb_encrypt1 p c head
     | Aes128Cfb \<Rightarrow> ecb_encrypt1 p c head
     | CipherNone \<Rightarrow> Ret head)"

definition gro_deobfuscate_head :: "prims \<Rightarrow> Crypto \<Rightarrow> bytes \<Rightarrow> bytes eval" where
  "gro_deobfuscate_head p c head = (case cipher_mode c of
       Xor \<Rightarrow> xor_head2 (gro_xor (keys c)) head
     | ChaCha20Poly1305 \<Rightarrow> xor_head2 (gro_xor (keys c)) head
     | Aes128Cbc \<Rightarrow> ecb_decrypt1 p c head
     | Aes128Cfb \<Rightarrow> ecb_decrypt1 p c head
     | CipherNone \<Rightarrow> Ret head)"


section \<open>Every backend computes the same block permutation\<close>

lemma encrypt_block_backend:
  assumes "aes_crate_ok p" "16 \<le> length key" "length b = 16"
  shows "encrypt_block p (AesKey_with_backend h key be) b =
      encrypt_block_table (AesTable_new (take 16 key)) b"
    and "decrypt_block p (AesKey_with_backend h key be) b =
      decrypt_block_table (AesTable_new (take 16 key)) b"
  using assms aes_crate_table[OF assms(1), of "take 16 key" b]
  by (auto simp: AesKey_with_backend_def split: AesBackend.split)

lemma backend_block_cipher:
  assumes "aes_crate_ok p" "16 \<le> length key"
  shows "block_cipher (encrypt_block p (AesKey_with_backend h key be))
    (decrypt_block p (AesKey_with_backend h' key be'))"
  using encrypt_block_backend[OF assms] decrypt_encrypt_table by unfold_locales simp_all

lemma cbc_decrypt_zero_iv_table:
  "cbc_decrypt_zero_iv p k data = cbc_decrypt_table (decrypt_block p k) data"
proof -
  have "decrypt_block p (Crate k') = p_aes_dec p k'" "decrypt_block p (TableKey t) = decrypt_block_table t"
    for k' t
    by (rule ext, simp)+
  then show ?thesis
    by (cases k) (simp_all add: cbc_backends_agree)
qed

lemma cfb_decrypt_loop_cong:
  assumes "\<And>b. length b = 16 \<Longrightarrow> E b = E' b \<and> length (E' b) = 16" "length iv = 16"
  shows "cfb_decrypt_loop E iv off data = cfb_decrypt_loop E' iv off data"
  using assms(2) by (induction data arbitrary: iv off) (simp_all add: Let_def assms(1))

lemma cfb_cross_roundtrip:
  assumes "\<And>b. length b = 16 \<Longrightarrow> E' b = E b \<and> length (E' b) = 16"
  shows "cfb_decrypt_zero_iv E' (cfb_encrypt_zero_iv E data) = data"
proof -
  have "cfb_decrypt_zero_iv E' d = cfb_decrypt_zero_iv E d" for d
    unfolding cfb_decrypt_zero_iv_def by (rule cfb_decrypt_loop_cong) (use assms in metis, simp)
  then show ?thesis
    by (simp add: cfb_roundtrip)
qed

lemma on_head16_roundtrip:
  assumes "16 \<le> length buf" "\<And>b. length b = 16 \<Longrightarrow> length (f b) = 16 \<and> g (f b) = b"
  shows "on_head16 g (on_head16 f buf) = buf" "length (on_head16 f buf) = length buf"
  using assms by (simp_all add: on_head16_def)


section \<open>Two ends of one configuration\<close>

text \<open>
  \<open>mirror a b\<close>: both engines run the same modes, and the material \<open>a\<close> sends with is the
  material \<open>b\<close> receives with. The AES backends of the two ends may differ.
\<close>

definition same_aes :: "prims \<Rightarrow> AesKey option \<Rightarrow> AesKey option \<Rightarrow> bool" where
  "same_aes p k k' \<longleftrightarrow> (\<exists>key h be h' be'. 16 \<le> length key \<and>
     k = Some (AesKey_with_backend h key be) \<and> k' = Some (AesKey_with_backend h' key be'))"

definition mirror :: "prims \<Rightarrow> Crypto \<Rightarrow> Crypto \<Rightarrow> bool" where
  "mirror p a b \<longleftrightarrow>
     cipher_mode b = cipher_mode a \<and> auth_mode b = auth_mode a \<and> cfb_legacy b = cfb_legacy a \<and>
     rx_xor_key b = tx_xor_key a \<and> rx_auth b = tx_auth a \<and>
     gro_xor (keys b) = gro_xor (keys a) \<and>
     (is_aes (cipher_mode a) \<longrightarrow>
        same_aes p (tx_aes a) (rx_aes b) \<and> same_aes p (ecb_enc a) (ecb_dec b)) \<and>
     (if is_aead (cipher_mode a)
      then \<exists>x y. aead a = Some x \<and> aead b = Some y \<and> aead_dec y = aead_enc x \<and> length (aead_enc x) = 32
      else aead a = None \<and> aead b = None)"

lemma same_aes_pair:
  assumes "aes_crate_ok p" "same_aes p k k'"
  shows "block_cipher (encrypt_block p (the k)) (decrypt_block p (the k'))"
    and "length x = 16 \<Longrightarrow> encrypt_block p (the k') x = encrypt_block p (the k) x \<and>
      length (encrypt_block p (the k') x) = 16"
  using assms(2) backend_block_cipher[OF assms(1)] encrypt_block_backend[OF assms(1)]
  by (auto simp: same_aes_def)

lemma cipher_roundtrip:
  assumes "aes_crate_ok p" "mirror p a b" "cipher_encrypt p a buf = Some w"
  shows "cipher_decrypt p b w = Some buf"
proof (cases "cipher_mode a")
  case Aes128Cbc
  then have sa: "same_aes p (tx_aes a) (rx_aes b)"
    using assms(2) by (simp add: mirror_def is_aes_def)
  note bc = same_aes_pair(1)[OF assms(1) sa]
  have w: "w = cbc_encrypt_zero_iv (encrypt_block p (the (tx_aes a))) (pad16 buf)"
    using assms(3) Aes128Cbc by (simp add: cipher_encrypt_def)
  have "length (pad16 buf) mod 16 = 0"
    by (simp add: length_pad16 padded_len_bounds)
  then show ?thesis
    using block_cipher.cbc_roundtrip(1)[OF bc] block_cipher.cbc_length[OF bc] assms(2) Aes128Cbc
    by (simp add: cipher_decrypt_def w mirror_def cbc_decrypt_zero_iv_table unpad16_pad16)
next
  case Aes128Cfb
  then have sa: "same_aes p (tx_aes a) (rx_aes b)" and se: "same_aes p (ecb_enc a) (ecb_dec b)"
    and m: "cipher_mode b = Aes128Cfb" "cfb_legacy b = cfb_legacy a"
    using assms(2) by (simp_all add: mirror_def is_aes_def)
  note cfb = cfb_cross_roundtrip[OF same_aes_pair(2)[OF assms(1) sa]]
  note bc = same_aes_pair(1)[OF assms(1) se]
  note head = on_head16_roundtrip[of buf "encrypt_block p (the (ecb_enc a))"
      "decrypt_block p (the (ecb_dec b))"]
  have len: "16 \<le> length buf"
    using assms(3) Aes128Cfb by (simp add: cipher_encrypt_def split: if_splits)
  show ?thesis
    using assms(3) Aes128Cfb len m head[OF len] cfb block_cipher.E_length[OF bc] block_cipher.D_E[OF bc]
    by (auto simp: cipher_encrypt_def cipher_decrypt_def Let_def split: if_splits)
qed (use assms in \<open>auto simp: mirror_def cipher_encrypt_def cipher_decrypt_def xor_in_place_involutive\<close>)

lemma encrypt_decrypt:
  assumes "hash_lengths p" "aes_crate_ok p" "aead_ok p" "mirror p a b"
    and "length nonce = 24" "encrypt_vec p a nonce buf = Some w" "length w \<le> MAX_DATA_LEN"
  shows "decrypt_vec p b w = Some buf"
proof (cases "is_aead (cipher_mode a)")
  case True
  then obtain x y where xy: "aead a = Some x" "aead b = Some y" "aead_dec y = aead_enc x"
      "length (aead_enc x) = 32"
    using assms(4) by (auto simp: mirror_def)
  have "length buf \<le> 65535"
    using assms(6) by (simp add: encrypt_vec_def MAX_DATA_LEN_def split: if_splits)
  then obtain c where c: "p_aead_enc p (aead_enc x) nonce buf = Some c" "length c = length buf + 16"
      "p_aead_dec p (aead_enc x) nonce c = Some buf"
    using assms(3,5) xy(4) unfolding aead_ok_def by blast
  then have "w = nonce @ c"
    using assms(6) xy by (simp add: encrypt_vec_def encrypt_with_nonce_def split: if_splits)
  then show ?thesis
    using assms(5,7) xy c
    by (simp add: decrypt_vec_def Aead_decrypt_vec_def OVERHEAD_def NONCE_LEN_def TAG_LEN_def)
next
  case False
  then have m: "aead a = None" "aead b = None" "auth_mode b = auth_mode a" "rx_auth b = tx_auth a"
    using assms(4) by (auto simp: mirror_def)
  note tag = verify_append_tag[OF assms(1), of "tx_auth a"]
  show ?thesis
  proof (cases "is_hmac_used a")
    case True
    then obtain ct where ct: "cipher_encrypt p a buf = Some ct" "w = append_tag p (tx_auth a) ct"
      using assms(6) m by (auto simp: encrypt_vec_def split: if_splits option.splits)
    moreover have "take (length ct) w = ct"
      using ct by (simp add: append_tag_def)
    ultimately show ?thesis
      using True m tag[of ct] assms(7) cipher_roundtrip[OF assms(2,4) ct(1)]
      by (simp add: decrypt_vec_def is_hmac_used_def)
  next
    case no_hmac: False
    then have "cipher_encrypt p a (append_tag p (tx_auth a) buf) = Some w"
      using assms(6) m by (simp add: encrypt_vec_def split: if_splits)
    from cipher_roundtrip[OF assms(2,4) this] show ?thesis
      using no_hmac m tag[of buf] assms(7)
      by (simp add: decrypt_vec_def is_hmac_used_def append_tag_def)
  qed
qed

lemma Keys_derive_Ret:
  assumes "hash_lengths p"
  shows "\<exists>ks. Keys_derive p pw r = Ret ks \<and> length (normal_key ks) = 16 \<and>
    length (cipher_key_encrypt ks) = 64 \<and> length (cipher_key_decrypt ks) = 64 \<and>
    length (hmac_key_encrypt ks) = 64 \<and> length (hmac_key_decrypt ks) = 64 \<and> length (gro_xor ks) = 256"
proof -
  define prk where "prk = pbkdf2_hmac_sha256 p pw (take 16 (p_md5 p (str_bytes ''udp2raw_salt1''))) 10000 32"
  have "length prk = 32"
    unfolding prk_def pbkdf2_eq_dk[OF assms] pbkdf2_dk_def
    using length_pbkdf2_F[OF assms] by simp
  then have "expand p prk i n = Ret (hkdf_okm p prk (str_bytes i) n)" if "n \<le> 256" for i n
    using that hkdf_eq_okm[OF assms, of prk n] by (simp add: expand_def)
  then show ?thesis
    using assms length_okm[OF assms] unfolding Keys_derive_def prk_def[symmetric] Let_def
    by (simp add: hash_lengths_def)
qed

lemma Keys_derive_mirrored:
  assumes "Keys_derive p pw r = Ret ks" "Keys_derive p pw (\<not> r) = Ret ks'"
  shows "normal_key ks' = normal_key ks \<and> cipher_key_decrypt ks' = cipher_key_encrypt ks \<and>
    cipher_key_encrypt ks' = cipher_key_decrypt ks \<and> hmac_key_decrypt ks' = hmac_key_encrypt ks \<and>
    hmac_key_encrypt ks' = hmac_key_decrypt ks \<and> gro_xor ks' = gro_xor ks"
  using assms by (cases r) (auto simp: Keys_derive_def Let_def rbind_eq_Ret)

lemma engines_mirror:
  assumes "hash_lengths p" "Keys_derive p pw r = Ret ks" "Keys_derive p pw (\<not> r) = Ret ks'"
  shows "mirror p (Crypto_with_backend p h cm am legacy ks be)
    (Crypto_with_backend p h' cm am legacy ks' be')"
proof -
  have len: "length (normal_key ks) = 16" "length (cipher_key_encrypt ks) = 64"
    using Keys_derive_Ret[OF assms(1), of pw r] assms(2) by auto
  have same: "16 \<le> length key \<Longrightarrow>
      same_aes p (Some (AesKey_with_backend h key be)) (Some (AesKey_with_backend h' key be'))" for key
    unfolding same_aes_def by blast
  show ?thesis
    using Keys_derive_mirrored[OF assms(2,3)] len same
    by (auto simp: mirror_def Crypto_with_backend_def Let_def Aead_new_def is_aead_def is_aes_def)
qed

lemma cipher_encrypt_Some:
  assumes "aes_crate_ok p" "cipher_mode c = Aes128Cfb \<longrightarrow> 16 \<le> length buf" "is_aes (cipher_mode c) \<longrightarrow>
      same_aes p (tx_aes c) (tx_aes c) \<and> same_aes p (ecb_enc c) (ecb_enc c)"
  obtains w where "cipher_encrypt p c buf = Some w" "length w \<le> length buf + 16" "length buf \<le> length w"
    "cipher_mode c \<noteq> Aes128Cbc \<Longrightarrow> length w = length buf"
proof (cases "cipher_mode c")
  case Aes128Cbc
  then have "block_cipher (encrypt_block p (the (tx_aes c))) (decrypt_block p (the (tx_aes c)))"
    using assms(1,3) same_aes_pair(1) by (simp add: is_aes_def)
  from block_cipher.cbc_length[OF this] show thesis
    using Aes128Cbc padded_len_bounds[of "length buf"]
    by (intro that[of "cbc_encrypt_zero_iv (encrypt_block p (the (tx_aes c))) (pad16 buf)"])
       (simp_all add: cipher_encrypt_def length_pad16)
next
  case Aes128Cfb
  then have "block_cipher (encrypt_block p (the (ecb_enc c))) (decrypt_block p (the (ecb_enc c)))"
    using assms(1,3) same_aes_pair(1) by (simp add: is_aes_def)
  note bc = this and len = assms(2)[THEN mp, OF Aes128Cfb]
  note head = on_head16_roundtrip(2)[OF len, of "encrypt_block p (the (ecb_enc c))",
      OF conjI[OF block_cipher.E_length[OF bc] block_cipher.D_E[OF bc]]]
  obtain w where w: "cipher_encrypt p c buf = Some w"
    using Aes128Cfb len by (simp add: cipher_encrypt_def Let_def)
  then have "length w = length buf"
    using Aes128Cfb len head by (auto simp: cipher_encrypt_def Let_def split: if_splits)
  then show thesis
    using that[OF w] by simp
next
  case Xor
  then show thesis
    by (intro that[of "xor_in_place buf (tx_xor_key c)"]) (simp_all add: cipher_encrypt_def)
next
  case CipherNone
  then show thesis
    by (intro that[of buf]) (simp_all add: cipher_encrypt_def)
next
  case ChaCha20Poly1305
  then show thesis
    by (intro that[of buf]) (simp_all add: cipher_encrypt_def)
qed

lemma engine_aes:
  fixes h cm am legacy be c
  assumes "hash_lengths p" "Keys_derive p pw r = Ret ks"
    and c_def: "c = Crypto_with_backend p h cm am legacy ks be"
  shows "is_aes (cipher_mode c) \<longrightarrow>
      same_aes p (tx_aes c) (tx_aes c) \<and> same_aes p (ecb_enc c) (ecb_enc c)"
proof -
  have len: "length (normal_key ks) = 16" "length (cipher_key_encrypt ks) = 64"
    using Keys_derive_Ret[OF assms(1), of pw r] assms(2) by auto
  have "16 \<le> length key \<Longrightarrow>
      same_aes p (Some (AesKey_with_backend h key be)) (Some (AesKey_with_backend h key be))" for key
    unfolding same_aes_def by blast
  with len show ?thesis
    by (simp add: c_def Crypto_with_backend_def Let_def)
qed

lemma length_append_tag:
  assumes "hash_lengths p"
  shows "length (append_tag p a d) = length d + tag_len (a_mode a)"
  by (simp add: append_tag_def length_auth_tag[OF assms])

lemma tag_len_bounds: "tag_len m \<le> 20" "m \<noteq> AuthHmacSha1 \<Longrightarrow> tag_len m \<le> 16"
  by (cases m; simp)+

lemma engine_tx_auth:
  "a_mode (tx_auth (Crypto_with_backend p h cm am legacy ks be)) =
   auth_mode (Crypto_with_backend p h cm am legacy ks be)"
  by (simp add: Crypto_with_backend_def Authenticator_new_def Let_def)

lemma encrypt_vec_Some:
  assumes "hash_lengths p" "aes_crate_ok p" "aead_ok p" "Keys_derive p pw r = Ret ks"
    and "length nonce = 24" "cm = Aes128Cfb \<longrightarrow> 16 \<le> length buf" "length buf \<le> 1800"
  shows "\<exists>w. encrypt_vec p (Crypto_with_backend p h cm am legacy ks be) nonce buf = Some w \<and>
    length w \<le> length buf + 40 \<and> length buf \<le> length w"
proof -
  let ?c = "Crypto_with_backend p h cm am legacy ks be"
  note ae = engine_aes[OF assms(1,4) refl, of h cm am legacy be]
  have mode: "cipher_mode ?c = cm"
    by (simp add: Crypto_with_backend_def Let_def)
  have tag_ge: "length d \<le> length (append_tag p (tx_auth ?c) d)" for d
    by (simp add: append_tag_def)
  have tag: "length (append_tag p (tx_auth ?c) d) \<le> length d + 20"
      "\<not> is_hmac_used ?c \<Longrightarrow> length (append_tag p (tx_auth ?c) d) \<le> length d + 16" for d
    using tag_len_bounds[of "auth_mode ?c"]
    by (simp_all add: length_append_tag[OF assms(1)] engine_tx_auth is_hmac_used_def)
  show ?thesis
  proof (cases "is_aead cm")
    case True
    have "length (take 32 (cipher_key_encrypt ks)) = 32"
      using Keys_derive_Ret[OF assms(1), of pw r] assms(4) by auto
    moreover have "length buf \<le> 65535"
      using assms(7) by simp
    ultimately obtain ct where "p_aead_enc p (take 32 (cipher_key_encrypt ks)) nonce buf = Some ct"
        "length ct = length buf + 16"
      using assms(3,5) unfolding aead_ok_def by blast
    then show ?thesis
      using True assms(5,7)
      by (simp add: encrypt_vec_def Crypto_with_backend_def Let_def encrypt_with_nonce_def
          Aead_new_def MAX_DATA_LEN_def)
  next
    case False
    then have na: "aead ?c = None" "\<not> length buf > MAX_DATA_LEN"
      using assms(7) by (simp_all add: Crypto_with_backend_def Let_def MAX_DATA_LEN_def)
    show ?thesis
    proof (cases "is_hmac_used ?c")
      case True
      obtain ct where "cipher_encrypt p ?c buf = Some ct" "length ct \<le> length buf + 16" "length buf \<le> length ct"
        by (rule cipher_encrypt_Some[OF assms(2) _ ae, of buf]) (use assms(6) mode in auto)
      then show ?thesis
        using True na tag(1)[of ct] tag_ge[of ct] by (simp add: encrypt_vec_def)
    next
      case no_hmac: False
      have "cipher_mode ?c = Aes128Cfb \<longrightarrow> 16 \<le> length (append_tag p (tx_auth ?c) buf)"
        using assms(6) mode by (auto simp: append_tag_def)
      then obtain ct where "cipher_encrypt p ?c (append_tag p (tx_auth ?c) buf) = Some ct"
          "length ct \<le> length (append_tag p (tx_auth ?c) buf) + 16" "length (append_tag p (tx_auth ?c) buf) \<le> length ct"
        by (rule cipher_encrypt_Some[OF assms(2) _ ae])
      then show ?thesis
        using no_hmac na tag(2)[OF no_hmac, of buf] tag_ge[of buf] by (simp add: encrypt_vec_def)
    qed
  qed
qed

text \<open>The overhead of encryption, also where only the tag makes the input long enough for
  \<open>aes128cfb\<close>.\<close>

lemma cipher_encrypt_length:
  assumes "aes_crate_ok p" "is_aes (cipher_mode c) \<longrightarrow>
      same_aes p (tx_aes c) (tx_aes c) \<and> same_aes p (ecb_enc c) (ecb_enc c)" "cipher_encrypt p c buf = Some w"
  shows "length w \<le> length buf + 16"
proof -
  have "cipher_mode c = Aes128Cfb \<longrightarrow> 16 \<le> length buf"
    using assms(3) by (auto simp: cipher_encrypt_def split: if_splits)
  from cipher_encrypt_Some[OF assms(1) this assms(2)] assms(3) show ?thesis
    by (metis option.inject)
qed

lemma encrypt_vec_length:
  assumes "hash_lengths p" "aes_crate_ok p" "aead_ok p" "Keys_derive p pw r = Ret ks" "length nonce = 24"
    and "encrypt_vec p (Crypto_with_backend p h cm am legacy ks be) nonce buf = Some w"
  shows "length w \<le> length buf + 40"
proof (cases "cm = Aes128Cfb \<and> length buf < 16")
  case False
  moreover have "length buf \<le> 1800"
    using assms(6) by (simp add: encrypt_vec_def MAX_DATA_LEN_def split: if_splits)
  ultimately show ?thesis
    using encrypt_vec_Some[OF assms(1-5), of cm buf h am legacy be] assms(6) by auto
next
  case True
  let ?c = "Crypto_with_backend p h cm am legacy ks be"
  note len = cipher_encrypt_length[OF assms(2) engine_aes[OF assms(1,4) refl, of h cm am legacy be]]
  have "aead ?c = None" "tag_len (a_mode (tx_auth ?c)) \<le> 20"
    using True tag_len_bounds by (simp_all add: Crypto_with_backend_def Let_def is_aead_def)
  then show ?thesis
    using assms(6) len length_append_tag[OF assms(1), of "tx_auth ?c"]
    by (fastforce simp: encrypt_vec_def split: if_splits option.splits)
qed


section \<open>Properties\<close>





text \<open>In \<open>hmac_sha1\<close> mode the tag is checked before anything is decrypted: whatever is
  accepted is a ciphertext followed by its own HMAC under the receive key.\<close>

lemma hmac_checked_before_decryption:
  assumes "is_hmac_used c" "aead c = None" "decrypt_vec p c w = Some plain"
  shows "\<exists>ct. w = append_tag p (rx_auth c) ct \<and> cipher_decrypt p c ct = Some plain"
proof -
  obtain n where n: "verify_tag p (rx_auth c) w = Some n" "cipher_decrypt p c (take n w) = Some plain"
    using assms by (auto simp: decrypt_vec_def split: if_splits option.splits)
  then show ?thesis
    using verify_tag_Some(2)[OF n(1)] by blast
qed

definition demo_hmac :: Crypto where
  "demo_hmac = Crypto_with_backend demo_prims True CipherNone AuthHmacSha1 False
     \<lparr> normal_key = replicate 16 1, cipher_key_encrypt = replicate 64 2,
       cipher_key_decrypt = replicate 64 3, hmac_key_encrypt = replicate 64 4,
       hmac_key_decrypt = replicate 64 5, gro_xor = replicate 256 6 \<rparr> Auto"

text \<open>C21: Every AES backend is AES-128. Whatever the backend and the CPU features, the code's
  tables or the \<open>aes\<close> crate, a block encrypts to what FIPS-197 prescribes for the first 16 bytes
  of the key and decrypts back under any other backend; and any two backends decrypt every
  block to the same bytes.\<close>

theorem aes_backend_irrelevant:
  assumes "aes_crate_ok p" "16 \<le> length key" "length b = 16"
  shows "encrypt_block p (AesKey_with_backend h key be) b = Cipher (take 16 key) b \<and>
    decrypt_block p (AesKey_with_backend h' key be') (Cipher (take 16 key) b) = b \<and>
    decrypt_block p (AesKey_with_backend h key be) b = decrypt_block p (AesKey_with_backend h' key be') b"
proof -
  have t: "encrypt_block_table (AesTable_new (take 16 key)) b = Cipher (take 16 key) b"
    using table_is_standard[of "take 16 key" b] assms(2,3) by simp
  have "length (Cipher (take 16 key) b) = 16"
    unfolding t[symmetric] by simp
  then show ?thesis
    using encrypt_block_backend[OF assms] encrypt_block_backend(2)[OF assms(1,2), of "Cipher (take 16 key) b" h' be']
      decrypt_encrypt_table[OF assms(3), of "take 16 key"] t by simp
qed

theorem aes_backend_irrelevant_witness:
  "aes_crate_ok demo_prims \<and> 16 \<le> length (replicate 16 (1 :: u8)) \<and> length (replicate 16 (2 :: u8)) = 16 \<and>
   encrypt_block demo_prims (AesKey_with_backend True (replicate 16 1) Auto) (replicate 16 2) =
     Cipher (replicate 16 1) (replicate 16 2) \<and>
   decrypt_block demo_prims (AesKey_with_backend False (replicate 16 1) TableBackend)
     (Cipher (replicate 16 1) (replicate 16 2)) = replicate 16 2"
  using aes_backend_irrelevant[OF demo_prims_ok(2), of "replicate 16 1" "replicate 16 2" True Auto False
      TableBackend] demo_prims_ok(2) by simp

end
