(* ===== verification/Wire.thy ===== *)
theory Wire
  imports Crypto
begin

text \<open>
  Application framing of \<open>src/src/wire.rs\<close>: the plaintext layouts of bare and safer
  packets, handshake and data payloads, and the \<open>--fix-gro\<close> length prefix with the
  receiver's splitter. Every parser is an evaluation that may panic, so that the bounds
  checks of the slices are part of what is proved.
\<close>


section \<open>Model\<close>

definition BARE_MARKER :: u8 where "BARE_MARKER = 0x62"
definition TYPE_HEARTBEAT :: u8 where "TYPE_HEARTBEAT = 0x68"
definition TYPE_DATA :: u8 where "TYPE_DATA = 0x64"
definition BARE_HEADER_LEN :: nat where "BARE_HEADER_LEN = 8 + 8 + 1"
definition SAFER_HEADER_LEN :: nat where "SAFER_HEADER_LEN = 4 + 4 + 8 + 1 + 1"
definition HANDSHAKE_LEN :: nat where "HANDSHAKE_LEN = 12"

lemmas wire_consts = BARE_MARKER_def TYPE_HEARTBEAT_def TYPE_DATA_def BARE_HEADER_LEN_def
  SAFER_HEADER_LEN_def HANDSHAKE_LEN_def

text \<open>\<open>to_ne_bytes\<close>: the byte order of the machine, given by \<open>little\<close>.\<close>

definition ne64 :: "bool \<Rightarrow> u64 \<Rightarrow> bytes" where
  "ne64 little v = (if little then rev (be64 v) else be64 v)"

definition build_bare :: "bool \<Rightarrow> u64 \<Rightarrow> u64 \<Rightarrow> bytes \<Rightarrow> bytes" where
  "build_bare little iv padding payload =
     ne64 little iv @ ne64 little padding @ [BARE_MARKER] @ payload"

definition parse_bare :: "bytes \<Rightarrow> bytes option eval" where
  "parse_bare plain =
     (if length plain < BARE_HEADER_LEN then Ret None
      else rbind (idx plain 16) (\<lambda>m.
        if m \<noteq> BARE_MARKER then Ret None
        else rbind (slice_from plain BARE_HEADER_LEN) (\<lambda>d. Ret (Some d))))"

definition build_handshake :: "u32 \<Rightarrow> u32 \<Rightarrow> u32 \<Rightarrow> bytes" where
  "build_handshake id1 id2 id3 = be32 id1 @ be32 id2 @ be32 id3"

definition parse_handshake :: "bytes \<Rightarrow> (u32 \<times> u32 \<times> u32) option eval" where
  "parse_handshake data =
     (if length data < HANDSHAKE_LEN then Ret None
      else rbind (read_u32_be data) (\<lambda>id1.
           rbind (rbind (slice_from data 4) read_u32_be) (\<lambda>id2.
           rbind (rbind (slice_from data 8) read_u32_be) (\<lambda>id3.
             Ret (Some (id1, id2, id3))))))"

record SaferHeader =
  sh_my_id :: u32
  sh_oppsite_id :: u32
  sh_seq :: u64
  sh_ptype :: u8
  sh_roller :: u8

definition build_safer :: "SaferHeader \<Rightarrow> bytes \<Rightarrow> bytes" where
  "build_safer h payload = be32 (sh_my_id h) @ be32 (sh_oppsite_id h) @ be64 (sh_seq h) @
     [sh_ptype h] @ [sh_roller h] @ payload"

record SaferIds =
  si_oppsite_id :: u32
  si_my_id :: u32
  si_seq :: u64

definition parse_safer_ids :: "bytes \<Rightarrow> SaferIds option eval" where
  "parse_safer_ids plain =
     (if length plain < 16 then Ret None
      else rbind (read_u32_be plain) (\<lambda>o1.
           rbind (rbind (slice_from plain 4) read_u32_be) (\<lambda>m.
           rbind (rbind (slice_from plain 8) read_u64_be) (\<lambda>s.
             Ret (Some \<lparr> si_oppsite_id = o1, si_my_id = m, si_seq = s \<rparr>)))))"

definition parse_safer_body :: "bytes \<Rightarrow> (u8 \<times> u8 \<times> bytes) option eval" where
  "parse_safer_body plain =
     (if length plain < SAFER_HEADER_LEN then Ret None
      else rbind (idx plain 16) (\<lambda>ptype.
        if ptype \<noteq> TYPE_HEARTBEAT \<and> ptype \<noteq> TYPE_DATA then Ret None
        else rbind (idx plain 17) (\<lambda>roller.
             rbind (slice_from plain SAFER_HEADER_LEN) (\<lambda>d. Ret (Some (ptype, roller, d))))))"

definition build_data_payload :: "u32 \<Rightarrow> bytes \<Rightarrow> bytes" where
  "build_data_payload conv data = be32 conv @ data"

definition parse_data_payload :: "bytes \<Rightarrow> (u32 \<times> bytes) option eval" where
  "parse_data_payload data =
     (if length data < 4 then Ret None
      else rbind (read_u32_be data) (\<lambda>conv. rbind (slice_from data 4) (\<lambda>d. Ret (Some (conv, d)))))"

text \<open>The sender's prefix; the length is truncated to 16 bits as in \<open>len as u16\<close>.\<close>

definition gro_wrap :: "prims \<Rightarrow> Crypto \<Rightarrow> bytes \<Rightarrow> bytes eval" where
  "gro_wrap p c encrypted =
     rbind (write_u16_be ([0, 0] @ encrypted) (of_nat (length encrypted))) (\<lambda>buf.
       if length buf \<ge> 16 \<or> \<not> is_aes (cipher_mode c) then gro_obfuscate_head p c buf else Ret buf)"

text \<open>The receiver's loop: it deobfuscates heads in place and returns the
  \<open>(offset, length)\<close> pairs together with the rewritten buffer.\<close>

function gro_unwrap_loop ::
  "prims \<Rightarrow> Crypto \<Rightarrow> bytes \<Rightarrow> nat \<Rightarrow> nat \<Rightarrow> ((nat \<times> nat) list \<times> bytes) eval" where
  "gro_unwrap_loop p c buf pos remaining =
     (if remaining \<ge> 16 then
        rbind (subslice buf pos (pos + 16)) (\<lambda>head.
        rbind (gro_deobfuscate_head p c head) (\<lambda>head'.
        let buf' = overwrite buf pos head' in
        rbind (rbind (slice_from buf' pos) read_u16_be) (\<lambda>w.
        let single_len = unat w; pos' = pos + 2; remaining' = remaining - 2 in
        if single_len > remaining' then Ret ([], buf')
        else if single_len > MAX_DATA_LEN then Ret ([], buf')
        else rbind (gro_unwrap_loop p c buf' (pos' + single_len) (remaining' - single_len))
               (\<lambda>(out, buf''). Ret ((pos', single_len) # out, buf'')))))
      else Ret ([], buf))"
  by pat_completeness auto
termination by (relation "measure (\<lambda>(p, c, buf, pos, remaining). remaining)") auto

declare gro_unwrap_loop.simps [simp del]

definition gro_unwrap :: "prims \<Rightarrow> Crypto \<Rightarrow> bytes \<Rightarrow> ((nat \<times> nat) list \<times> bytes) eval" where
  "gro_unwrap p c buf = gro_unwrap_loop p c buf 0 (length buf)"


section \<open>Round trips of the plain layouts\<close>

lemma length_ne64 [simp]: "length (ne64 l v) = 8"
  by (simp add: ne64_def)

lemma parse_bare_build: "parse_bare (build_bare l iv pad d) = Ret (Some d)"
  by (simp add: parse_bare_def build_bare_def wire_consts idx_def slice_from_def nth_append)

lemma parse_handshake_build: "parse_handshake (build_handshake a b c) = Ret (Some (a, b, c))"
  using read_u32_be_app[of c "[]"]
  by (simp add: parse_handshake_def build_handshake_def wire_consts slice_from_def byte_simps)

lemma parse_safer_ids_build:
  "parse_safer_ids (build_safer h d) = Ret (Some \<lparr> si_oppsite_id = sh_my_id h,
     si_my_id = sh_oppsite_id h, si_seq = sh_seq h \<rparr>)"
  by (simp add: parse_safer_ids_def build_safer_def slice_from_def byte_simps)

lemma parse_safer_body_build:
  assumes "sh_ptype h = TYPE_HEARTBEAT \<or> sh_ptype h = TYPE_DATA"
  shows "parse_safer_body (build_safer h d) = Ret (Some (sh_ptype h, sh_roller h, d))"
  using assms
  by (simp add: parse_safer_body_def build_safer_def idx_def slice_from_def nth_append wire_consts)

lemma parse_data_payload_build: "parse_data_payload (build_data_payload c d) = Ret (Some (c, d))"
  by (simp add: parse_data_payload_def build_data_payload_def slice_from_def byte_simps)



section \<open>The \<open>--fix-gro\<close> prefix\<close>

lemma xor_head2_roundtrip:
  assumes "16 \<le> length buf"
  shows "\<exists>h. xor_head2 g buf = Ret h \<and> length h = length buf \<and> drop 16 h = drop 16 buf \<and>
    xor_head2 g (take 16 h) = Ret (take 16 buf)"
proof -
  obtain x y r where b: "buf = x # y # r"
    using assms by (cases buf rule: remdups_adj.cases) auto
  let ?h = "(x XOR g ! 0) # (y XOR g ! 1) # r"
  have "xor_head2 g buf = Ret ?h" "length ?h = length buf" "drop 16 ?h = drop 16 buf"
    "xor_head2 g (take 16 ?h) = Ret (take 16 buf)"
    by (simp_all add: xor_head2_def b xor.assoc)
  then show ?thesis
    by blast
qed

lemma gro_head_roundtrip:
  assumes "aes_crate_ok p" "mirror p a b" "16 \<le> length buf"
  obtains h where "length h = 16" "gro_obfuscate_head p a buf = Ret (h @ drop 16 buf)"
    "gro_deobfuscate_head p b h = Ret (take 16 buf)"
proof (cases "is_aes (cipher_mode a)")
  case True
  then have se: "same_aes p (ecb_enc a) (ecb_dec b)" and m: "cipher_mode b = cipher_mode a"
    using assms(2) by (simp_all add: mirror_def)
  then have some: "ecb_enc a \<noteq> None" "ecb_dec b \<noteq> None"
    by (auto simp: same_aes_def)
  note bc = same_aes_pair(1)[OF assms(1) se]
  let ?h = "encrypt_block p (the (ecb_enc a)) (take 16 buf)"
  have "length (take 16 buf) = 16"
    using assms(3) by simp
  note E = block_cipher.E_length[OF bc this] block_cipher.D_E[OF bc this]
  show thesis
    using True m some E assms(3)
    by (intro that[of ?h])
       (auto simp: gro_obfuscate_head_def gro_deobfuscate_head_def is_aes_def ecb_encrypt1_def
         ecb_decrypt1_def on_head16_def)
next
  case False
  have m: "cipher_mode b = cipher_mode a" "gro_xor (keys b) = gro_xor (keys a)"
    using assms(2) by (simp_all add: mirror_def)
  show thesis
  proof (cases "cipher_mode a = CipherNone")
    case True
    then show thesis
      using m assms(3) by (intro that[of "take 16 buf"])
        (simp_all add: gro_obfuscate_head_def gro_deobfuscate_head_def)
  next
    case nn: False
    obtain h where h: "xor_head2 (gro_xor (keys a)) buf = Ret h" "length h = length buf"
        "drop 16 h = drop 16 buf" "xor_head2 (gro_xor (keys a)) (take 16 h) = Ret (take 16 buf)"
      using xor_head2_roundtrip[OF assms(3)] by blast
    note h(3)
    then have split: "h = take 16 h @ drop 16 buf"
      by (metis append_take_drop_id)
    have "gro_obfuscate_head p a buf = Ret h"
      using False nn h(1) by (cases "cipher_mode a") (simp_all add: gro_obfuscate_head_def is_aes_def)
    then have "gro_obfuscate_head p a buf = Ret (take 16 h @ drop 16 buf)"
      using split by metis
    moreover have "gro_deobfuscate_head p b (take 16 h) = Ret (take 16 buf)"
      using False nn m h(4)
      by (cases "cipher_mode a") (simp_all add: gro_deobfuscate_head_def is_aes_def)
    ultimately show thesis
      using h(2) assms(3) by (intro that[of "take 16 h"]) simp_all
  qed
qed


text \<open>Where the splitter finds the packets of a merged burst.\<close>

fun burst_offsets :: "nat \<Rightarrow> bytes list \<Rightarrow> (nat \<times> nat) list" where
  "burst_offsets pos [] = []"
| "burst_offsets pos (e # es) = (pos + 2, length e) # burst_offsets (pos + 2 + length e) es"

definition framed :: "bytes \<Rightarrow> bytes" where
  "framed e = be16 (of_nat (length e)) @ e"

lemma gro_wrap_framed:
  "gro_wrap p c e = (if length (framed e) \<ge> 16 \<or> \<not> is_aes (cipher_mode c)
     then gro_obfuscate_head p c (framed e) else Ret (framed e))"
  by (simp add: gro_wrap_def framed_def write_u16_be_def)

lemma gro_unwrap_loop_stop:
  "remaining < 16 \<Longrightarrow> gro_unwrap_loop p c buf pos remaining = Ret ([], buf)"
  by (subst gro_unwrap_loop.simps) simp

lemma gro_unwrap_loop_one:
  assumes "length h = 16" "gro_deobfuscate_head p b h = Ret (take 16 (framed e))"
    and "14 \<le> length e" "length e \<le> 1800"
  shows "gro_unwrap_loop p b (done @ h @ drop 16 (framed e) @ rest) (length done)
      (length (framed e @ rest)) =
    rbind (gro_unwrap_loop p b ((done @ framed e) @ rest) (length (done @ framed e)) (length rest))
      (\<lambda>(out, buf). Ret ((length done + 2, length e) # out, buf))"
proof -
  let ?buf = "done @ h @ drop 16 (framed e) @ rest"
  have len: "length (framed e) = length e + 2" "16 \<le> length (framed e)"
    using assms(3) by (simp_all add: framed_def)
  have buf': "overwrite ?buf (length done) (take 16 (framed e)) = done @ framed e @ rest"
    using overwrite_mid[of "take 16 (framed e)" h "done" _ "drop 16 (framed e) @ rest"] assms(1) len(2)
    by (simp add: min_absorb2)
  have w: "read_u16_be (framed e @ rest) = Ret (of_nat (length e))"
    by (simp add: framed_def read_u16_be_app)
  have u: "unat (of_nat (length e) :: u16) = length e"
    using assms(4) by (intro unat_of_nat_small) simp
  show ?thesis
    using assms len
    by (subst gro_unwrap_loop.simps)
       (simp add: subslice_def buf' slice_from_def w u Let_def MAX_DATA_LEN_def)
qed

text \<open>A burst: several wrapped packets glued together by the network card.\<close>

fun gro_burst :: "prims \<Rightarrow> Crypto \<Rightarrow> bytes list \<Rightarrow> bytes eval" where
  "gro_burst p c [] = Ret []"
| "gro_burst p c (e # es) = rbind (gro_wrap p c e) (\<lambda>w. rbind (gro_burst p c es) (\<lambda>r. Ret (w @ r)))"

definition pick :: "bytes \<Rightarrow> nat \<times> nat \<Rightarrow> bytes" where
  "pick buf = (\<lambda>(off, n). take n (drop off buf))"

lemma pick_framed: "pick (pre @ framed e @ rest) (length pre + 2, length e) = e"
  by (simp add: pick_def framed_def)

lemma gro_wrap_head:
  assumes "aes_crate_ok p" "mirror p a b" "14 \<le> length e"
  obtains h where "length h = 16" "gro_wrap p a e = Ret (h @ drop 16 (framed e))"
    "gro_deobfuscate_head p b h = Ret (take 16 (framed e))"
proof -
  have "16 \<le> length (framed e)"
    using assms(3) by (simp add: framed_def)
  from gro_head_roundtrip[OF assms(1,2) this] this that show thesis
    by (metis gro_wrap_framed)
qed

lemma gro_burst_unwrap_loop:
  assumes "aes_crate_ok p" "mirror p a b" "\<forall>e \<in> set es. 14 \<le> length e \<and> length e \<le> 1800"
  shows "\<exists>buf. gro_burst p a es = Ret buf \<and> length buf = length (concat (map framed es)) \<and>
     (\<forall>pre. gro_unwrap_loop p b (pre @ buf) (length pre) (length buf) =
        Ret (burst_offsets (length pre) es, pre @ concat (map framed es)))"
  using assms(3)
proof (induction es)
  case Nil
  then show ?case
    by (simp add: gro_unwrap_loop_stop)
next
  case (Cons e es)
  then obtain buf where IH: "gro_burst p a es = Ret buf" "length buf = length (concat (map framed es))"
     "\<And>pre. gro_unwrap_loop p b (pre @ buf) (length pre) (length buf) =
        Ret (burst_offsets (length pre) es, pre @ concat (map framed es))"
    by auto
  have e: "14 \<le> length e" "length e \<le> 1800"
    using Cons.prems by simp_all
  obtain h where h: "length h = 16" "gro_wrap p a e = Ret (h @ drop 16 (framed e))"
    "gro_deobfuscate_head p b h = Ret (take 16 (framed e))"
    using gro_wrap_head[OF assms(1,2) e(1)] by blast
  have len: "length (framed e) = length e + 2"
    by (simp add: framed_def)
  have "gro_unwrap_loop p b (pre @ h @ drop 16 (framed e) @ buf) (length pre) (length (framed e @ buf)) =
      Ret (burst_offsets (length pre) (e # es), pre @ concat (map framed (e # es)))" for pre
    using gro_unwrap_loop_one[OF h(1,3) e, of pre buf] IH(3)[of "pre @ framed e"] len by (simp add: add.assoc)
  moreover have eq: "length h + (length (framed e) - 16 + n) = length (framed e) + n" for n
    using h(1) e(1) len by simp
  ultimately show ?case
    using IH(1,2) h(2) by (simp add: eq)
qed

lemma pick_burst:
  "map (pick (pre @ concat (map framed es))) (burst_offsets (length pre) es) = es"
proof (induction es arbitrary: pre)
  case (Cons e es)
  have "length (framed e) = length e + 2"
    by (simp add: framed_def)
  then show ?case
    using Cons[of "pre @ framed e"] pick_framed[of pre e "concat (map framed es)"] by (simp add: add.assoc)
qed simp


section \<open>The parsers are total\<close>

lemma parse_bare_total: "\<exists>r. parse_bare d = Ret r"
  by (simp add: parse_bare_def idx_def slice_from_def wire_consts)

lemma parse_safer_body_total: "\<exists>r. parse_safer_body d = Ret r"
  by (simp add: parse_safer_body_def idx_def slice_from_def wire_consts)

lemma parse_data_payload_total: "\<exists>r. parse_data_payload d = Ret r"
  using read_be_ok(2)[of d] by (auto simp: parse_data_payload_def slice_from_def)

lemma parse_handshake_total: "\<exists>r. parse_handshake d = Ret r"
proof (cases "12 \<le> length d")
  case True
  then have "\<exists>v. read_u32_be d = Ret v" "\<exists>v. read_u32_be (drop 4 d) = Ret v" "\<exists>v. read_u32_be (drop 8 d) = Ret v"
    by (simp_all add: read_be_ok)
  with True show ?thesis
    by (auto simp: parse_handshake_def slice_from_def)
qed (simp add: parse_handshake_def wire_consts)

lemma parse_safer_ids_total: "\<exists>r. parse_safer_ids d = Ret r"
proof (cases "16 \<le> length d")
  case True
  then have "\<exists>v. read_u32_be d = Ret v" "\<exists>v. read_u32_be (drop 4 d) = Ret v" "\<exists>v. read_u64_be (drop 8 d) = Ret v"
    by (simp_all add: read_be_ok)
  with True show ?thesis
    by (auto simp: parse_safer_ids_def slice_from_def)
qed (simp add: parse_safer_ids_def)

text \<open>An engine is what \<open>Crypto::with_backend\<close> builds from derived keys. For an engine the
  splitter never panics either, whatever the bytes, and its parts lie inside the buffer.\<close>

definition engine :: "prims \<Rightarrow> Crypto \<Rightarrow> bool" where
  "engine p c \<longleftrightarrow> (\<exists>pw r ks h cm am legacy be. Keys_derive p pw r = Ret ks \<and>
     c = Crypto_with_backend p h cm am legacy ks be)"

lemma engine_mirrored:
  assumes "hash_lengths p" "engine p c"
  obtains a where "mirror p a c" "mirror p c a" "engine p a"
proof -
  obtain pw r ks h cm am legacy be where c: "Keys_derive p pw r = Ret ks"
      "c = Crypto_with_backend p h cm am legacy ks be"
    using assms(2) unfolding engine_def by blast
  obtain ks' where k: "Keys_derive p pw (\<not> r) = Ret ks'"
    using Keys_derive_Ret[OF assms(1)] by blast
  let ?a = "Crypto_with_backend p h cm am legacy ks' be"
  have "Keys_derive p pw (\<not> \<not> r) = Ret ks"
    using c(1) by simp
  then have "mirror p ?a c" "mirror p c ?a"
    using engines_mirror[OF assms(1) k] engines_mirror[OF assms(1) c(1) k] unfolding c(2) by blast+
  moreover have "engine p ?a"
    using k unfolding engine_def by blast
  ultimately show thesis
    by (rule that)
qed

lemma length_decrypt_block_table: "length (decrypt_block_table a b) = 16"
  by (cases "xor4 (isr_isb (fold (\<lambda>i st. dec_round gen_tables (dk a) (4 * (i + 1)) st) [0..<9]
       (load_state b (dk a)))) (key4 (dk a) 40)")
     (simp add: decrypt_block_table_eq store_state_def del: upt_rec_numeral)

lemma same_aes_decrypt_length:
  assumes "aes_crate_ok p" "same_aes p k k'" "length b = 16"
  shows "length (decrypt_block p (the k') b) = 16"
  using assms(2) encrypt_block_backend(2)[OF assms(1) _ assms(3)] length_decrypt_block_table
  by (auto simp: same_aes_def)

lemma gro_deobfuscate_head_total:
  assumes "hash_lengths p" "aes_crate_ok p" "engine p c" "length h = 16"
  shows "\<exists>h'. gro_deobfuscate_head p c h = Ret h' \<and> length h' = 16"
proof -
  obtain a where a: "mirror p a c"
    using engine_mirrored[OF assms(1,3)] by blast
  show ?thesis
  proof (cases "is_aes (cipher_mode c)")
    case True
    then have se: "same_aes p (ecb_enc a) (ecb_dec c)"
      using a by (simp add: mirror_def)
    then have "ecb_dec c \<noteq> None"
      by (auto simp: same_aes_def)
    then show ?thesis
      using True same_aes_decrypt_length[OF assms(2) se assms(4)] assms(4)
      by (auto simp: gro_deobfuscate_head_def is_aes_def ecb_decrypt1_def on_head16_def)
  next
    case False
    then show ?thesis
      using assms(4) by (cases "cipher_mode c") (auto simp: gro_deobfuscate_head_def is_aes_def xor_head2_def)
  qed
qed

lemma gro_wrap_total:
  assumes "hash_lengths p" "aes_crate_ok p" "engine p c"
  shows "\<exists>w. gro_wrap p c e = Ret w"
proof -
  obtain a where a: "mirror p c a"
    using engine_mirrored[OF assms(1,3)] by blast
  have "2 \<le> length (framed e)"
    by (simp add: framed_def)
  then have "\<not> is_aes (cipher_mode c) \<Longrightarrow> \<exists>w. gro_obfuscate_head p c (framed e) = Ret w"
    by (cases "cipher_mode c") (auto simp: gro_obfuscate_head_def is_aes_def xor_head2_def)
  moreover have "16 \<le> length (framed e) \<Longrightarrow> \<exists>w. gro_obfuscate_head p c (framed e) = Ret w"
    using gro_head_roundtrip[OF assms(2) a] by blast
  ultimately show ?thesis
    by (auto simp: gro_wrap_framed)
qed

lemma gro_unwrap_loop_total:
  assumes "hash_lengths p" "aes_crate_ok p" "engine p c" "pos + remaining \<le> length buf"
  shows "\<exists>out buf'. gro_unwrap_loop p c buf pos remaining = Ret (out, buf') \<and> length buf' = length buf \<and>
    (\<forall>x \<in> set out. fst x + snd x \<le> length buf)"
  using assms(4)
proof (induction remaining arbitrary: buf pos rule: less_induct)
  case (less remaining)
  show ?case
  proof (cases "16 \<le> remaining")
    case False
    then show ?thesis
      by (simp add: gro_unwrap_loop_stop)
  next
    case True
    then have "length (take 16 (drop pos buf)) = 16"
      using less.prems by simp
    then obtain h' where h': "gro_deobfuscate_head p c (take 16 (drop pos buf)) = Ret h'" "length h' = 16"
      using gro_deobfuscate_head_total[OF assms(1-3)] by blast
    let ?buf = "overwrite buf pos h'"
    have len: "length ?buf = length buf"
      using h' less.prems True by (simp add: overwrite_def)
    obtain w where w: "read_u16_be (drop pos ?buf) = Ret w"
      using read_be_ok(1)[of "drop pos ?buf"] len less.prems True by fastforce
    have sl: "subslice buf pos (pos + 16) = Ret (take 16 (drop pos buf))"
      using less.prems True by (simp add: subslice_def)
    note step = gro_unwrap_loop.simps[of p c buf pos remaining]
    show ?thesis
    proof (cases "unat w > remaining - 2 \<or> unat w > MAX_DATA_LEN")
      case stop: True
      then show ?thesis
        using True len less.prems by (subst step) (auto simp: sl h' w slice_from_def Let_def)
    next
      case False
      then obtain out buf' where IH: "gro_unwrap_loop p c ?buf (pos + 2 + unat w) (remaining - 2 - unat w) = Ret (out, buf')"
          "length buf' = length buf" "\<forall>x \<in> set out. fst x + snd x \<le> length buf"
        using less.IH[of "remaining - 2 - unat w" "pos + 2 + unat w" ?buf] len less.prems True by fastforce
      then show ?thesis
        using True False len less.prems by (subst step) (auto simp: sl h' w slice_from_def Let_def)
    qed
  qed
qed


section \<open>Properties\<close>



text \<open>C22: No byte string makes a frame parser panic: every index and slice of the parsers of
  bare, handshake, safer and data layouts is guarded by a length check, so hostile input is
  answered with \<open>None\<close> at worst.\<close>

theorem wire_parsers_total:
  "\<not> panics (parse_bare d) \<and> \<not> panics (parse_handshake d) \<and> \<not> panics (parse_safer_ids d) \<and>
   \<not> panics (parse_safer_body d) \<and> \<not> panics (parse_data_payload d)"
  using parse_bare_total[of d] parse_handshake_total[of d] parse_safer_ids_total[of d]
    parse_safer_body_total[of d] parse_data_payload_total[of d] by auto

text \<open>C23: What one side frames, the other side reads back: the parsers invert the builders
  of the bare, handshake, safer and data layouts on every input (a safer packet being one of
  the two types the protocol has), with the ids of the sender seen as the peer's.\<close>

theorem wire_layouts_roundtrip:
  assumes "sh_ptype h = TYPE_HEARTBEAT \<or> sh_ptype h = TYPE_DATA"
  shows "parse_bare (build_bare l iv pad d) = Ret (Some d) \<and>
    parse_handshake (build_handshake x y z) = Ret (Some (x, y, z)) \<and>
    parse_data_payload (build_data_payload conv d) = Ret (Some (conv, d)) \<and>
    parse_safer_ids (build_safer h d) = Ret (Some \<lparr> si_oppsite_id = sh_my_id h,
      si_my_id = sh_oppsite_id h, si_seq = sh_seq h \<rparr>) \<and>
    parse_safer_body (build_safer h d) = Ret (Some (sh_ptype h, sh_roller h, d))"
  using assms by (simp add: parse_bare_build parse_handshake_build parse_data_payload_build
      parse_safer_ids_build parse_safer_body_build)

theorem wire_layouts_roundtrip_witness:
  "parse_safer_body (build_safer \<lparr> sh_my_id = 1, sh_oppsite_id = 2, sh_seq = 3,
     sh_ptype = TYPE_DATA, sh_roller = 9 \<rparr> [7]) = Ret (Some (TYPE_DATA, 9, [7]))"
  using wire_layouts_roundtrip[of "\<lparr> sh_my_id = 1, sh_oppsite_id = 2, sh_seq = 3,
     sh_ptype = TYPE_DATA, sh_roller = 9 \<rparr>" _ _ _ "[7]"] by simp

end
