(* ===== verification/Anti_Replay.thy ===== *)
theory Anti_Replay
  imports Prelude
begin

text \<open>
  The sliding-window replay filter of \<open>src/src/anti_replay.rs\<close>. The state is the
  struct \<open>AntiReplay\<close>; sequence numbers are 64-bit words. The filter is proved to
  refine an abstract one that remembers the set of accepted numbers, and the
  contract its users rely on (an accepted number is never accepted again) is the
  locale \<open>replay_filter\<close>, interpreted here on the real filter.
\<close>


section \<open>Model\<close>

definition ANTI_REPLAY_WINDOW_SIZE :: nat where
  "ANTI_REPLAY_WINDOW_SIZE = 4000"

record AntiReplay =
  max_packet_received :: u64
  window :: bytes
  next_send_seq :: u64
  disabled :: bool

text \<open>\<open>AntiReplay::new\<close>; \<open>rnd\<close> is the value drawn from the system's random source.\<close>

definition ar_new :: "bool \<Rightarrow> u64 \<Rightarrow> AntiReplay" where
  "ar_new dis rnd =
     \<lparr> max_packet_received = 0, window = replicate ANTI_REPLAY_WINDOW_SIZE 0,
       next_send_seq = rnd div 10, disabled = dis \<rparr>"

definition ar_re_init :: "AntiReplay \<Rightarrow> AntiReplay" where
  "ar_re_init ar = ar\<lparr>max_packet_received := 0\<rparr>"

definition next_seq_for_send :: "AntiReplay \<Rightarrow> u64 \<times> AntiReplay" where
  "next_seq_for_send ar =
     (next_send_seq ar, ar\<lparr>next_send_seq := next_send_seq ar + 1\<rparr>)"

definition slot_of :: "u64 \<Rightarrow> nat" where
  "slot_of s = unat (s mod 4000)"

text \<open>The \<open>while i < seq\<close> loop that clears the slots the window slides over.\<close>

function clear_slots :: "u64 \<Rightarrow> u64 \<Rightarrow> bytes \<Rightarrow> bytes" where
  "clear_slots i seq win =
     (if i < seq then clear_slots (i + 1) seq (win[slot_of i := 0]) else win)"
  by pat_completeness auto
termination
  by (relation "measure (\<lambda>(i, seq, win). unat seq - unat i)")
     (auto simp: unat_inc_less word_less_nat_alt)

declare clear_slots.simps [simp del]

definition is_valid :: "AntiReplay \<Rightarrow> u64 \<Rightarrow> bool \<times> AntiReplay" where
  "is_valid ar seq =
     (if disabled ar then (True, ar)
      else if seq = max_packet_received ar then (False, ar)
      else if seq > max_packet_received ar then
        (let win = (if seq - max_packet_received ar \<ge> 4000
                    then (replicate (length (window ar)) 0)[slot_of seq := 1]
                    else (clear_slots (max_packet_received ar + 1) seq (window ar))
                           [slot_of seq := 1])
         in (True, ar\<lparr>window := win, max_packet_received := seq\<rparr>))
      else if max_packet_received ar - seq \<ge> 4000 then (False, ar)
      else if window ar ! slot_of seq = 1 then (False, ar)
      else (True, ar\<lparr>window := (window ar)[slot_of seq := 1]\<rparr>))"


section \<open>Well-formedness and the window loop\<close>

definition ar_wf :: "AntiReplay \<Rightarrow> bool" where
  [inv_simps]: "ar_wf ar \<longleftrightarrow> length (window ar) = ANTI_REPLAY_WINDOW_SIZE"

lemma slot_of_nat: "slot_of s = unat s mod 4000"
  by (simp add: slot_of_def unat_mod)

lemma slot_of_less [simp]: "slot_of s < 4000"
  by (simp add: slot_of_nat)

lemma length_clear_slots [simp]: "length (clear_slots i seq win) = length win"
  by (induction i seq win rule: clear_slots.induct) (subst clear_slots.simps, simp)

lemma clear_slots_nth:
  assumes "j < length win"
  shows "clear_slots i seq win ! j =
    (if \<exists>t. unat i \<le> t \<and> t < unat seq \<and> t mod 4000 = j then 0 else win ! j)"
  using assms
proof (induction i seq win rule: clear_slots.induct)
  case (1 i seq win)
  show ?case
  proof (cases "i < seq")
    case True
    then have i: "unat (i + 1) = Suc (unat i)" "unat i < unat seq"
      by (simp_all add: unat_inc_less word_less_nat_alt)
    have "(\<exists>t. unat i \<le> t \<and> t < unat seq \<and> t mod 4000 = j) \<longleftrightarrow>
      unat i mod 4000 = j \<or> (\<exists>t. Suc (unat i) \<le> t \<and> t < unat seq \<and> t mod 4000 = j)"
      using i(2) by (metis Suc_le_eq le_eq_less_or_eq)
    then show ?thesis
      using True 1 by (subst clear_slots.simps) (auto simp: i slot_of_nat nth_list_update)
  next
    case False
    then show ?thesis
      by (subst clear_slots.simps) (auto simp: word_less_nat_alt)
  qed
qed

lemma is_valid_wf [simp]: "ar_wf ar \<Longrightarrow> ar_wf (snd (is_valid ar seq))"
  by (auto simp: is_valid_def inv_simps Let_def)

lemma is_valid_frame [simp]:
  "next_send_seq (snd (is_valid ar seq)) = next_send_seq ar"
  "disabled (snd (is_valid ar seq)) = disabled ar"
  by (auto simp: is_valid_def Let_def)

lemma ar_new_wf [simp]: "ar_wf (ar_new dis rnd)"
  by (simp add: ar_new_def inv_simps)

lemma ar_re_init_wf [simp]: "ar_wf (ar_re_init ar) = ar_wf ar"
  by (simp add: ar_re_init_def inv_simps)


section \<open>Abstract filter and refinement\<close>

text \<open>
  The abstract filter keeps the highest number and the set of accepted numbers that
  are still inside the window.
\<close>

definition in_window :: "u64 \<Rightarrow> u64 \<Rightarrow> bool" where
  "in_window m s \<longleftrightarrow> s \<le> m \<and> unat m - unat s < ANTI_REPLAY_WINDOW_SIZE"

definition spec_check :: "u64 \<times> u64 set \<Rightarrow> u64 \<Rightarrow> bool \<times> (u64 \<times> u64 set)" where
  "spec_check st seq = (case st of (m, S) \<Rightarrow>
     if seq = m then (False, st)
     else if m < seq then (True, (seq, {s \<in> insert seq S. in_window seq s}))
     else if \<not> in_window m seq \<or> seq \<in> S then (False, st)
     else (True, (m, insert seq S)))"

definition ar_seen :: "AntiReplay \<Rightarrow> u64 set" where
  "ar_seen ar = {s. in_window (max_packet_received ar) s \<and> window ar ! slot_of s = 1}"

definition ar_abs :: "AntiReplay \<Rightarrow> u64 \<times> u64 set" where
  "ar_abs ar = (max_packet_received ar, ar_seen ar)"

lemma in_window_nat: "in_window m s \<longleftrightarrow> unat s \<le> unat m \<and> unat m - unat s < 4000"
  by (simp add: in_window_def word_le_nat_alt ANTI_REPLAY_WINDOW_SIZE_def)

lemma in_window_self [simp]: "in_window m m"
  by (simp add: in_window_nat)

lemma slot_neq_less:
  assumes "in_window m s" "in_window m t" "unat s < unat t"
  shows "slot_of s \<noteq> slot_of t"
proof -
  have "unat t - unat s < 4000"
    using assms by (auto simp: in_window_nat)
  then show ?thesis
    using assms(3) by (simp add: slot_of_nat mod_neq_close)
qed

lemma slot_inj_window:
  assumes "in_window m s" "in_window m t" "slot_of s = slot_of t"
  shows "s = t"
  using assms slot_neq_less by (metis nat_neq_iff word_unat_eq_iff)

lemma word_sub_ge_4000:
  fixes a b :: u64
  assumes "b \<le> a"
  shows "4000 \<le> a - b \<longleftrightarrow> 4000 \<le> unat a - unat b"
  using assms by (simp add: word_le_nat_alt unat_sub)

lemma ar_seen_mark:
  assumes "ar_wf ar" "in_window (max_packet_received ar) seq"
  shows "ar_seen (ar\<lparr>window := (window ar)[slot_of seq := 1]\<rparr>) = insert seq (ar_seen ar)"
  using assms slot_inj_window[OF assms(2)]
  by (auto simp: ar_seen_def inv_simps ANTI_REPLAY_WINDOW_SIZE_def nth_list_update)

lemma ar_seen_far:
  assumes "unat (max_packet_received ar) < unat seq"
    and "4000 \<le> unat seq - unat (max_packet_received ar)"
  shows "{s \<in> insert seq (ar_seen ar). in_window seq s} = {seq}"
  using assms by (auto simp: ar_seen_def in_window_nat)

lemma slide_range:
  fixes m seq s :: nat
  assumes "s < seq" "seq - s < w"
  shows "(\<exists>t. Suc m \<le> t \<and> t < seq \<and> t mod w = s mod w) \<longleftrightarrow> m < s" (is "?L \<longleftrightarrow> ?R")
proof
  assume ?L
  then obtain t where t: "Suc m \<le> t" "t < seq" "t mod w = s mod w"
    by blast
  show ?R
  proof (rule ccontr)
    assume "\<not> ?R"
    then have "s < t" "t - s < w"
      using t assms by auto
    then show False
      using t(3) mod_neq_close by metis
  qed
next
  assume ?R
  then show ?L
    using assms by (intro exI[of _ s]) auto
qed

lemma clear_slots_window:
  assumes wf: "ar_wf ar" and lt: "unat (max_packet_received ar) < unat seq"
    and s: "in_window seq s" "s \<noteq> seq"
  shows "clear_slots (max_packet_received ar + 1) seq (window ar) ! slot_of s =
    (if unat (max_packet_received ar) < unat s then 0 else window ar ! slot_of s)"
proof -
  have "unat s < unat seq" "unat seq - unat s < 4000"
    using s by (auto simp: in_window_nat nat_less_le word_unat_eq_iff)
  note range = slide_range[OF this]
  have "unat (max_packet_received ar + 1) = Suc (unat (max_packet_received ar))"
    using lt by (simp add: unat_inc_less word_less_nat_alt)
  then show ?thesis
    using wf range
    by (simp add: clear_slots_nth slot_of_nat inv_simps ANTI_REPLAY_WINDOW_SIZE_def)
qed

lemma ar_seen_slide:
  assumes wf: "ar_wf ar" and lt: "unat (max_packet_received ar) < unat seq"
  defines "win \<equiv> clear_slots (max_packet_received ar + 1) seq (window ar)"
  shows "ar_seen (ar\<lparr>window := win[slot_of seq := 1], max_packet_received := seq\<rparr>) =
    {s \<in> insert seq (ar_seen ar). in_window seq s}"
proof -
  let ?m = "max_packet_received ar"
  have len: "length win = 4000"
    using wf by (simp add: win_def inv_simps ANTI_REPLAY_WINDOW_SIZE_def)
  have "win[slot_of seq := 1] ! slot_of s = 1 \<longleftrightarrow> s = seq \<or> s \<in> ar_seen ar"
    if s: "in_window seq s" for s
  proof (cases "s = seq")
    case False
    then have "slot_of seq \<noteq> slot_of s"
      using s slot_inj_window[of seq s seq] by auto
    moreover have "win ! slot_of s = 1 \<longleftrightarrow> s \<in> ar_seen ar"
      using clear_slots_window[OF wf lt s False] s lt
      by (auto simp: win_def ar_seen_def in_window_nat)
    ultimately show ?thesis
      using False by simp
  qed (simp add: len)
  then show ?thesis
    by (auto simp: ar_seen_def)
qed

lemma ar_seen_reset:
  assumes "ar_wf ar"
  shows "ar_seen (ar\<lparr>window := (replicate (length (window ar)) 0)[slot_of seq := 1],
                    max_packet_received := seq\<rparr>) = {seq}"
  using assms slot_inj_window[of seq _ seq]
  by (auto simp: ar_seen_def inv_simps ANTI_REPLAY_WINDOW_SIZE_def nth_list_update)

lemma is_valid_old:
  assumes "\<not> disabled ar" "seq < max_packet_received ar"
  shows "is_valid ar seq =
    (if \<not> in_window (max_packet_received ar) seq \<or> window ar ! slot_of seq = 1 then (False, ar)
     else (True, ar\<lparr>window := (window ar)[slot_of seq := 1]\<rparr>))"
proof -
  have "4000 \<le> max_packet_received ar - seq \<longleftrightarrow> \<not> in_window (max_packet_received ar) seq"
    using assms(2) by (simp add: word_sub_ge_4000 less_imp_le in_window_def
        ANTI_REPLAY_WINDOW_SIZE_def not_less)
  then show ?thesis
    using assms less_imp_neq[OF assms(2)] by (simp add: is_valid_def less_not_sym)
qed

lemma is_valid_new:
  assumes "\<not> disabled ar" "max_packet_received ar < seq"
  shows "is_valid ar seq = (True, ar\<lparr>window :=
     (if 4000 \<le> unat seq - unat (max_packet_received ar)
      then (replicate (length (window ar)) 0)[slot_of seq := 1]
      else (clear_slots (max_packet_received ar + 1) seq (window ar))[slot_of seq := 1]),
     max_packet_received := seq\<rparr>)"
  using assms by (simp add: is_valid_def word_sub_ge_4000 less_imp_le)

lemma is_valid_same: "\<not> disabled ar \<Longrightarrow> is_valid ar (max_packet_received ar) = (False, ar)"
  by (simp add: is_valid_def)

lemma ar_seen_advance:
  assumes "ar_wf ar" "\<not> disabled ar" "max_packet_received ar < seq"
  shows "ar_seen (snd (is_valid ar seq)) = {s \<in> insert seq (ar_seen ar). in_window seq s}"
proof (cases "4000 \<le> unat seq - unat (max_packet_received ar)")
  case True
  then show ?thesis
    using assms ar_seen_reset[of ar seq] ar_seen_far[of ar seq]
    by (simp add: is_valid_new word_less_nat_alt)
next
  case False
  then show ?thesis
    using assms ar_seen_slide[of ar seq]
    by (simp add: is_valid_new word_less_nat_alt)
qed

lemma is_valid_refines:
  assumes "ar_wf ar" "\<not> disabled ar"
  shows "map_prod id ar_abs (is_valid ar seq) = spec_check (ar_abs ar) seq"
proof (cases seq "max_packet_received ar" rule: linorder_cases)
  case less
  have "window ar ! slot_of seq = 1 \<longleftrightarrow> seq \<in> ar_seen ar"
    if "in_window (max_packet_received ar) seq"
    using that by (simp add: ar_seen_def)
  then show ?thesis
    using less assms ar_seen_mark[of ar seq] less_not_sym[OF less] less_imp_neq[OF less]
    by (simp add: is_valid_old spec_check_def ar_abs_def)
next
  case equal
  then show ?thesis
    using assms is_valid_same[of ar] by (simp add: spec_check_def ar_abs_def)
next
  case greater
  then show ?thesis
    using assms ar_seen_advance[of ar seq] less_imp_neq[OF greater]
    by (simp add: is_valid_new spec_check_def ar_abs_def)
qed


section \<open>The contract of a replay filter\<close>

text \<open>
  \<open>accepted\<close> runs a filter over the numbers in arrival order and collects those it
  lets through. A filter \<open>covers\<close> a set of numbers when it must refuse all of them.
\<close>

fun accepted :: "('s \<Rightarrow> 'n \<Rightarrow> bool \<times> 's) \<Rightarrow> 's \<Rightarrow> 'n list \<Rightarrow> 'n list \<times> 's" where
  "accepted check s [] = ([], s)"
| "accepted check s (n # ns) =
     (let (ok, s') = check s n; (acc, s'') = accepted check s' ns
      in (if ok then n # acc else acc, s''))"

locale replay_filter =
  fixes check :: "'s \<Rightarrow> 'n \<Rightarrow> bool \<times> 's"
    and covers :: "'s \<Rightarrow> 'n set \<Rightarrow> bool"
  assumes covered_rejected: "covers s A \<Longrightarrow> n \<in> A \<Longrightarrow> \<not> fst (check s n)"
    and accept_covers:
      "covers s A \<Longrightarrow> fst (check s n) \<Longrightarrow> covers (snd (check s n)) (insert n A)"
    and reject_covers:
      "covers s A \<Longrightarrow> \<not> fst (check s n) \<Longrightarrow> covers (snd (check s n)) A"
begin

lemma run_covers:
  assumes "covers s A"
  shows "covers (snd (accepted check s ns)) (A \<union> set (fst (accepted check s ns)))"
  using assms
proof (induction ns arbitrary: s A)
  case (Cons n ns)
  show ?case
  proof (cases "fst (check s n)")
    case True
    then show ?thesis
      using Cons.IH[OF accept_covers[OF Cons.prems True]] by (auto simp: split_beta)
  next
    case False
    then show ?thesis
      using Cons.IH[OF reject_covers[OF Cons.prems False]] by (auto simp: split_beta)
  qed
qed simp

lemma run_fresh:
  assumes "covers s A"
  shows "distinct (fst (accepted check s ns)) \<and> set (fst (accepted check s ns)) \<inter> A = {}"
  using assms
proof (induction ns arbitrary: s A)
  case (Cons n ns)
  show ?case
  proof (cases "fst (check s n)")
    case True
    then have "n \<notin> A"
      using covered_rejected Cons.prems by blast
    then show ?thesis
      using True Cons.IH[OF accept_covers[OF Cons.prems True]] by (auto simp: split_beta)
  next
    case False
    then show ?thesis
      using Cons.IH[OF reject_covers[OF Cons.prems False]] by (auto simp: split_beta)
  qed
qed simp

lemma replayed_rejected:
  assumes "covers s A" "n \<in> set (fst (accepted check s ns))"
  shows "\<not> fst (check (snd (accepted check s ns)) n)"
  using covered_rejected[OF run_covers[OF assms(1)]] assms(2) by blast

end


definition ar_covers :: "AntiReplay \<Rightarrow> u64 set \<Rightarrow> bool" where
  "ar_covers ar A \<longleftrightarrow> ar_wf ar \<and> \<not> disabled ar \<and>
     (\<forall>a\<in>A. a \<le> max_packet_received ar \<and>
        (in_window (max_packet_received ar) a \<longrightarrow> a \<in> ar_seen ar))"

lemma ar_covers_refines:
  assumes "ar_wf ar" "\<not> disabled ar"
  shows "fst (is_valid ar seq) = fst (spec_check (ar_abs ar) seq)"
    and "max_packet_received (snd (is_valid ar seq)) = fst (snd (spec_check (ar_abs ar) seq))"
    and "ar_seen (snd (is_valid ar seq)) = snd (snd (spec_check (ar_abs ar) seq))"
  using is_valid_refines[OF assms, of seq]
  by (cases "is_valid ar seq"; simp add: ar_abs_def prod_eq_iff)+

lemmas spec_simps = spec_check_def ar_abs_def

lemma ar_covers_accept:
  assumes "ar_covers ar A" "fst (is_valid ar n)"
  shows "ar_covers (snd (is_valid ar n)) (insert n A)"
proof -
  have st: "ar_wf ar" "\<not> disabled ar" and A: "\<And>a. a \<in> A \<Longrightarrow> a \<le> max_packet_received ar"
      "\<And>a. a \<in> A \<Longrightarrow> in_window (max_packet_received ar) a \<Longrightarrow> a \<in> ar_seen ar"
    using assms(1) by (auto simp: ar_covers_def)
  note r = ar_covers_refines[OF st, of n]
  show ?thesis
  proof (cases "max_packet_received ar < n")
    case True
    have "in_window (max_packet_received ar) a" if "a \<in> A" "in_window n a" for a
      using that A(1)[of a] True by (auto simp: in_window_nat word_less_nat_alt word_le_nat_alt)
    moreover have "a \<le> n" if "a \<in> A" for a
      using A(1)[OF that] True by (rule order.trans[OF _ less_imp_le])
    ultimately show ?thesis
      using True st A r by (auto simp: ar_covers_def spec_simps)
  next
    case False
    then show ?thesis
      using assms(2) st A r
      by (auto simp: ar_covers_def spec_simps not_less split: if_splits)
  qed
qed

lemma ar_covers_reject:
  assumes "ar_covers ar A" "\<not> fst (is_valid ar n)"
  shows "snd (is_valid ar n) = ar"
  using assms by (auto simp: is_valid_def Let_def split: if_splits)

lemma ar_covers_covered:
  assumes "ar_covers ar A" "n \<in> A"
  shows "\<not> fst (is_valid ar n)"
  using assms ar_covers_refines(1)[of ar n]
  by (auto simp: ar_covers_def spec_simps)

interpretation window_filter: replay_filter is_valid ar_covers
  by unfold_locales
     (simp_all add: ar_covers_covered ar_covers_accept ar_covers_reject)

lemma ar_covers_empty: "ar_wf ar \<Longrightarrow> \<not> disabled ar \<Longrightarrow> ar_covers ar {}"
  by (simp add: ar_covers_def)

text \<open>
  Starting from a freshly built filter, the marked numbers are exactly the accepted
  ones that are still inside the window.
\<close>

definition ar_exact :: "AntiReplay \<Rightarrow> u64 set \<Rightarrow> bool" where
  "ar_exact ar A \<longleftrightarrow> ar_covers ar A \<and> ar_seen ar \<subseteq> A"

lemma ar_exact_step:
  assumes "ar_exact ar A"
  shows "ar_exact (snd (is_valid ar n)) (if fst (is_valid ar n) then insert n A else A)"
proof (cases "fst (is_valid ar n)")
  case True
  have "ar_wf ar" "\<not> disabled ar"
    using assms by (simp_all add: ar_exact_def ar_covers_def)
  note r = ar_covers_refines(3)[OF this, of n]
  have "ar_seen (snd (is_valid ar n)) \<subseteq> insert n (ar_seen ar)"
    unfolding r by (auto simp: spec_simps)
  then show ?thesis
    using True assms ar_covers_accept[of ar A n] by (auto simp: ar_exact_def)
next
  case False
  then show ?thesis
    using assms ar_covers_reject[of ar A n] by (simp add: ar_exact_def)
qed

lemma ar_exact_run:
  assumes "ar_exact ar A" "accepted is_valid ar ns = (acc, ar')"
  shows "ar_exact ar' (A \<union> set acc)"
  using assms
proof (induction ns arbitrary: ar A acc)
  case (Cons n ns)
  obtain acc' where acc': "accepted is_valid (snd (is_valid ar n)) ns = (acc', ar')"
    "acc = (if fst (is_valid ar n) then n # acc' else acc')"
    using Cons.prems(2)
    by (cases "accepted is_valid (snd (is_valid ar n)) ns") (auto simp: split_beta)
  then show ?case
    using Cons.IH[OF ar_exact_step[OF Cons.prems(1), of n] acc'(1)]
    by (simp split: if_splits)
qed simp

lemma ar_new_exact: "ar_exact (ar_new False rnd) {}"
proof -
  have "ar_seen (ar_new False rnd) = {}"
    using slot_of_less by (auto simp: ar_seen_def ar_new_def ANTI_REPLAY_WINDOW_SIZE_def)
  then show ?thesis
    by (simp add: ar_exact_def ar_covers_empty) (simp add: ar_new_def ar_covers_def inv_simps)
qed

lemma is_valid_max:
  assumes "\<not> disabled ar"
  shows "max_packet_received (snd (is_valid ar n)) =
    (if fst (is_valid ar n) then max (max_packet_received ar) n else max_packet_received ar)"
  using assms by (auto simp: is_valid_def Let_def max_def)

lemma accepted_max:
  assumes "\<not> disabled ar"
  shows "max_packet_received (snd (accepted is_valid ar ns)) =
    Max (insert (max_packet_received ar) (set (fst (accepted is_valid ar ns))))"
  using assms
proof (induction ns arbitrary: ar)
  case (Cons n ns)
  let ?ar = "snd (is_valid ar n)"
  have "max_packet_received (snd (accepted is_valid ?ar ns)) =
      Max (insert (max_packet_received ?ar) (set (fst (accepted is_valid ?ar ns))))"
    using Cons by simp
  then show ?case
    using Cons.prems
    by (cases "set (fst (accepted is_valid ?ar ns)) = {}")
       (simp_all add: split_beta is_valid_max max.assoc)
qed simp


section \<open>Sending side\<close>

text \<open>The numbers the next \<open>n\<close> packets carry.\<close>

fun send_seqs :: "nat \<Rightarrow> AntiReplay \<Rightarrow> u64 list" where
  "send_seqs 0 ar = []"
| "send_seqs (Suc n) ar = (let (s, ar') = next_seq_for_send ar in s # send_seqs n ar')"

lemma send_seqs_eq: "send_seqs n ar = map (\<lambda>i. next_send_seq ar + of_nat i) [0..<n]"
proof (induction n arbitrary: ar)
  case (Suc n)
  have "map (\<lambda>i. next_send_seq ar + of_nat i) [0..<Suc n] =
      next_send_seq ar # map (\<lambda>i. next_send_seq ar + of_nat (Suc i)) [0..<n]"
    by (simp del: upt_Suc add: upt_conv_Cons map_Suc_upt[symmetric] comp_def)
  then show ?case
    by (simp add: next_seq_for_send_def Suc.IH add.assoc)
qed simp

lemma accepted_increasing:
  assumes "\<not> disabled ar" "sorted_wrt (<) (max_packet_received ar # ns)"
  shows "fst (accepted is_valid ar ns) = ns"
  using assms
proof (induction ns arbitrary: ar)
  case (Cons n ns)
  then have "fst (is_valid ar n)" "max_packet_received (snd (is_valid ar n)) = n"
    by (simp_all add: is_valid_new)
  then show ?case
    using Cons by (simp add: split_beta)
qed simp

lemma send_seqs_sorted:
  assumes "unat (next_send_seq ar) + n \<le> 2 ^ 64"
  shows "sorted_wrt (<) (send_seqs n ar)"
proof -
  have "unat (next_send_seq ar + of_nat i) = unat (next_send_seq ar) + i" if "i < n" for i
    using assms that by (simp add: unat_word_ariths unat_of_nat_small)
  then show ?thesis
    by (auto simp: send_seqs_eq sorted_wrt_iff_nth_less word_less_nat_alt)
qed


section \<open>Properties\<close>

text \<open>C2: Once the receive side has been reset (or built), an enabled filter never
  accepts the same sequence number twice, whatever numbers arrive in whatever order,
  and whatever an earlier session left in the window.\<close>

theorem no_seq_accepted_twice:
  assumes "ar_wf ar" "\<not> disabled ar"
  shows "distinct (fst (accepted is_valid (ar_re_init ar) ns)) \<and>
    (\<forall>n \<in> set (fst (accepted is_valid (ar_re_init ar) ns)).
       \<not> fst (is_valid (snd (accepted is_valid (ar_re_init ar) ns)) n))"
proof -
  have "ar_covers (ar_re_init ar) {}"
    using assms by (simp add: ar_covers_empty ar_re_init_def inv_simps)
  then show ?thesis
    using window_filter.run_fresh window_filter.replayed_rejected by blast
qed

theorem no_seq_accepted_twice_witness:
  "ar_wf (ar_new False 70) \<and> \<not> disabled (ar_new False 70) \<and>
   fst (is_valid (ar_re_init (ar_new False 70)) 5) \<and>
   distinct (fst (accepted is_valid (ar_re_init (ar_new False 70)) [5, 3, 5, 3, 9000, 5]))"
proof -
  have st: "ar_wf (ar_new False 70)" "\<not> disabled (ar_new False 70)"
    by simp (simp add: ar_new_def)
  moreover have "fst (is_valid (ar_re_init (ar_new False 70)) 5)"
    by (simp add: is_valid_new ar_new_def ar_re_init_def)
  ultimately show ?thesis
    using no_seq_accepted_twice[OF st, of "[5, 3, 5, 3, 9000, 5]"] by blast
qed

text \<open>C12: Exact acceptance. After any arrivals at a fresh filter, the next number is
  accepted if and only if it is above the highest accepted one, or it is strictly below
  it, within 4000 of it, and has not been accepted before.\<close>

theorem accepted_iff_fresh_in_window:
  assumes "accepted is_valid (ar_new False rnd) ns = (acc, ar)"
  shows "fst (is_valid ar seq) \<longleftrightarrow>
    (let m = Max (insert 0 (set acc))
     in m < seq \<or> seq < m \<and> unat m - unat seq < 4000 \<and> seq \<notin> set acc)"
proof -
  have "ar_exact ar (set acc)"
    using ar_exact_run[OF ar_new_exact assms] by simp
  then have ex: "ar_wf ar" "\<not> disabled ar" "ar_seen ar \<subseteq> set acc"
      "\<And>a. a \<in> set acc \<Longrightarrow> in_window (max_packet_received ar) a \<Longrightarrow> a \<in> ar_seen ar"
    by (auto simp: ar_exact_def ar_covers_def)
  define m where "m = Max (insert 0 (set acc))"
  have "max_packet_received ar = m"
    using accepted_max[of "ar_new False rnd" ns] assms by (simp add: ar_new_def m_def)
  with ex show ?thesis
    unfolding m_def[symmetric] using ar_covers_refines(1)[OF ex(1,2), of seq]
    by (auto simp: spec_simps Let_def in_window_def ANTI_REPLAY_WINDOW_SIZE_def)
qed

theorem accepted_iff_fresh_in_window_witness:
  "accepted is_valid (ar_new False 70) [] = ([], ar_new False 70) \<and>
   fst (is_valid (ar_new False 70) 1) \<and> \<not> fst (is_valid (ar_new False 70) 0)"
proof -
  have "accepted is_valid (ar_new False 70) [] = ([], ar_new False 70)"
    by simp
  from accepted_iff_fresh_in_window[OF this, of 1] accepted_iff_fresh_in_window[OF this, of 0]
  show ?thesis
    by simp
qed

text \<open>C15: The window code refines the abstract filter that stores the set of accepted
  numbers: one call of \<open>is_valid\<close> makes the same decision and moves to the
  corresponding abstract state.\<close>

theorem is_valid_simulates_spec:
  assumes "ar_wf ar" "\<not> disabled ar"
  shows "ar_wf (snd (is_valid ar seq)) \<and>
    map_prod id ar_abs (is_valid ar seq) = spec_check (ar_abs ar) seq"
  using assms is_valid_refines by simp

theorem is_valid_simulates_spec_witness:
  "ar_wf (ar_new False 70) \<and> \<not> disabled (ar_new False 70) \<and>
   map_prod id ar_abs (is_valid (ar_new False 70) 9) = spec_check (ar_abs (ar_new False 70)) 9"
proof -
  have st: "ar_wf (ar_new False 70)" "\<not> disabled (ar_new False 70)"
    by simp (simp add: ar_new_def)
  then show ?thesis
    using is_valid_simulates_spec[OF st, of 9] by blast
qed

text \<open>A sender that starts from a fresh state never reuses a number in its first
  \<open>2 ^ 63\<close> packets, and a fresh receiver that gets them in order accepts every one of
  them (the drawn start is nonzero as soon as the random value is at least ten).\<close>

lemma in_order_stream_accepted:
  assumes "10 \<le> rnd" "n \<le> 2 ^ 63"
  shows "distinct (send_seqs n (ar_new d rnd)) \<and>
    fst (accepted is_valid (ar_new False r) (send_seqs n (ar_new d rnd))) =
      send_seqs n (ar_new d rnd)"
proof -
  have "unat rnd < 2 ^ LENGTH(64)"
    by (rule unsigned_less)
  then have start: "unat (rnd div 10) + n \<le> 2 ^ 64" "0 < unat (rnd div 10)"
    using assms by (auto simp: unat_div word_le_nat_alt div_greater_zero_iff)
  have s: "sorted_wrt (<) (send_seqs n (ar_new d rnd))"
    using start(1) by (intro send_seqs_sorted) (simp add: ar_new_def)
  have "0 < s" if "s \<in> set (send_seqs n (ar_new d rnd))" for s
    using that start
    by (auto simp: send_seqs_eq ar_new_def word_less_nat_alt unat_word_ariths unat_of_nat_small)
  then have "sorted_wrt (<) (max_packet_received (ar_new False r) # send_seqs n (ar_new d rnd))"
    using s by (simp add: ar_new_def)
  then show ?thesis
    using s accepted_increasing[of "ar_new False r"]
    by (auto simp: ar_new_def strict_sorted_iff)
qed

end
