(* ===== verification/Util.thy ===== *)
theory Util
  imports Prelude
begin

text \<open>
  Helpers of \<open>src/src/util.rs\<close>: serial-number comparison, hexadecimal text, the
  xoshiro256** generator with its seeding, the non-zero draw used for connection ids, and
  the pool of packet buffers. Random bytes come from the operating system and are an
  argument.
\<close>


section \<open>Serial-number comparison\<close>

definition larger_than_u32 :: "u32 \<Rightarrow> u32 \<Rightarrow> bool" where
  "larger_than_u32 a b \<longleftrightarrow> sint (a - b) > 0"

definition larger_than_u16 :: "u16 \<Rightarrow> u16 \<Rightarrow> bool" where
  "larger_than_u16 a b \<longleftrightarrow> sint (a - b) > 0"

lemma sint_pos_iff:
  fixes w :: "'a::len word"
  shows "sint w > 0 \<longleftrightarrow> 0 < unat w \<and> unat w < 2 ^ (LENGTH('a) - 1)"
proof -
  have un: "uint w = int (unat w)"
    by simp
  have len: "LENGTH('a) = Suc (LENGTH('a) - 1)"
    by simp
  show ?thesis
  proof
    assume pos: "sint w > 0"
    have lt: "sint w < 2 ^ (LENGTH('a) - 1)"
      using sint_less[of w] by simp
    also have "(2::int) ^ (LENGTH('a) - 1) \<le> 2 ^ LENGTH('a)"
      by (rule power_increasing) simp_all
    finally have "uint w = sint w"
      using pos by (simp add: uint_sint take_bit_int_eq_self)
    then show "0 < unat w \<and> unat w < 2 ^ (LENGTH('a) - 1)"
      using pos lt un by (metis of_nat_0_less_iff of_nat_less_iff of_nat_numeral of_nat_power)
  next
    assume a: "0 < unat w \<and> unat w < 2 ^ (LENGTH('a) - 1)"
    then have "uint w < 2 ^ (LENGTH('a) - 1)"
      using un by (metis of_nat_less_iff of_nat_numeral of_nat_power)
    then have "sint w = uint w"
      using uint_ge_0[of w]
      by (simp add: sint_uint signed_take_bit_int_eq_self order_trans[of _ 0])
    then show "sint w > 0"
      using a un by (metis of_nat_0_less_iff)
  qed
qed

lemma larger_than_u32_iff: "larger_than_u32 a b \<longleftrightarrow> 0 < unat (a - b) \<and> unat (a - b) < 2 ^ 31"
  by (simp only: larger_than_u32_def sint_pos_iff) simp

lemma larger_than_u16_iff: "larger_than_u16 a b \<longleftrightarrow> 0 < unat (a - b) \<and> unat (a - b) < 2 ^ 15"
  by (simp only: larger_than_u16_def sint_pos_iff) simp


section \<open>Hexadecimal text\<close>

definition hex_digits :: string where
  "hex_digits = ''0123456789abcdef''"

fun hex :: "bytes \<Rightarrow> string" where
  "hex [] = []"
| "hex (b # bs) = hex_digits ! unat (drop_bit 4 b) # hex_digits ! unat (b AND 15) # hex bs"

text \<open>\<open>char::to_digit(16)\<close> of the standard library.\<close>

definition to_digit16 :: "char \<Rightarrow> nat option" where
  "to_digit16 c =
     (let n = of_char c :: nat in
      if 48 \<le> n \<and> n \<le> 57 then Some (n - 48)
      else if 97 \<le> n \<and> n \<le> 102 then Some (n - 87)
      else if 65 \<le> n \<and> n \<le> 70 then Some (n - 55)
      else None)"

fun unhex_loop :: "string \<Rightarrow> bytes option" where
  "unhex_loop (a # b # r) =
     (case to_digit16 a of None \<Rightarrow> None | Some hi \<Rightarrow>
      (case to_digit16 b of None \<Rightarrow> None | Some lo \<Rightarrow>
       (case unhex_loop r of None \<Rightarrow> None | Some out \<Rightarrow> Some (of_nat (hi * 16 + lo) # out))))"
| "unhex_loop _ = Some []"

definition unhex :: "string \<Rightarrow> bytes option" where
  "unhex s = (if s = ''-'' then Some [] else if odd (length s) then None else unhex_loop s)"

lemma to_digit16_hex_digits: "n < 16 \<Longrightarrow> to_digit16 (hex_digits ! n) = Some n"
proof -
  have "\<forall>n \<in> set [0..<16]. to_digit16 (hex_digits ! n) = Some n"
    by (simp add: upt_rec to_digit16_def hex_digits_def)
  then show "n < 16 \<Longrightarrow> to_digit16 (hex_digits ! n) = Some n"
    by simp
qed

lemma nibbles:
  fixes b :: u8
  shows "unat (drop_bit 4 b) < 16" "unat (b AND 15) < 16"
    "of_nat (unat (drop_bit 4 b) * 16 + unat (b AND 15)) = b"
proof -
  have b: "unat b < 256"
    using unsigned_less[of b] by simp
  have d: "unat (drop_bit 4 b) = unat b div 16"
    by (simp add: drop_bit_eq_div unat_div)
  have "b AND 15 = b mod 16"
    using take_bit_eq_mask[of 4 b] by (simp add: mask_eq_exp_minus_1 take_bit_eq_mod)
  then have m: "unat (b AND 15) = unat b mod 16"
    by (simp add: unat_mod)
  show "unat (drop_bit 4 b) < 16" "unat (b AND 15) < 16"
    using b d m by simp_all
  show "of_nat (unat (drop_bit 4 b) * 16 + unat (b AND 15)) = b"
    unfolding d m by simp
qed

lemma unhex_loop_hex: "unhex_loop (hex bs) = Some bs"
  by (induction bs) (simp_all add: to_digit16_hex_digits nibbles del: of_nat_add of_nat_mult)

lemma unhex_hex: "unhex (hex bs) = Some bs"
proof -
  have "even (length (hex bs))"
    by (induction bs) simp_all
  moreover from this have "hex bs \<noteq> ''-''"
    by auto
  ultimately show ?thesis
    by (simp add: unhex_def unhex_loop_hex)
qed


section \<open>xoshiro256**\<close>

record Xoshiro256 =
  s0 :: u64
  s1 :: u64
  s2 :: u64
  s3 :: u64

definition rotate_left64 :: "u64 \<Rightarrow> nat \<Rightarrow> u64" where
  "rotate_left64 w n = push_bit n w OR drop_bit (64 - n) w"

definition le64 :: "bytes \<Rightarrow> u64" where
  "le64 b = of_be64 (b ! 7) (b ! 6) (b ! 5) (b ! 4) (b ! 3) (b ! 2) (b ! 1) (b ! 0)"

definition xo_from_os :: "bytes \<Rightarrow> Xoshiro256" where
  "xo_from_os seed =
     (let w = (\<lambda>i. le64 (take 8 (drop (i * 8) seed))) in
      if w 0 = 0 \<and> w 1 = 0 \<and> w 2 = 0 \<and> w 3 = 0
      then \<lparr> s0 = 0x9E3779B97F4A7C15, s1 = 0, s2 = 0, s3 = 0 \<rparr>
      else \<lparr> s0 = w 0, s1 = w 1, s2 = w 2, s3 = w 3 \<rparr>)"

definition next_u64 :: "Xoshiro256 \<Rightarrow> u64 \<times> Xoshiro256" where
  "next_u64 g =
     (let result = rotate_left64 (s1 g * 5) 7 * 9;
          t = push_bit 17 (s1 g);
          g1 = g\<lparr> s2 := s2 g XOR s0 g \<rparr>;
          g2 = g1\<lparr> s3 := s3 g1 XOR s1 g1 \<rparr>;
          g3 = g2\<lparr> s1 := s1 g2 XOR s2 g2 \<rparr>;
          g4 = g3\<lparr> s0 := s0 g3 XOR s3 g3 \<rparr>;
          g5 = g4\<lparr> s2 := s2 g4 XOR t \<rparr>;
          g6 = g5\<lparr> s3 := rotate_left64 (s3 g5) 45 \<rparr>
      in (result, g6))"

definition next_u32 :: "Xoshiro256 \<Rightarrow> u32 \<times> Xoshiro256" where
  "next_u32 g = (case next_u64 g of (r, g') \<Rightarrow> (ucast (drop_bit 32 r), g'))"

definition xo_zero :: "Xoshiro256 \<Rightarrow> bool" where
  "xo_zero g \<longleftrightarrow> s0 g = 0 \<and> s1 g = 0 \<and> s2 g = 0 \<and> s3 g = 0"

lemma rotate_left64_zero:
  assumes "rotate_left64 w n = 0" "n < 64"
  shows "w = 0"
proof (rule bit_word_eqI)
  fix i
  assume i: "i < LENGTH(64)"
  have z: "\<not> bit (rotate_left64 w n) j" for j
    using assms(1) by simp
  show "bit w i = bit 0 i"
  proof (cases "i + n < 64")
    case True
    then show ?thesis
      using z[of "i + n"] by (simp add: rotate_left64_def bit_simps)
  next
    case False
    then show ?thesis
      using z[of "i + n - 64"] i assms(2) by (simp add: rotate_left64_def bit_simps)
  qed
qed

lemma shl_fixpoint_zero:
  fixes w :: u64
  assumes "w = push_bit 17 w"
  shows "w = 0"
proof (rule bit_word_eqI)
  fix i
  have "\<not> bit w i" for i
  proof (induction i rule: less_induct)
    case (less i)
    have "bit w i = bit (push_bit 17 w) i"
      using assms by simp
    then show ?case
      using less[of "i - 17"] by (auto simp: bit_simps)
  qed
  then show "bit w i = bit 0 i"
    by simp
qed

lemma next_u64_nonzero:
  assumes "\<not> xo_zero g"
  shows "\<not> xo_zero (snd (next_u64 g))"
proof
  assume z: "xo_zero (snd (next_u64 g))"
  let ?t = "push_bit 17 (s1 g)"
  have e: "s0 g XOR (s3 g XOR s1 g) = 0" "s1 g XOR (s2 g XOR s0 g) = 0"
      "(s2 g XOR s0 g) XOR ?t = 0" "rotate_left64 (s3 g XOR s1 g) 45 = 0"
    using z by (simp_all add: xo_zero_def next_u64_def Let_def)
  have eq: "a = b" if "a XOR b = 0" for a b :: u64
    using that by (metis xor_cancel_left xor.right_neutral)
  have 31: "s3 g = s1 g"
    using rotate_left64_zero[OF e(4)] eq by simp
  then have 0: "s0 g = 0"
    using e(1) by simp
  then have 12: "s1 g = s2 g"
    using e(2) eq by simp
  then have "s1 g = ?t"
    using e(3) 0 eq by simp
  then have "s1 g = 0"
    by (rule shl_fixpoint_zero)
  then show False
    using assms 0 31 12 by (simp add: xo_zero_def)
qed

lemma xo_from_os_nonzero: "\<not> xo_zero (xo_from_os seed)"
  by (auto simp: xo_from_os_def xo_zero_def Let_def)


section \<open>Drawing a non-zero id\<close>

text \<open>The loop of \<open>secure_random_u32_nz\<close> over the stream of operating-system draws, from
  position \<open>pos\<close>; \<open>None\<close> is a loop that never ends.\<close>

partial_function (option) secure_random_u32_nz :: "(nat \<Rightarrow> u32) \<Rightarrow> nat \<Rightarrow> (u32 \<times> nat) option" where
  "secure_random_u32_nz draw pos =
     (if draw pos \<noteq> 0 then Some (draw pos, Suc pos) else secure_random_u32_nz draw (Suc pos))"

lemma secure_random_u32_nz_nonzero:
  "secure_random_u32_nz draw pos = Some (v, pos') \<Longrightarrow> v \<noteq> 0"
proof -
  assume "secure_random_u32_nz draw pos = Some (v, pos')"
  then have "fst (v, pos') \<noteq> 0"
    by (rule secure_random_u32_nz.raw_induct[where P = "\<lambda>d p r. fst r \<noteq> 0", rotated])
       (auto split: if_splits)
  then show "v \<noteq> 0"
    by simp
qed

lemma secure_random_u32_nz_returns:
  assumes "draw (pos + k) \<noteq> 0"
  shows "\<exists>v pos'. secure_random_u32_nz draw pos = Some (v, pos')"
  using assms
proof (induction k arbitrary: pos)
  case (Suc k)
  then show ?case
    using Suc.IH[of "Suc pos"] by (subst secure_random_u32_nz.simps) simp
qed (subst secure_random_u32_nz.simps, simp)


section \<open>Buffer pool\<close>

text \<open>A buffer is its contents and its capacity.\<close>

record Buf =
  b_data :: bytes
  b_cap :: nat

record BufPool =
  bp_free :: "Buf list"
  bp_buf_cap :: nat
  bp_max_free :: nat

definition bp_new :: "nat \<Rightarrow> nat \<Rightarrow> BufPool" where
  "bp_new cap mx = \<lparr> bp_free = [], bp_buf_cap = cap, bp_max_free = mx \<rparr>"

definition bp_take :: "BufPool \<Rightarrow> Buf \<times> BufPool" where
  "bp_take p = (case bp_free p of [] \<Rightarrow> (\<lparr> b_data = [], b_cap = bp_buf_cap p \<rparr>, p)
     | b # r \<Rightarrow> (b, p\<lparr> bp_free := r \<rparr>))"

definition bp_recycle :: "Buf \<Rightarrow> BufPool \<Rightarrow> BufPool" where
  "bp_recycle b p = (if length (bp_free p) < bp_max_free p \<and> b_cap b \<ge> bp_buf_cap p
     then p\<lparr> bp_free := b\<lparr> b_data := [] \<rparr> # bp_free p \<rparr> else p)"

definition bp_wf :: "BufPool \<Rightarrow> bool" where
  "bp_wf p \<longleftrightarrow> length (bp_free p) \<le> bp_max_free p \<and>
     (\<forall>b \<in> set (bp_free p). b_data b = [] \<and> bp_buf_cap p \<le> b_cap b)"

lemma bp_wf_new: "bp_wf (bp_new c m)"
  by (simp add: bp_wf_def bp_new_def)

lemma bp_wf_take:
  assumes "bp_wf p" "bp_take p = (b, p')"
  shows "bp_wf p' \<and> b_data b = [] \<and> bp_buf_cap p \<le> b_cap b"
  using assms by (auto simp: bp_wf_def bp_take_def split: list.splits)

lemma bp_wf_recycle: "bp_wf p \<Longrightarrow> bp_wf (bp_recycle b p)"
  by (auto simp: bp_wf_def bp_recycle_def)


section \<open>Properties\<close>

text \<open>C28: The fast generator never gets stuck: from any operating-system seed, even an
  all-zero one, no number of draws reaches the all-zero state in which xoshiro would only
  return zeros.\<close>

theorem xoshiro_never_stuck:
  "\<not> xo_zero (((\<lambda>g. snd (next_u64 g)) ^^ n) (xo_from_os seed))"
  by (induction n) (simp_all add: xo_from_os_nonzero next_u64_nonzero)

end
