(* ===== verification/Checksum.thy ===== *)
theory Checksum
  imports Prelude
begin

text \<open>
  Internet checksum of \<open>src/src/packet/checksum.rs\<close>: the 32-bit accumulator over
  big-endian words, the two-step fold, and verification. The main fact is that storing the
  checksum into a zeroed, even-aligned field makes the whole text verify.
\<close>


section \<open>Model\<close>

fun sum_words :: "u32 \<Rightarrow> bytes \<Rightarrow> u32" where
  "sum_words acc (a # b # r) = sum_words (acc + ucast (of_be16 a b)) r"
| "sum_words acc [z] = acc + push_bit 8 (ucast z)"
| "sum_words acc [] = acc"

definition csum_fold :: "u32 \<Rightarrow> u16" where
  "csum_fold acc0 =
     (let acc1 = drop_bit 16 acc0 + (acc0 AND 0xffff);
          acc2 = acc1 + drop_bit 16 acc1
      in NOT (ucast acc2))"

definition csum :: "bytes \<Rightarrow> u16" where
  "csum d = csum_fold (sum_words 0 d)"

definition csum_with_pseudo :: "bytes \<Rightarrow> bytes \<Rightarrow> u16" where
  "csum_with_pseudo pseudo d = csum_fold (sum_words (sum_words 0 pseudo) d)"

definition csum_verify :: "bytes \<Rightarrow> bool" where
  "csum_verify d \<longleftrightarrow> csum d = 0"

definition verify_with_pseudo :: "bytes \<Rightarrow> bytes \<Rightarrow> bool" where
  "verify_with_pseudo pseudo d \<longleftrightarrow> csum_with_pseudo pseudo d = 0"


section \<open>The sum as a natural number\<close>

fun nsum :: "bytes \<Rightarrow> nat" where
  "nsum (a # b # r) = 256 * unat a + unat b + nsum r"
| "nsum [z] = 256 * unat z"
| "nsum [] = 0"

lemma unat8_less: "unat (b :: u8) < 256"
  using unsigned_less[of b] by simp

lemma unat_of_be16: "unat (of_be16 a b) = 256 * unat a + unat b"
proof -
  have "push_bit 8 (ucast a :: u16) AND ucast b = 0"
    by (rule bit_word_eqI) (auto simp: bit_simps dest: bit_imp_le_length)
  then have "of_be16 a b = push_bit 8 (ucast a) + ucast b"
    by (simp add: of_be16_def bcat_def disjunctive_add_eq_or)
  also have "\<dots> = 256 * ucast a + ucast b"
    by (simp add: push_bit_eq_mult)
  finally have eq: "of_be16 a b = 256 * ucast a + ucast b" .
  have u: "unat (ucast a :: u16) = unat a" "unat (ucast b :: u16) = unat b"
    by (simp_all add: unat_ucast_up)
  have "256 * unat a + unat b < 65536"
    using unat8_less[of a] unat8_less[of b] by simp
  then show ?thesis
    by (simp add: eq unat_word_ariths u)
qed

lemma nsum_bound: "nsum d \<le> 65535 * ((length d + 1) div 2)"
proof (induction d rule: nsum.induct)
  case (1 a b r)
  have "(length (a # b # r) + 1) div 2 = (length r + 1) div 2 + 1"
    by simp
  then show ?case
    using 1 unat8_less[of a] unat8_less[of b] by simp
next
  case (2 z)
  then show ?case
    using unat8_less[of z] by simp
qed simp

lemma nsum_append: "even (length a) \<Longrightarrow> nsum (a @ b) = nsum a + nsum b"
  by (induction a rule: nsum.induct) auto

lemma nsum_be16 [simp]: "nsum (be16 v) = unat v"
proof -
  have "unat v = unat (of_be16 (ucast (drop_bit 8 v)) (ucast v))"
    by (simp add: of_be16_be16)
  then show ?thesis
    by (simp add: be16_def unat_of_be16)
qed

lemma unat_sum_words:
  "unat acc + nsum d < 2 ^ 32 \<Longrightarrow> unat (sum_words acc d) = unat acc + nsum d"
proof (induction acc d rule: sum_words.induct)
  case (1 acc a b r)
  have u: "unat (ucast (of_be16 a b) :: u32) = 256 * unat a + unat b"
    by (simp add: unat_ucast_up unat_of_be16)
  have "unat (acc + ucast (of_be16 a b)) = unat acc + (256 * unat a + unat b)"
    using 1(2) by (simp add: unat_word_ariths u)
  then show ?case
    using 1 by simp
next
  case (2 acc z)
  have "unat (push_bit 8 (ucast z :: u32)) = 256 * unat z"
    using unat8_less[of z] by (simp add: push_bit_eq_mult unat_word_ariths unat_ucast_up)
  then show ?case
    using 2 by (simp add: unat_word_ariths)
qed simp


section \<open>Folding is reduction modulo 65535\<close>

definition fold_nat :: "nat \<Rightarrow> nat" where
  "fold_nat n = (let a = n div 65536 + n mod 65536 in (a + a div 65536) mod 65536)"

lemma unat_csum_fold:
  "unat (csum_fold w) = 65535 - fold_nat (unat w)"
proof -
  let ?n = "unat w"
  have n: "?n < 2 ^ 32"
    using unsigned_less[of w] by simp
  have d: "unat (drop_bit 16 v) = unat v div 65536" for v :: u32
    by (simp add: drop_bit_eq_div unat_div)
  have "w AND 0xffff = take_bit 16 w"
    by (simp add: take_bit_eq_mask mask_eq_exp_minus_1)
  then have m: "unat (w AND 0xffff) = ?n mod 65536"
    by (simp add: take_bit_eq_mod unat_mod)
  define acc1 where "acc1 = drop_bit 16 w + (w AND 0xffff)"
  have a: "unat acc1 = ?n div 65536 + ?n mod 65536"
    using n by (simp add: acc1_def unat_word_ariths d m)
  define acc2 where "acc2 = acc1 + drop_bit 16 acc1"
  have b: "unat acc2 = unat acc1 + unat acc1 div 65536"
    using n a by (simp add: acc2_def unat_word_ariths d)
  have "unat (ucast acc2 :: u16) = fold_nat ?n"
    by (simp add: unsigned_ucast_eq take_bit_eq_mod b a fold_nat_def Let_def)
  moreover have "csum_fold w = NOT (ucast acc2)"
    by (simp add: csum_fold_def Let_def acc1_def acc2_def)
  moreover have "unat (NOT (x :: u16)) = 65535 - unat x" for x
  proof -
    have "NOT x = - 1 - x"
      by (simp add: not_eq_complement)
    then show ?thesis
      using unat_sub[of x "-1"] by (simp add: unsigned_minus_1_eq_mask mask_eq_exp_minus_1)
  qed
  ultimately show ?thesis
    by simp
qed

lemma fold_nat_le: "fold_nat n \<le> 65535"
  by (simp add: fold_nat_def Let_def) 

lemma fold_nat_cases:
  assumes "n < 2 ^ 32"
  defines "a \<equiv> n div 65536 + n mod 65536"
  shows "fold_nat n = (if a < 65536 then a else a - 65535)"
proof -
  have "a \<le> 131070"
    using assms by (simp add: a_def)
  show ?thesis
  proof (cases "a < 65536")
    case False
    then have "a div 65536 = 1"
      using \<open>a \<le> 131070\<close> by (intro div_nat_eqI) simp_all
    then have "(a + a div 65536) mod 65536 = a - 65535"
      using \<open>a \<le> 131070\<close> False by (simp add: mod_if)
    then show ?thesis
      using False by (simp add: fold_nat_def a_def Let_def)
  qed (simp add: fold_nat_def a_def Let_def)
qed

lemma fold_nat_mod:
  assumes "n < 2 ^ 32"
  shows "fold_nat n mod 65535 = n mod 65535"
proof -
  define q r where "q = n div 65536" and "r = n mod 65536"
  then have n: "n = 65535 * q + (q + r)"
    by simp
  then have "n mod 65535 = (q + r) mod 65535"
    by (metis mod_mult_self4)
  moreover have "fold_nat n = (if q + r < 65536 then q + r else q + r - 65535)"
    using fold_nat_cases[OF assms] by (simp add: q_def r_def)
  ultimately show ?thesis
    by (simp add: le_mod_geq)
qed

lemma fold_nat_pos:
  assumes "n < 2 ^ 32" "0 < n"
  shows "0 < fold_nat n"
proof -
  have "0 < n div 65536 + n mod 65536"
    using assms(2) by (metis add_is_0 bot_nat_0.not_eq_extremum div_mult_mod_eq mult_0)
  then show ?thesis
    using fold_nat_cases[OF assms(1)] by (auto split: if_splits)
qed

text \<open>Adding the complement of the fold makes the fold all ones.\<close>

lemma fold_nat_complement:
  assumes "n + 65535 < 2 ^ 32"
  shows "fold_nat (n + (65535 - fold_nat n)) = 65535"
proof -
  let ?m = "n + (65535 - fold_nat n)"
  have lt: "?m < 2 ^ 32" "n < 2 ^ 32"
    using assms by simp_all
  have "0 < ?m"
    using fold_nat_le[of 0] by (cases "n = 0") (simp_all add: fold_nat_def)
  then have pos: "0 < fold_nat ?m"
    by (rule fold_nat_pos[OF lt(1)])
  have "?m mod 65535 = (fold_nat n + (65535 - fold_nat n)) mod 65535"
    by (rule mod_add_cong[OF fold_nat_mod[OF lt(2), symmetric] refl])
  also have "\<dots> = 0"
    using fold_nat_le[of n] by simp
  finally have z: "fold_nat ?m mod 65535 = 0"
    by (simp only: fold_nat_mod[OF lt(1)])
  have "0 < x \<Longrightarrow> x \<le> 65535 \<Longrightarrow> x mod 65535 = 0 \<Longrightarrow> x = 65535" for x :: nat
    by (cases "x = 65535") simp_all
  from this[OF pos fold_nat_le z] show ?thesis .
qed


section \<open>Filling in a checksum field\<close>

lemma csum_field_verifies:
  assumes "even (length pre)" "nsum (pre @ [0, 0] @ post) + 65535 < 2 ^ 32"
  shows "csum_fold (sum_words 0 (pre @ be16 (csum_fold (sum_words 0 (pre @ [0, 0] @ post))) @ post)) = 0"
proof -
  let ?n = "nsum (pre @ [0, 0] @ post)"
  let ?c = "csum_fold (sum_words 0 (pre @ [0, 0] @ post))"
  have "unat (sum_words 0 (pre @ [0, 0] @ post)) = ?n"
    using assms(2) unat_sum_words[of 0 "pre @ [0, 0] @ post"] by simp
  then have c: "unat ?c = 65535 - fold_nat ?n"
    using unat_csum_fold by metis
  have "nsum (pre @ be16 ?c @ post) = ?n + unat ?c"
    using assms(1) nsum_append[of "be16 ?c" post] by (simp add: nsum_append)
  then have n: "nsum (pre @ be16 ?c @ post) = ?n + (65535 - fold_nat ?n)"
    using c by simp
  then have "unat (sum_words 0 (pre @ be16 ?c @ post)) = ?n + (65535 - fold_nat ?n)"
    using assms(2) unat_sum_words[of 0 "pre @ be16 ?c @ post"] by simp
  then have "unat (csum_fold (sum_words 0 (pre @ be16 ?c @ post))) = 0"
    using fold_nat_complement[OF assms(2)] by (simp add: unat_csum_fold)
  then show ?thesis
    by (simp add: unat_eq_0)
qed

lemma sum_words_append: "even (length a) \<Longrightarrow> sum_words acc (a @ b) = sum_words (sum_words acc a) b"
  by (induction acc a rule: sum_words.induct) auto

lemma csum_verifies:
  assumes "even (length pre)" "length pre + length post \<le> 131000"
  shows "csum_verify (pre @ be16 (csum (pre @ [0, 0] @ post)) @ post)"
proof -
  have "nsum (pre @ [0, 0] @ post) + 65535 < 2 ^ 32"
    using nsum_bound[of "pre @ [0, 0] @ post"] assms(2) by simp
  then show ?thesis
    using csum_field_verifies[OF assms(1)] by (simp add: csum_verify_def csum_def)
qed

lemma csum_with_pseudo_app:
  "even (length pseudo) \<Longrightarrow> csum_with_pseudo pseudo d = csum (pseudo @ d)"
  by (simp add: csum_with_pseudo_def csum_def sum_words_append)

lemma pseudo_csum_verifies:
  assumes "even (length pseudo)" "even (length pre)" "length pseudo + length pre + length post \<le> 131000"
  shows "verify_with_pseudo pseudo (pre @ be16 (csum_with_pseudo pseudo (pre @ [0, 0] @ post)) @ post)"
  using assms csum_verifies[of "pseudo @ pre" post]
  by (simp add: verify_with_pseudo_def csum_with_pseudo_app csum_verify_def)

end
