(* ===== verification/Packet.thy ===== *)
theory Packet
  imports Checksum
begin

text \<open>
  Network packets of \<open>src/src/packet\<close>: IPv4 and IPv6 headers (\<open>ip.rs\<close>), raw UDP
  datagrams (\<open>udp.rs\<close>), FakeTCP segments with their options (\<open>tcp.rs\<close>) and ICMP echo
  packets (\<open>icmp.rs\<close>). A builder appends to the buffer \<open>out\<close>; a parser is an evaluation
  that may panic. An address is kept as its big-endian value, an IPv6 address in two halves.
\<close>


section \<open>Addresses and IP headers (ip.rs)\<close>

datatype IpAddr = V4 u32 | V6 u64 u64

fun is_ipv6 :: "IpAddr \<Rightarrow> bool" where
  "is_ipv6 (V4 a) = False"
| "is_ipv6 (V6 a b) = True"

fun octets :: "IpAddr \<Rightarrow> bytes" where
  "octets (V4 a) = be32 a"
| "octets (V6 a b) = be64 a @ be64 b"

definition IPV4_HEADER_LEN :: nat where "IPV4_HEADER_LEN = 20"
definition IPV6_HEADER_LEN :: nat where "IPV6_HEADER_LEN = 40"
definition IPPROTO_ICMP :: u8 where "IPPROTO_ICMP = 1"
definition IPPROTO_TCP :: u8 where "IPPROTO_TCP = 6"
definition IPPROTO_UDP :: u8 where "IPPROTO_UDP = 17"
definition IPPROTO_ICMPV6 :: u8 where "IPPROTO_ICMPV6 = 58"

fun build_ip_header :: "bytes \<Rightarrow> IpAddr \<Rightarrow> IpAddr \<Rightarrow> u8 \<Rightarrow> u8 \<Rightarrow> u16 \<Rightarrow> nat \<Rightarrow> bytes eval" where
  "build_ip_header out (V4 s) (V4 d) protocol ttl ident payload_len =
     (let tot = of_nat (IPV4_HEADER_LEN + payload_len) :: u16;
          h = [0x45, 0] @ be16 tot @ be16 ident @ be16 0x4000 @ [ttl, protocol] @ [0, 0] @
              octets (V4 s) @ octets (V4 d)
      in Ret (out @ overwrite h 10 (be16 (csum h))))"
| "build_ip_header out (V6 s1 s2) (V6 d1 d2) protocol ttl ident payload_len =
     Ret (out @ [0x60, 0, 0, 0] @ be16 (of_nat payload_len) @ [protocol, ttl] @
       octets (V6 s1 s2) @ octets (V6 d1 d2))"
| "build_ip_header out _ _ protocol ttl ident payload_len = Panic"

record ParsedIp =
  pi_src :: IpAddr
  pi_dst :: IpAddr
  pi_protocol :: u8
  pi_header_len :: nat
  pi_total_len :: nat

definition ip_payload :: "ParsedIp \<Rightarrow> bytes \<Rightarrow> bytes eval" where
  "ip_payload p buf = subslice buf (pi_header_len p) (pi_total_len p)"

definition ipv4_at :: "bytes \<Rightarrow> nat \<Rightarrow> IpAddr eval" where
  "ipv4_at buf i = rbind (subslice buf i (i + 4)) (\<lambda>q.
     rbind (read_u32_be q) (\<lambda>a. Ret (V4 a)))"

definition ipv6_at :: "bytes \<Rightarrow> nat \<Rightarrow> IpAddr eval" where
  "ipv6_at buf i = rbind (subslice buf i (i + 16)) (\<lambda>q.
     rbind (read_u64_be q) (\<lambda>a. rbind (rbind (slice_from q 8) read_u64_be) (\<lambda>b. Ret (V6 a b))))"

definition parse_ipv4 :: "bytes \<Rightarrow> bool \<Rightarrow> ParsedIp option eval" where
  "parse_ipv4 buf verify_csum =
     (if length buf < IPV4_HEADER_LEN then Ret None
      else rbind (idx buf 0) (\<lambda>b0.
      let ihl = unat (b0 AND 0x0f) * 4 in
      if ihl < IPV4_HEADER_LEN \<or> ihl > length buf then Ret None
      else rbind (idx buf 2) (\<lambda>b2. rbind (idx buf 3) (\<lambda>b3.
      let tot_len = unat (of_be16 b2 b3) in
      if length buf < tot_len \<or> tot_len < ihl then Ret None
      else rbind (subslice buf 0 ihl) (\<lambda>hdr.
      if verify_csum \<and> \<not> csum_verify hdr then Ret None
      else rbind (ipv4_at buf 12) (\<lambda>src. rbind (ipv4_at buf 16) (\<lambda>dst. rbind (idx buf 9) (\<lambda>proto.
        Ret (Some \<lparr> pi_src = src, pi_dst = dst, pi_protocol = proto, pi_header_len = ihl,
          pi_total_len = tot_len \<rparr>)))))))))"

definition parse_ipv6 :: "bytes \<Rightarrow> ParsedIp option eval" where
  "parse_ipv6 buf =
     (if length buf < IPV6_HEADER_LEN then Ret None
      else rbind (idx buf 4) (\<lambda>b4. rbind (idx buf 5) (\<lambda>b5.
      let tot = IPV6_HEADER_LEN + unat (of_be16 b4 b5) in
      if length buf < tot then Ret None
      else rbind (ipv6_at buf 8) (\<lambda>src. rbind (ipv6_at buf 24) (\<lambda>dst. rbind (idx buf 6) (\<lambda>proto.
        Ret (Some \<lparr> pi_src = src, pi_dst = dst, pi_protocol = proto,
          pi_header_len = IPV6_HEADER_LEN, pi_total_len = tot \<rparr>)))))))"

definition parse_ip :: "bytes \<Rightarrow> bool \<Rightarrow> bool \<Rightarrow> ParsedIp option eval" where
  "parse_ip buf want_v6 verify_csum =
     (if buf = [] then Ret None
      else rbind (idx buf 0) (\<lambda>b0.
        let version = drop_bit 4 b0 in
        if \<not> want_v6 then (if version \<noteq> 4 then Ret None else parse_ipv4 buf verify_csum)
        else (if version \<noteq> 6 then Ret None else parse_ipv6 buf)))"

fun pseudo_header :: "IpAddr \<Rightarrow> IpAddr \<Rightarrow> u8 \<Rightarrow> nat \<Rightarrow> bytes eval" where
  "pseudo_header (V4 s) (V4 d) protocol transport_len =
     Ret (octets (V4 s) @ octets (V4 d) @ [0, protocol] @ be16 (of_nat transport_len))"
| "pseudo_header (V6 s1 s2) (V6 d1 d2) protocol transport_len =
     Ret (octets (V6 s1 s2) @ octets (V6 d1 d2) @ be16 (of_nat transport_len) @ [0, 0] @ [0, 0, 0] @
       [protocol])"
| "pseudo_header _ _ protocol transport_len = Panic"


section \<open>UDP datagrams (udp.rs)\<close>

definition UDP_HEADER_LEN :: nat where "UDP_HEADER_LEN = 8"

definition build_udp ::
  "bytes \<Rightarrow> IpAddr \<Rightarrow> IpAddr \<Rightarrow> u16 \<Rightarrow> u16 \<Rightarrow> bytes \<Rightarrow> (bytes \<times> nat) option eval" where
  "build_udp out src dst src_port dst_port payload =
     (let tot = UDP_HEADER_LEN + length payload in
      if tot > 65535 then Ret None
      else
        let seg = be16 src_port @ be16 dst_port @ be16 (of_nat tot) @ [0, 0] @ payload in
        rbind (pseudo_header src dst IPPROTO_UDP tot) (\<lambda>pseudo.
          Ret (Some (out @ overwrite seg 6 (be16 (csum_with_pseudo pseudo seg)), tot))))"

definition parse_udp :: "bytes \<Rightarrow> IpAddr \<Rightarrow> IpAddr \<Rightarrow> (u16 \<times> u16 \<times> bytes) option eval" where
  "parse_udp seg src dst =
     (if length seg < UDP_HEADER_LEN then Ret None
      else rbind (idx seg 4) (\<lambda>b4. rbind (idx seg 5) (\<lambda>b5.
      if unat (of_be16 b4 b5) \<noteq> length seg then Ret None
      else rbind (pseudo_header src dst IPPROTO_UDP (length seg)) (\<lambda>pseudo.
      if \<not> verify_with_pseudo pseudo seg then Ret None
      else rbind (read_u16_be seg) (\<lambda>sp. rbind (rbind (slice_from seg 2) read_u16_be) (\<lambda>dp.
           rbind (slice_from seg UDP_HEADER_LEN) (\<lambda>d. Ret (Some (sp, dp, d)))))))))"


section \<open>FakeTCP segments (tcp.rs)\<close>

definition TCP_MIN_HEADER :: nat where "TCP_MIN_HEADER = 20"
definition SYN_MSS :: u16 where "SYN_MSS = 1460"
definition WSCALE :: u8 where "WSCALE = 5"

record TcpSendParams =
  tp_src_port :: u16
  tp_dst_port :: u16
  tp_seq :: u32
  tp_ack_seq :: u32
  tp_syn :: bool
  tp_ack :: bool
  tp_psh :: bool
  tp_window :: u16
  tp_ts :: u32
  tp_ts_ack :: u32

definition tcp_flags :: "TcpSendParams \<Rightarrow> u8" where
  "tcp_flags p =
     (let f0 = 0;
          f1 = (if tp_syn p then f0 OR 0x02 else f0);
          f2 = (if tp_psh p then f1 OR 0x08 else f1)
      in if tp_ack p then f2 OR 0x10 else f2)"

definition tcp_options :: "TcpSendParams \<Rightarrow> bytes" where
  "tcp_options p =
     (if tp_syn p then
        [0x02, 0x04] @ be16 SYN_MSS @ [0x04, 0x02] @
        [0x08, 0x0a] @ be32 (tp_ts p) @ be32 (tp_ts_ack p) @ [0x01, 0x03, 0x03, WSCALE]
      else [0x01, 0x01, 0x08, 0x0a] @ be32 (tp_ts p) @ be32 (tp_ts_ack p))"

definition build_tcp ::
  "bytes \<Rightarrow> IpAddr \<Rightarrow> IpAddr \<Rightarrow> TcpSendParams \<Rightarrow> bytes \<Rightarrow> (bytes \<times> nat) eval" where
  "build_tcp out src dst p payload =
     (let doff = (if tp_syn p then 10 else 8); hlen = doff * 4;
          seg = be16 (tp_src_port p) @ be16 (tp_dst_port p) @ be32 (tp_seq p) @ be32 (tp_ack_seq p) @
                [push_bit 4 (of_nat doff), tcp_flags p] @ be16 (tp_window p) @ [0, 0] @ [0, 0] @
                tcp_options p @ payload;
          seg_len = hlen + length payload
      in rbind (pseudo_header src dst IPPROTO_TCP seg_len) (\<lambda>pseudo.
           Ret (out @ overwrite seg 16 (be16 (csum_with_pseudo pseudo seg)), seg_len)))"

record ParsedTcp =
  pt_src_port :: u16
  pt_dst_port :: u16
  pt_seq :: u32
  pt_ack_seq :: u32
  pt_syn :: bool
  pt_ack :: bool
  pt_psh :: bool
  pt_rst :: bool
  pt_has_ts :: bool
  pt_ts :: u32
  pt_ts_ack :: u32
  pt_header_len :: nat
  pt_csum_ok :: bool

function parse_options_loop :: "bytes \<Rightarrow> nat \<Rightarrow> ParsedTcp \<Rightarrow> ParsedTcp eval" where
  "parse_options_loop opt i t =
     (if i < length opt then
        rbind (idx opt i) (\<lambda>k.
        if k = 0 then Ret t
        else if k = 1 then parse_options_loop opt (i + 1) t
        else if k = 8 then
          (if i + 1 \<ge> length opt then Ret t
           else rbind (idx opt (i + 1)) (\<lambda>l.
             if l \<noteq> 10 \<or> i + 10 > length opt then Ret t
             else rbind (rbind (slice_from opt (i + 2)) read_u32_be) (\<lambda>ts.
                  rbind (rbind (slice_from opt (i + 6)) read_u32_be) (\<lambda>ts_ack.
                  parse_options_loop opt (i + 10)
                    (t\<lparr> pt_has_ts := True, pt_ts := ts, pt_ts_ack := ts_ack \<rparr>)))))
        else
          (if i + 1 \<ge> length opt then Ret t
           else rbind (idx opt (i + 1)) (\<lambda>l.
             if unat l \<le> 1 then Ret t else parse_options_loop opt (i + unat l) t)))
      else Ret t)"
  by pat_completeness auto
termination by (relation "measure (\<lambda>(opt, i, t). length opt - i)") auto

declare parse_options_loop.simps [simp del]

definition parse_options :: "bytes \<Rightarrow> ParsedTcp \<Rightarrow> ParsedTcp eval" where
  "parse_options opt t = parse_options_loop opt 0 (t\<lparr> pt_has_ts := False, pt_ts := 0 \<rparr>)"

definition parse_tcp :: "bytes \<Rightarrow> IpAddr \<Rightarrow> IpAddr \<Rightarrow> (ParsedTcp \<times> bytes) option eval" where
  "parse_tcp seg src dst =
     (if length seg < TCP_MIN_HEADER then Ret None
      else rbind (idx seg 12) (\<lambda>b12.
      let hlen = unat (drop_bit 4 b12) * 4 in
      if hlen = 0 \<or> hlen > 60 \<or> hlen > length seg then Ret None
      else rbind (pseudo_header src dst IPPROTO_TCP (length seg)) (\<lambda>pseudo.
      let csum_ok = verify_with_pseudo pseudo seg in
      rbind (idx seg 13) (\<lambda>flags.
      rbind (read_u16_be seg) (\<lambda>sp.
      rbind (rbind (slice_from seg 2) read_u16_be) (\<lambda>dp.
      rbind (rbind (slice_from seg 4) read_u32_be) (\<lambda>sq.
      rbind (rbind (slice_from seg 8) read_u32_be) (\<lambda>ak.
      let t = \<lparr> pt_src_port = sp, pt_dst_port = dp, pt_seq = sq, pt_ack_seq = ak,
                pt_syn = (flags AND 0x02 \<noteq> 0), pt_ack = (flags AND 0x10 \<noteq> 0),
                pt_psh = (flags AND 0x08 \<noteq> 0), pt_rst = (flags AND 0x04 \<noteq> 0),
                pt_has_ts = False, pt_ts = 0, pt_ts_ack = 0, pt_header_len = hlen,
                pt_csum_ok = csum_ok \<rparr>
      in rbind (subslice seg TCP_MIN_HEADER hlen) (\<lambda>opt.
         rbind (parse_options opt t) (\<lambda>t'.
         rbind (slice_from seg hlen) (\<lambda>d. Ret (Some (t', d)))))))))))))"


section \<open>ICMP echo packets (icmp.rs)\<close>

definition ICMP_HEADER_LEN :: nat where "ICMP_HEADER_LEN = 8"

fun echo_type :: "bool \<Rightarrow> bool \<Rightarrow> u8" where
  "echo_type False True = 8"
| "echo_type False False = 0"
| "echo_type True True = 128"
| "echo_type True False = 129"

definition icmp_csum :: "IpAddr \<Rightarrow> IpAddr \<Rightarrow> nat \<Rightarrow> bytes \<Rightarrow> u16 eval" where
  "icmp_csum src dst tot seg =
     (if is_ipv6 src then rbind (pseudo_header src dst IPPROTO_ICMPV6 tot) (\<lambda>pseudo.
        Ret (csum_with_pseudo pseudo seg))
      else Ret (csum seg))"

definition build_icmp ::
  "bytes \<Rightarrow> IpAddr \<Rightarrow> IpAddr \<Rightarrow> bool \<Rightarrow> u16 \<Rightarrow> u16 \<Rightarrow> bytes \<Rightarrow> (bytes \<times> nat) eval" where
  "build_icmp out src dst is_client ident seq payload =
     (let seg = [echo_type (is_ipv6 src) is_client, 0] @ [0, 0] @ be16 ident @ be16 seq @ payload;
          tot = ICMP_HEADER_LEN + length payload
      in rbind (icmp_csum src dst tot seg) (\<lambda>c. Ret (out @ overwrite seg 2 (be16 c), tot)))"

record ParsedIcmp =
  pc_ptype :: u8
  pc_id :: u16
  pc_seq :: u16

definition parse_icmp ::
  "bytes \<Rightarrow> IpAddr \<Rightarrow> IpAddr \<Rightarrow> bool \<Rightarrow> (ParsedIcmp \<times> bytes) option eval" where
  "parse_icmp seg src dst is_client =
     (if length seg < ICMP_HEADER_LEN then Ret None
      else rbind (idx seg 0) (\<lambda>ptype. rbind (idx seg 1) (\<lambda>code.
      if code \<noteq> 0 then Ret None
      else if ptype \<noteq> echo_type (is_ipv6 src) (\<not> is_client) then Ret None
      else rbind (icmp_csum src dst (length seg) seg) (\<lambda>c.
      if c \<noteq> 0 then Ret None
      else rbind (rbind (slice_from seg 4) read_u16_be) (\<lambda>i.
           rbind (rbind (slice_from seg 6) read_u16_be) (\<lambda>s.
           rbind (slice_from seg ICMP_HEADER_LEN) (\<lambda>d.
             Ret (Some (\<lparr> pc_ptype = ptype, pc_id = i, pc_seq = s \<rparr>, d)))))))))"

lemmas packet_consts = IPV4_HEADER_LEN_def IPV6_HEADER_LEN_def UDP_HEADER_LEN_def
  TCP_MIN_HEADER_def ICMP_HEADER_LEN_def



section \<open>Checksums and headers survive the wire\<close>

abbreviation same_family :: "IpAddr \<Rightarrow> IpAddr \<Rightarrow> bool" where
  "same_family s d \<equiv> is_ipv6 s = is_ipv6 d"

lemma pseudo_header_ok:
  assumes "same_family s d"
  obtains ps where "pseudo_header s d pr n = Ret ps" "even (length ps)" "length ps \<le> 40"
  using assms by (cases s; cases d) simp_all

lemma pseudo_header_panics: "panics (pseudo_header s d pr n) \<longleftrightarrow> \<not> same_family s d"
  by (cases s; cases d) simp_all

lemma ipv4_at_app [byte_simps]: "length pre = i \<Longrightarrow> ipv4_at (pre @ be32 a @ r) i = Ret (V4 a)"
  using read_u32_be_app[of a "[]"] by (auto simp: ipv4_at_def subslice_def)

lemma ipv6_at_app [byte_simps]:
  "length pre = i \<Longrightarrow> ipv6_at (pre @ be64 a @ be64 b @ r) i = Ret (V6 a b)"
  using read_u64_be_app[of b "[]"]
  by (auto simp: ipv6_at_def subslice_def slice_from_def byte_simps)

lemma of_be16_bytes: "of_be16 (be16 v ! 0) (be16 v ! Suc 0) = v"
  by (simp add: be16_def of_be16_be16)

lemma ipv4_roundtrip:
  assumes "20 + length d \<le> 65535"
  shows "\<exists>h. build_ip_header out (V4 sa) (V4 da) pr ttl i (length d) = Ret (out @ h) \<and>
    parse_ip (h @ d @ junk) False v = Ret (Some \<lparr> pi_src = V4 sa, pi_dst = V4 da, pi_protocol = pr,
      pi_header_len = 20, pi_total_len = 20 + length d \<rparr>)"
proof -
  define pre where "pre = [0x45, 0] @ be16 (of_nat (20 + length d)) @ be16 i @ be16 0x4000 @ [ttl, pr]"
  define post where "post = be32 sa @ be32 da"
  define c where "c = be16 (csum (pre @ [0, 0] @ post))"
  define h where "h = pre @ c @ post"
  have len: "length pre = 10" "length c = 2" "length post = 8" "length h = 20"
    by (simp_all add: pre_def post_def c_def h_def)
  have build: "build_ip_header out (V4 sa) (V4 da) pr ttl i (length d) = Ret (out @ h)"
    using overwrite_mid[of c "[0, 0]" pre 10 post] len
    by (simp add: Let_def IPV4_HEADER_LEN_def h_def c_def pre_def post_def)
  have ver: "csum_verify h"
    using csum_verifies[of pre post] len by (simp add: h_def c_def)
  let ?b = "h @ d @ junk"
  have ne: "?b \<noteq> []"
    using len by auto
  have tot: "unat (of_nat (20 + length d) :: u16) = 20 + length d"
    using assms by (intro unat_of_nat_small) simp
  have bytes: "?b ! 0 = 0x45" "of_be16 (?b ! 2) (?b ! 3) = of_nat (20 + length d)" "?b ! 9 = pr"
    by (simp_all add: h_def pre_def be16_def of_be16_be16)
  have addr: "ipv4_at ?b 12 = Ret (V4 sa)" "ipv4_at ?b 16 = Ret (V4 da)"
    using ipv4_at_app[of "pre @ c" 12 sa "be32 da @ d @ junk"]
      ipv4_at_app[of "pre @ c @ be32 sa" 16 da "d @ junk"] len
    by (simp_all add: h_def post_def)
  have "parse_ip ?b False v = Ret (Some \<lparr> pi_src = V4 sa, pi_dst = V4 da, pi_protocol = pr,
      pi_header_len = 20, pi_total_len = 20 + length d \<rparr>)"
    using ne len bytes tot addr ver assms
    by (simp add: parse_ip_def parse_ipv4_def idx_def Let_def subslice_def packet_consts)
  then show ?thesis
    using build by blast
qed

lemma ipv6_roundtrip:
  assumes "length d \<le> 65535"
  shows "\<exists>h. build_ip_header out (V6 s1 s2) (V6 d1 d2) pr ttl i (length d) = Ret (out @ h) \<and>
    parse_ip (h @ d @ junk) True v = Ret (Some \<lparr> pi_src = V6 s1 s2, pi_dst = V6 d1 d2,
      pi_protocol = pr, pi_header_len = 40, pi_total_len = 40 + length d \<rparr>)"
proof -
  define pre where "pre = [0x60, 0, 0, 0] @ be16 (of_nat (length d)) @ [pr, ttl]"
  define h where "h = pre @ be64 s1 @ be64 s2 @ be64 d1 @ be64 d2"
  have len: "length pre = 8" "length h = 40"
    by (simp_all add: pre_def h_def)
  let ?b = "h @ d @ junk"
  have ne: "?b \<noteq> []"
    using len by auto
  have tot: "unat (of_nat (length d) :: u16) = length d"
    using assms by (intro unat_of_nat_small) simp
  have bytes: "?b ! 0 = 0x60" "of_be16 (?b ! 4) (?b ! 5) = of_nat (length d)" "?b ! 6 = pr"
    by (simp_all add: h_def pre_def be16_def of_be16_be16)
  have addr: "ipv6_at ?b 8 = Ret (V6 s1 s2)" "ipv6_at ?b 24 = Ret (V6 d1 d2)"
    using ipv6_at_app[of pre 8 s1 s2 "be64 d1 @ be64 d2 @ d @ junk"]
      ipv6_at_app[of "pre @ be64 s1 @ be64 s2" 24 d1 d2 "d @ junk"] len
    by (simp_all add: h_def)
  have "parse_ip ?b True v = Ret (Some \<lparr> pi_src = V6 s1 s2, pi_dst = V6 d1 d2,
      pi_protocol = pr, pi_header_len = 40, pi_total_len = 40 + length d \<rparr>)"
    using ne len bytes tot addr
    by (simp add: parse_ip_def parse_ipv6_def idx_def Let_def packet_consts)
  then show ?thesis
    by (auto simp: h_def pre_def)
qed

lemma udp_roundtrip:
  assumes "same_family s d" "8 + length pl \<le> 65535"
  shows "\<exists>seg. build_udp out s d sp dp pl = Ret (Some (out @ seg, length seg)) \<and>
    length seg = 8 + length pl \<and> parse_udp seg s d = Ret (Some (sp, dp, pl))"
proof -
  obtain ps where ps: "pseudo_header s d IPPROTO_UDP (8 + length pl) = Ret ps" "even (length ps)"
    "length ps \<le> 40"
    using pseudo_header_ok[OF assms(1)] .
  define pre where "pre = be16 sp @ be16 dp @ be16 (of_nat (8 + length pl))"
  define c where "c = be16 (csum_with_pseudo ps (pre @ [0, 0] @ pl))"
  define seg where "seg = pre @ c @ pl"
  have len: "length pre = 6" "length c = 2" "length seg = 8 + length pl"
    by (simp_all add: pre_def c_def seg_def)
  have build: "build_udp out s d sp dp pl = Ret (Some (out @ seg, length seg))"
    using overwrite_mid[of c "[0, 0]" pre 6 pl] len ps(1) assms(2)
    by (simp add: build_udp_def UDP_HEADER_LEN_def Let_def seg_def c_def pre_def)
  have ver: "verify_with_pseudo ps seg"
    using pseudo_csum_verifies[of ps pre pl] ps len assms(2) by (simp add: seg_def c_def)
  have tot: "unat (of_nat (8 + length pl) :: u16) = 8 + length pl"
    using assms(2) by (intro unat_of_nat_small) simp
  have bytes: "of_be16 (seg ! 4) (seg ! 5) = of_nat (8 + length pl)" "read_u16_be seg = Ret sp"
     "read_u16_be (drop 2 seg) = Ret dp" "drop 8 seg = pl"
    by (simp_all add: seg_def pre_def c_def be16_def of_be16_be16 read_u16_be_def idx_def)
  have "parse_udp seg s d = Ret (Some (sp, dp, pl))"
    using len bytes tot ver ps(1)
    by (simp add: parse_udp_def UDP_HEADER_LEN_def idx_def slice_from_def)
  then show ?thesis
    using build len by blast
qed

lemma icmp_roundtrip:
  assumes "same_family s d" "8 + length pl \<le> 65535"
  shows "\<exists>seg. build_icmp out s d cl i sq pl = Ret (out @ seg, length seg) \<and>
    length seg = 8 + length pl \<and>
    parse_icmp seg s d (\<not> cl) =
      Ret (Some (\<lparr> pc_ptype = echo_type (is_ipv6 s) cl, pc_id = i, pc_seq = sq \<rparr>, pl))"
proof -
  obtain ps where ps: "pseudo_header s d IPPROTO_ICMPV6 (8 + length pl) = Ret ps" "even (length ps)"
    "length ps \<le> 40"
    using pseudo_header_ok[OF assms(1)] .
  define pre where "pre = [echo_type (is_ipv6 s) cl, 0]"
  define post where "post = be16 i @ be16 sq @ pl"
  define w where "w = (if is_ipv6 s then csum_with_pseudo ps (pre @ [0, 0] @ post) else csum (pre @ [0, 0] @ post))"
  define seg where "seg = pre @ be16 w @ post"
  have len: "length pre = 2" "length post = 4 + length pl" "length seg = 8 + length pl"
    by (simp_all add: pre_def post_def seg_def)
  have "icmp_csum s d (8 + length pl) (pre @ [0, 0] @ post) = Ret w"
    using ps(1) by (simp add: icmp_csum_def w_def)
  then have build: "build_icmp out s d cl i sq pl = Ret (out @ seg, length seg)"
    using overwrite_mid[of "be16 w" "[0, 0]" pre 2 post] len
    by (simp add: build_icmp_def ICMP_HEADER_LEN_def Let_def seg_def pre_def post_def)
  have ver: "icmp_csum s d (8 + length pl) seg = Ret 0"
    using pseudo_csum_verifies[of ps pre post] csum_verifies[of pre post] ps len assms(2)
    by (simp add: seg_def w_def icmp_csum_def verify_with_pseudo_def csum_verify_def)
  have bytes: "seg ! 0 = echo_type (is_ipv6 s) cl" "seg ! Suc 0 = 0"
     "read_u16_be (drop 4 seg) = Ret i" "read_u16_be (drop 6 seg) = Ret sq" "drop 8 seg = pl"
    by (simp_all add: seg_def pre_def post_def be16_def of_be16_be16 read_u16_be_def idx_def)
  have "parse_icmp seg s d (\<not> cl) =
      Ret (Some (\<lparr> pc_ptype = echo_type (is_ipv6 s) cl, pc_id = i, pc_seq = sq \<rparr>, pl))"
    using len bytes ver by (simp add: parse_icmp_def ICMP_HEADER_LEN_def idx_def slice_from_def)
  then show ?thesis
    using build len by blast
qed

text \<open>TCP options: one rule per branch of the loop, and the two option lists a sender emits.\<close>

lemma parse_options_end: "length opt \<le> i \<Longrightarrow> parse_options_loop opt i t = Ret t"
  by (subst parse_options_loop.simps) simp

lemma parse_options_nop:
  "i < length opt \<Longrightarrow> opt ! i = 1 \<Longrightarrow> parse_options_loop opt i t = parse_options_loop opt (i + 1) t"
  by (subst parse_options_loop.simps) (simp add: idx_def)

lemma parse_options_ts:
  assumes "i + 10 \<le> length opt" "opt ! i = 8" "opt ! (i + 1) = 10"
    and "read_u32_be (drop (i + 2) opt) = Ret a" "read_u32_be (drop (i + 6) opt) = Ret b"
  shows "parse_options_loop opt i t =
    parse_options_loop opt (i + 10) (t\<lparr> pt_has_ts := True, pt_ts := a, pt_ts_ack := b \<rparr>)"
  using assms by (subst parse_options_loop.simps) (simp add: idx_def slice_from_def)

lemma parse_options_other:
  assumes "i + 1 < length opt" "opt ! i \<noteq> 0" "opt ! i \<noteq> 1" "opt ! i \<noteq> 8"
    and "unat (opt ! (i + 1)) = n" "1 < n"
  shows "parse_options_loop opt i t = parse_options_loop opt (i + n) t"
  using assms by (subst parse_options_loop.simps) (simp add: idx_def)

lemmas parse_options_steps = parse_options_nop parse_options_ts parse_options_other

lemma read_u32_be_explicit:
  "read_u32_be (ucast (drop_bit 24 v) # ucast (drop_bit 16 v) # ucast (drop_bit 8 v) # ucast v # r) = Ret v"
  using read_u32_be_app[of v r] by (simp add: be32_def)

lemma parse_tcp_options:
  "parse_options (tcp_options p) t =
     Ret (t\<lparr> pt_has_ts := True, pt_ts := tp_ts p, pt_ts_ack := tp_ts_ack p \<rparr>)"
proof (cases "tp_syn p")
  case True
  define opt where "opt = tcp_options p"
  have o: "opt = [2, 4] @ be16 SYN_MSS @ [4, 2, 8, 10] @ be32 (tp_ts p) @ be32 (tp_ts_ack p) @ [1, 3, 3, WSCALE]"
    using True by (simp add: opt_def tcp_options_def)
  have len: "length opt = 20"
    by (simp add: o)
  have at: "opt ! 0 = 2" "opt ! 1 = 4" "opt ! 4 = 4" "opt ! 5 = 2" "opt ! 6 = 8" "opt ! 7 = 10"
    "opt ! 16 = 1" "opt ! 17 = 3" "opt ! 18 = 3"
    by (simp_all add: o be16_def be32_def)
  have rd: "read_u32_be (drop 8 opt) = Ret (tp_ts p)" "read_u32_be (drop 12 opt) = Ret (tp_ts_ack p)"
    by (simp_all add: o byte_simps)
  let ?t = "t\<lparr> pt_has_ts := True, pt_ts := tp_ts p, pt_ts_ack := tp_ts_ack p \<rparr>"
  have "parse_options_loop opt 0 u = parse_options_loop opt 4 u" for u
    using at(1,2) len parse_options_other[of 0 opt 4] by simp
  moreover have "parse_options_loop opt 4 u = parse_options_loop opt 6 u" for u
    using at(3,4) len parse_options_other[of 4 opt 2] by simp
  moreover have "parse_options_loop opt 6 u = parse_options_loop opt 16
      (u\<lparr> pt_has_ts := True, pt_ts := tp_ts p, pt_ts_ack := tp_ts_ack p \<rparr>)" for u
    using at(5,6) len rd parse_options_ts[of 6 opt] by simp
  moreover have "parse_options_loop opt 16 u = parse_options_loop opt 17 u" for u
    using at(7) len parse_options_nop[of 16 opt] by simp
  moreover have "parse_options_loop opt 17 u = Ret u" for u
    using at(8,9) len parse_options_other[of 17 opt 3] by (simp add: parse_options_end)
  ultimately show ?thesis
    by (simp add: parse_options_def opt_def)
next
  case False
  define opt where "opt = tcp_options p"
  have o: "opt = [1, 1, 8, 10] @ be32 (tp_ts p) @ be32 (tp_ts_ack p)"
    using False by (simp add: opt_def tcp_options_def)
  have len: "length opt = 12"
    by (simp add: o)
  have at: "opt ! 0 = 1" "opt ! 1 = 1" "opt ! 2 = 8" "opt ! 3 = 10"
    by (simp_all add: o)
  have rd: "read_u32_be (drop 4 opt) = Ret (tp_ts p)" "read_u32_be (drop 8 opt) = Ret (tp_ts_ack p)"
    using read_u32_be_app[of "tp_ts_ack p" "[]"] by (simp_all add: o byte_simps)
  have "parse_options_loop opt 0 u = parse_options_loop opt 2 u" for u
    using at(1,2) len parse_options_nop[of 0 opt] parse_options_nop[of 1 opt] by (simp add: numeral_2_eq_2)
  moreover have "parse_options_loop opt 2 u =
      Ret (u\<lparr> pt_has_ts := True, pt_ts := tp_ts p, pt_ts_ack := tp_ts_ack p \<rparr>)" for u
    using at(3,4) len rd parse_options_ts[of 2 opt] by (simp add: parse_options_end)
  ultimately show ?thesis
    by (simp add: parse_options_def opt_def)
qed

lemma length_tcp_options [simp]: "length (tcp_options p) = (if tp_syn p then 20 else 12)"
  by (simp add: tcp_options_def)

lemma tcp_flags_read:
  "(tcp_flags p AND 0x02 \<noteq> 0) = tp_syn p" "(tcp_flags p AND 0x10 \<noteq> 0) = tp_ack p"
  "(tcp_flags p AND 0x08 \<noteq> 0) = tp_psh p" "tcp_flags p AND 0x04 = 0"
  by (simp_all add: tcp_flags_def Let_def)

lemma tcp_roundtrip:
  assumes "same_family s d" "40 + length pl \<le> 65535"
  shows "\<exists>seg. build_tcp out s d p pl = Ret (out @ seg, length seg) \<and>
    length seg = (if tp_syn p then 40 else 32) + length pl \<and>
    parse_tcp seg s d = Ret (Some (\<lparr> pt_src_port = tp_src_port p, pt_dst_port = tp_dst_port p,
      pt_seq = tp_seq p, pt_ack_seq = tp_ack_seq p, pt_syn = tp_syn p, pt_ack = tp_ack p,
      pt_psh = tp_psh p, pt_rst = False, pt_has_ts = True, pt_ts = tp_ts p, pt_ts_ack = tp_ts_ack p,
      pt_header_len = (if tp_syn p then 40 else 32), pt_csum_ok = True \<rparr>, pl))"
proof -
  define hlen :: nat where "hlen = (if tp_syn p then 40 else 32)"
  obtain ps where ps: "pseudo_header s d IPPROTO_TCP (hlen + length pl) = Ret ps" "even (length ps)"
    "length ps \<le> 40"
    using pseudo_header_ok[OF assms(1)] .
  define pre where "pre = be16 (tp_src_port p) @ be16 (tp_dst_port p) @ be32 (tp_seq p) @ be32 (tp_ack_seq p) @
      [if tp_syn p then 0xa0 else 0x80, tcp_flags p] @ be16 (tp_window p)"
  define post where "post = [0, 0] @ tcp_options p @ pl"
  define c where "c = be16 (csum_with_pseudo ps (pre @ [0, 0] @ post))"
  define seg where "seg = pre @ c @ post"
  have len: "length pre = 16" "length c = 2" "length post = hlen - 18 + length pl"
      "length seg = hlen + length pl" "32 \<le> hlen" "hlen \<le> 40"
    by (simp_all add: pre_def c_def post_def seg_def hlen_def)
  have build: "build_tcp out s d p pl = Ret (out @ seg, length seg)"
    using overwrite_mid[of c "[0, 0]" pre 16 post] len ps(1)
    by (cases "tp_syn p") (simp_all add: build_tcp_def Let_def seg_def c_def pre_def post_def hlen_def)
  have ver: "verify_with_pseudo ps seg"
    using pseudo_csum_verifies[of ps pre post] ps len assms(2) by (simp add: seg_def c_def hlen_def)
  have h: "unat (drop_bit 4 (seg ! 12)) * 4 = hlen" "seg ! 13 = tcp_flags p"
    by (simp_all add: seg_def pre_def hlen_def be16_def be32_def)
  have rd: "read_u16_be seg = Ret (tp_src_port p)" "read_u16_be (drop 2 seg) = Ret (tp_dst_port p)"
     "read_u32_be (drop 4 seg) = Ret (tp_seq p)" "read_u32_be (drop 8 seg) = Ret (tp_ack_seq p)"
    by (simp_all add: seg_def pre_def byte_simps)
  have sl: "subslice seg 20 hlen = Ret (tcp_options p)" "slice_from seg hlen = Ret pl"
    using len by (simp_all add: subslice_def slice_from_def seg_def post_def hlen_def)
  show ?thesis
    using build len h rd sl ver ps(1) unfolding hlen_def[symmetric]
    by (intro exI[of _ seg] conjI)
       (simp_all add: parse_tcp_def TCP_MIN_HEADER_def idx_def slice_from_def Let_def tcp_flags_read
         parse_tcp_options)
qed


lemma ip_roundtrip:
  assumes "same_family s d" "length pl \<le> 65515"
  shows "\<exists>h hd. build_ip_header out s d pr ttl i (length pl) = Ret (out @ h) \<and>
    parse_ip (h @ pl @ junk) (is_ipv6 s) v = Ret (Some hd) \<and>
    pi_src hd = s \<and> pi_dst hd = d \<and> pi_protocol hd = pr \<and> ip_payload hd (h @ pl @ junk) = Ret pl"
proof (cases s)
  case (V4 sa)
  then obtain da where "d = V4 da"
    using assms(1) by (cases d) simp_all
  moreover obtain h where h: "build_ip_header out (V4 sa) (V4 da) pr ttl i (length pl) = Ret (out @ h)"
    "parse_ip (h @ pl @ junk) False v = Ret (Some \<lparr> pi_src = V4 sa, pi_dst = V4 da, pi_protocol = pr,
      pi_header_len = 20, pi_total_len = 20 + length pl \<rparr>)"
    using ipv4_roundtrip[of pl out sa da pr ttl i junk v] assms(2) by auto
  moreover have "length h = 20"
    using h(1) by (auto simp: Let_def overwrite_def)
  ultimately show ?thesis
    using V4 by (intro exI[of _ h]) (simp add: ip_payload_def subslice_def)
next
  case (V6 s1 s2)
  then obtain d1 d2 where "d = V6 d1 d2"
    using assms(1) by (cases d) simp_all
  moreover obtain h where h: "build_ip_header out (V6 s1 s2) (V6 d1 d2) pr ttl i (length pl) = Ret (out @ h)"
    "parse_ip (h @ pl @ junk) True v = Ret (Some \<lparr> pi_src = V6 s1 s2, pi_dst = V6 d1 d2,
      pi_protocol = pr, pi_header_len = 40, pi_total_len = 40 + length pl \<rparr>)"
    using ipv6_roundtrip[of pl out s1 s2 d1 d2 pr ttl i junk v] assms(2) by auto
  moreover have "length h = 40"
    using h(1) by auto
  ultimately show ?thesis
    using V6 by (intro exI[of _ h]) (simp add: ip_payload_def subslice_def)
qed


section \<open>Which inputs panic\<close>

lemma parse_options_loop_total: "\<not> panics (parse_options_loop opt i t)"
proof (induction opt i t rule: parse_options_loop.induct)
  case (1 opt i t)
  have rd: "i + 10 \<le> length opt \<Longrightarrow> \<exists>v. read_u32_be (drop (i + 2) opt) = Ret v"
    "i + 10 \<le> length opt \<Longrightarrow> \<exists>v. read_u32_be (drop (i + 6) opt) = Ret v"
    by (simp_all add: read_be_ok)
  consider "length opt \<le> i" | "i < length opt" "opt ! i = 0" | "i < length opt" "opt ! i = 1"
    | "i < length opt" "opt ! i = 8" | "i < length opt" "opt ! i \<notin> {0, 1, 8}"
    by fastforce
  then show ?case
  proof cases
    case 4
    then show ?thesis
      using 1(2)[of 8 10] rd by (subst parse_options_loop.simps) (auto simp: idx_def slice_from_def)
  next
    case 5
    then show ?thesis
      using 1(3)[of "opt ! i" "opt ! (i + 1)"]
      by (subst parse_options_loop.simps) (auto simp: idx_def)
  qed (subst parse_options_loop.simps; use 1(1)[of 1] in \<open>simp add: idx_def\<close>)+
qed

lemma parse_options_total: "\<exists>t'. parse_options opt t = Ret t'"
  using parse_options_loop_total by (simp add: parse_options_def not_panics_iff)

lemma ip_at_ok:
  "i + 4 \<le> length buf \<Longrightarrow> \<exists>a. ipv4_at buf i = Ret a"
  "i + 16 \<le> length buf \<Longrightarrow> \<exists>a. ipv6_at buf i = Ret a"
proof -
  show "\<exists>a. ipv4_at buf i = Ret a" if "i + 4 \<le> length buf"
    using that read_be_ok(2)[of "take 4 (drop i buf)"] by (auto simp: ipv4_at_def subslice_def)
  show "\<exists>a. ipv6_at buf i = Ret a" if "i + 16 \<le> length buf"
    using that read_be_ok(3)[of "take 16 (drop i buf)"] read_be_ok(3)[of "drop 8 (take 16 (drop i buf))"]
    by (auto simp: ipv6_at_def subslice_def slice_from_def)
qed

lemma parse_ip_total: "\<exists>r. parse_ip buf v6 v = Ret r"
proof -
  have "\<exists>r. parse_ipv4 buf v = Ret r"
  proof (cases "length buf < 20")
    case False
    then show ?thesis
      using ip_at_ok(1)[of 12 buf] ip_at_ok(1)[of 16 buf]
      by (auto simp: parse_ipv4_def idx_def Let_def subslice_def packet_consts)
  qed (simp add: parse_ipv4_def packet_consts)
  moreover have "\<exists>r. parse_ipv6 buf = Ret r"
  proof (cases "length buf < 40")
    case False
    then show ?thesis
      using ip_at_ok(2)[of 8 buf] ip_at_ok(2)[of 24 buf]
      by (auto simp: parse_ipv6_def idx_def Let_def packet_consts)
  qed (simp add: parse_ipv6_def packet_consts)
  ultimately show ?thesis
    by (simp add: parse_ip_def idx_def Let_def)
qed

lemma parse_ip_bounds:
  assumes "parse_ip buf v6 v = Ret (Some pi)"
  shows "pi_header_len pi \<le> pi_total_len pi" "pi_total_len pi \<le> length buf" "20 \<le> pi_header_len pi"
    "is_ipv6 (pi_src pi) = v6" "is_ipv6 (pi_dst pi) = v6"
  using assms
  by (auto simp: parse_ip_def parse_ipv4_def parse_ipv6_def Let_def packet_consts rbind_eq_Ret
      ipv4_at_def ipv6_at_def split: if_splits)

lemma parse_udp_total: "same_family s d \<Longrightarrow> \<exists>r. parse_udp seg s d = Ret r"
  using read_be_ok(1)[of seg] read_be_drop_ok(1)[of 2 seg] pseudo_header_panics[of s d IPPROTO_UDP "length seg"]
  by (auto simp: parse_udp_def idx_def slice_from_def packet_consts not_panics_iff)

lemma parse_icmp_total: "same_family s d \<Longrightarrow> \<exists>r. parse_icmp seg s d cl = Ret r"
  using read_be_drop_ok(1)[of 4 seg] read_be_drop_ok(1)[of 6 seg]
    pseudo_header_panics[of s d IPPROTO_ICMPV6 "length seg"]
  by (auto simp: parse_icmp_def icmp_csum_def idx_def slice_from_def packet_consts not_panics_iff)

lemma parse_tcp_panics:
  assumes "same_family s d"
  shows "panics (parse_tcp seg s d) \<longleftrightarrow>
    20 \<le> length seg \<and> 0 < unat (drop_bit 4 (seg ! 12)) \<and> unat (drop_bit 4 (seg ! 12)) < 5"
proof (cases "length seg < 20")
  case True
  then show ?thesis
    by (simp add: parse_tcp_def packet_consts)
next
  case False
  obtain ps where ps: "pseudo_header s d IPPROTO_TCP (length seg) = Ret ps"
    using pseudo_header_ok[OF assms] by metis
  obtain a b c e where rd: "read_u16_be seg = Ret a" "read_u16_be (drop 2 seg) = Ret b"
     "read_u32_be (drop 4 seg) = Ret c" "read_u32_be (drop 8 seg) = Ret e"
    using False read_be_ok(1)[of seg] read_be_drop_ok(1)[of 2 seg] read_be_drop_ok(2)[of 4 seg]
      read_be_drop_ok(2)[of 8 seg] by auto
  let ?h = "unat (drop_bit 4 (seg ! 12)) * 4"
  have tail: "panics (rbind (subslice seg 20 h) (\<lambda>opt. rbind (parse_options opt t) (\<lambda>t'.
      rbind (slice_from seg h) (\<lambda>d. Ret (Some (t', d)))))) \<longleftrightarrow> h < 20" if "h \<le> length seg" for h t
  proof (cases "h < 20")
    case False
    then show ?thesis
      using that parse_options_total[of "take (h - 20) (drop 20 seg)" t]
      by (auto simp: subslice_def slice_from_def)
  qed (simp add: subslice_def)
  show ?thesis
    using False tail
    by (auto simp: parse_tcp_def packet_consts idx_def slice_from_def Let_def ps rd)
qed


section \<open>Properties\<close>

text \<open>C24: IP round trip. For every pair of addresses of one family, a header built for a
  payload of at most 65515 bytes is accepted with its checksum verified, returns the same
  addresses and protocol, and delimits exactly the payload, whatever padding a link layer
  appends after the packet.\<close>

theorem ip_packet_roundtrip:
  assumes "same_family s d" "length pl \<le> 65515"
  shows "\<exists>h hd. build_ip_header out s d pr ttl i (length pl) = Ret (out @ h) \<and>
    parse_ip (h @ pl @ junk) (is_ipv6 s) v = Ret (Some hd) \<and>
    pi_src hd = s \<and> pi_dst hd = d \<and> pi_protocol hd = pr \<and> ip_payload hd (h @ pl @ junk) = Ret pl"
  by (rule ip_roundtrip[OF assms])

theorem ip_packet_roundtrip_witness:
  "\<exists>h hd. build_ip_header [] (V4 1) (V4 2) 6 64 7 (length [9 :: u8]) = Ret ([] @ h) \<and>
    parse_ip (h @ [9] @ [0, 0]) (is_ipv6 (V4 1)) True = Ret (Some hd) \<and>
    pi_src hd = V4 1 \<and> pi_dst hd = V4 2 \<and> pi_protocol hd = 6 \<and> ip_payload hd (h @ [9] @ [0, 0]) = Ret [9]"
  by (rule ip_packet_roundtrip) simp_all

text \<open>C25: FakeTCP round trip. Every segment the sender builds, SYN or data, with any flags,
  numbers, timestamps and payload, parses at the peer to the same fields and payload with a
  verifying checksum; the timestamp option is found in both option layouts.\<close>

theorem tcp_segment_roundtrip:
  assumes "same_family s d" "40 + length pl \<le> 65535"
  shows "\<exists>seg. build_tcp out s d p pl = Ret (out @ seg, length seg) \<and>
    parse_tcp seg s d = Ret (Some (\<lparr> pt_src_port = tp_src_port p, pt_dst_port = tp_dst_port p,
      pt_seq = tp_seq p, pt_ack_seq = tp_ack_seq p, pt_syn = tp_syn p, pt_ack = tp_ack p,
      pt_psh = tp_psh p, pt_rst = False, pt_has_ts = True, pt_ts = tp_ts p, pt_ts_ack = tp_ts_ack p,
      pt_header_len = (if tp_syn p then 40 else 32), pt_csum_ok = True \<rparr>, pl))"
  using tcp_roundtrip[OF assms] by blast

theorem tcp_segment_roundtrip_witness:
  "\<exists>seg. build_tcp [] (V6 0 1) (V6 0 2) \<lparr> tp_src_port = 1, tp_dst_port = 2, tp_seq = 3, tp_ack_seq = 4,
      tp_syn = True, tp_ack = False, tp_psh = False, tp_window = 5, tp_ts = 6, tp_ts_ack = 7 \<rparr> [8]
      = Ret ([] @ seg, length seg) \<and>
    (\<exists>t. parse_tcp seg (V6 0 1) (V6 0 2) = Ret (Some (t, [8])) \<and> pt_ts t = 6 \<and> pt_csum_ok t)"
  using tcp_segment_roundtrip[of "V6 0 1" "V6 0 2" "[8]" "[]"
    "\<lparr> tp_src_port = 1, tp_dst_port = 2, tp_seq = 3, tp_ack_seq = 4,
      tp_syn = True, tp_ack = False, tp_psh = False, tp_window = 5, tp_ts = 6, tp_ts_ack = 7 \<rparr>"]
  by auto

text \<open>C26: UDP and ICMP round trips. A datagram or echo packet with a payload that fits the
  16-bit length parses at the peer (the other role, for ICMP) to the same ports or
  identifiers and the same payload; a UDP payload that does not fit is refused.\<close>

theorem udp_icmp_roundtrip:
  assumes "same_family s d" "8 + length pl \<le> 65535"
  shows "(\<exists>seg. build_udp out s d sp dp pl = Ret (Some (out @ seg, length seg)) \<and>
      parse_udp seg s d = Ret (Some (sp, dp, pl))) \<and>
    (\<exists>seg. build_icmp out s d cl i sq pl = Ret (out @ seg, length seg) \<and>
      parse_icmp seg s d (\<not> cl) =
        Ret (Some (\<lparr> pc_ptype = echo_type (is_ipv6 s) cl, pc_id = i, pc_seq = sq \<rparr>, pl)))"
  using udp_roundtrip[OF assms, of out sp dp] icmp_roundtrip[OF assms, of out cl i sq] by blast

theorem udp_icmp_roundtrip_witness:
  "\<exists>seg. build_udp [] (V4 1) (V4 2) 53 54 [1, 2] = Ret (Some ([] @ seg, length seg)) \<and>
    parse_udp seg (V4 1) (V4 2) = Ret (Some (53, 54, [1, 2]))"
  using udp_icmp_roundtrip[of "V4 1" "V4 2" "[1, 2]" "[]" 53 54] by simp

text \<open>C27: Exactly which received segments abort the process in the TCP parser: those long
  enough for a header whose data-offset nibble is 1, 2, 3 or 4. The guard rejects only an
  offset of 0, and the option slice \<open>seg[20..hlen]\<close> then has its end before its start.\<close>

theorem parse_tcp_panics_iff:
  assumes "same_family s d"
  shows "panics (parse_tcp seg s d) \<longleftrightarrow>
    20 \<le> length seg \<and> 0 < unat (drop_bit 4 (seg ! 12)) \<and> unat (drop_bit 4 (seg ! 12)) < 5"
  by (rule parse_tcp_panics[OF assms])

theorem parse_tcp_panics_iff_witness:
  "panics (parse_tcp (replicate 12 0 @ [0x40] @ replicate 7 0) (V4 1) (V4 2))"
  using parse_tcp_panics_iff[of "V4 1" "V4 2" "replicate 12 0 @ [0x40] @ replicate 7 0"]
  by (simp add: nth_append)

text \<open>No received bytes make the IP, UDP or ICMP parser panic, and a parsed IP header
  always delimits a payload inside the buffer.\<close>

lemma ip_udp_icmp_parsers_total:
  "\<not> panics (parse_ip buf v6 v) \<and>
   (\<forall>hd. parse_ip buf v6 v = Ret (Some hd) \<longrightarrow> (\<exists>pl. ip_payload hd buf = Ret pl \<and>
      \<not> panics (parse_udp pl (pi_src hd) (pi_dst hd)) \<and>
      \<not> panics (parse_icmp pl (pi_src hd) (pi_dst hd) cl)))"
proof (intro conjI allI impI)
  show "\<not> panics (parse_ip buf v6 v)"
    using parse_ip_total by (simp add: not_panics_iff)
  fix hd
  assume h: "parse_ip buf v6 v = Ret (Some hd)"
  note b = parse_ip_bounds[OF h]
  then show "\<exists>pl. ip_payload hd buf = Ret pl \<and> \<not> panics (parse_udp pl (pi_src hd) (pi_dst hd)) \<and>
      \<not> panics (parse_icmp pl (pi_src hd) (pi_dst hd) cl)"
    using parse_udp_total parse_icmp_total
    by (simp add: ip_payload_def subslice_def not_panics_iff)
qed

end
