(* ===== verification/Std_Text.thy ===== *)
theory Std_Text
  imports Util Packet
begin

text \<open>
  What the sources use of the standard library's text and address types: trimming, lines,
  splitting, decimal numbers, and the parsers and printers of IP and socket addresses. A
  \<open>str\<close> is its list of bytes as characters; white space is the ASCII white space.
\<close>


section \<open>Strings\<close>

abbreviation LF :: char where "LF \<equiv> CHR 0x0A"
abbreviation CR :: char where "CR \<equiv> CHR 0x0D"
abbreviation TAB :: char where "TAB \<equiv> CHR 0x09"

fun starts_with :: "'a list \<Rightarrow> 'a list \<Rightarrow> bool" where
  "starts_with s [] = True"
| "starts_with [] (p # ps) = False"
| "starts_with (c # s) (p # ps) = (c = p \<and> starts_with s ps)"

definition ends_with :: "'a list \<Rightarrow> 'a list \<Rightarrow> bool" where
  "ends_with s p = starts_with (rev s) (rev p)"

definition strip_prefix :: "'a list \<Rightarrow> 'a list \<Rightarrow> 'a list option" where
  "strip_prefix s p = (if starts_with s p then Some (drop (length p) s) else None)"

definition trim_start_matches :: "('a \<Rightarrow> bool) \<Rightarrow> 'a list \<Rightarrow> 'a list" where
  "trim_start_matches P s = dropWhile P s"

definition trim_end_matches :: "('a \<Rightarrow> bool) \<Rightarrow> 'a list \<Rightarrow> 'a list" where
  "trim_end_matches P s = rev (dropWhile P (rev s))"

definition trim_matches :: "('a \<Rightarrow> bool) \<Rightarrow> 'a list \<Rightarrow> 'a list" where
  "trim_matches P s = trim_end_matches P (trim_start_matches P s)"

definition is_whitespace :: "char \<Rightarrow> bool" where
  "is_whitespace c \<longleftrightarrow> c \<in> {CHR '' '', TAB, LF, CHR 0x0B, CHR 0x0C, CR}"

definition str_trim :: "string \<Rightarrow> string" where
  "str_trim s = trim_matches is_whitespace s"

text \<open>\<open>split(sep)\<close>: at least one part; \<open>split_whitespace\<close>: only the non-empty parts.\<close>

fun split_on :: "('a \<Rightarrow> bool) \<Rightarrow> 'a list \<Rightarrow> 'a list list" where
  "split_on P [] = [[]]"
| "split_on P (c # s) =
     (if P c then [] # split_on P s
      else case split_on P s of [] \<Rightarrow> [[c]] | p # ps \<Rightarrow> (c # p) # ps)"

lemma split_on_not_Nil [simp]: "split_on P s \<noteq> []"
  by (induction s) (auto split: list.splits)

lemma set_split_on: "c \<in> set s \<Longrightarrow> P c \<or> (\<exists>p \<in> set (split_on P s). c \<in> set p)"
proof (induction s)
  case (Cons x s)
  then show ?case
    by (cases "split_on P s") auto
qed simp

lemma split_on_empty: "split_on P s = [[]] \<longleftrightarrow> s = []"
  by (cases s) (auto split: list.splits)

lemma split_on_last: "last (split_on P s) \<noteq> [] \<Longrightarrow> s \<noteq> [] \<and> \<not> P (last s)"
proof (induction s)
  case (Cons x s)
  obtain p ps where s: "split_on P s = p # ps"
    by (cases "split_on P s") simp_all
  show ?case
  proof (cases "s = []")
    case False
    then have "p # ps \<noteq> [[]]"
      using split_on_empty[of P s] s by simp
    then have "last (split_on P s) \<noteq> []"
      using Cons.prems s by (auto split: if_splits)
    then show ?thesis
      using Cons.IH False by simp
  qed (use Cons.prems in \<open>simp split: if_splits\<close>)
qed simp

definition split_whitespace :: "string \<Rightarrow> string list" where
  "split_whitespace s = filter (\<lambda>p. p \<noteq> []) (split_on is_whitespace s)"

text \<open>\<open>lines()\<close>: a final empty part is no line; one carriage return before a line feed goes.\<close>

definition chop_cr :: "string \<Rightarrow> string" where
  "chop_cr l = (if l \<noteq> [] \<and> last l = CR then butlast l else l)"

definition str_lines :: "string \<Rightarrow> string list" where
  "str_lines s =
     (let parts = split_on (\<lambda>c. c = LF) s;
          full = map chop_cr (butlast parts)
      in if last parts = [] then full else full @ [last parts])"

definition split_once :: "'a \<Rightarrow> 'a list \<Rightarrow> ('a list \<times> 'a list) option" where
  "split_once c s = (if c \<in> set s then Some (takeWhile (\<lambda>x. x \<noteq> c) s, drop 1 (dropWhile (\<lambda>x. x \<noteq> c) s)) else None)"

definition rsplit_once :: "'a \<Rightarrow> 'a list \<Rightarrow> ('a list \<times> 'a list) option" where
  "rsplit_once c s = map_option (\<lambda>(a, b). (rev b, rev a)) (split_once c (rev s))"

definition to_ascii_lowercase :: "string \<Rightarrow> string" where
  "to_ascii_lowercase s = map (\<lambda>c. let n = of_char c :: nat in
     if 65 \<le> n \<and> n \<le> 90 then char_of (n + 32) else c) s"

definition is_ascii_digit :: "char \<Rightarrow> bool" where
  "is_ascii_digit c \<longleftrightarrow> (let n = of_char c :: nat in 48 \<le> n \<and> n \<le> 57)"

definition is_ascii_alphanumeric :: "char \<Rightarrow> bool" where
  "is_ascii_alphanumeric c \<longleftrightarrow> (let n = of_char c :: nat in
     48 \<le> n \<and> n \<le> 57 \<or> 65 \<le> n \<and> n \<le> 90 \<or> 97 \<le> n \<and> n \<le> 122)"


section \<open>Numbers\<close>

text \<open>\<open>char::to_digit(radix)\<close> for a radix up to 16.\<close>

definition to_digit :: "nat \<Rightarrow> char \<Rightarrow> nat option" where
  "to_digit radix c =
     (case to_digit16 c of Some d \<Rightarrow> if d < radix then Some d else None | None \<Rightarrow> None)"

fun digits_value :: "nat \<Rightarrow> nat \<Rightarrow> string \<Rightarrow> nat option" where
  "digits_value radix acc [] = Some acc"
| "digits_value radix acc (c # s) =
     (case to_digit radix c of Some d \<Rightarrow> digits_value radix (acc * radix + d) s | None \<Rightarrow> None)"

text \<open>\<open>uN::from_str_radix\<close>: an optional plus sign, at least one digit, no overflow of \<open>N\<close> bits.\<close>

definition parse_radix :: "nat \<Rightarrow> nat \<Rightarrow> string \<Rightarrow> nat option" where
  "parse_radix radix bits s =
     (let t = (case s of c # r \<Rightarrow> if c = CHR ''+'' \<and> r \<noteq> [] then r else s | [] \<Rightarrow> s) in
      if t = [] then None
      else case digits_value radix 0 t of
        Some v \<Rightarrow> if v < 2 ^ bits then Some v else None | None \<Rightarrow> None)"

definition digit_char :: "nat \<Rightarrow> char" where
  "digit_char d = char_of (48 + d)"

fun show_nat :: "nat \<Rightarrow> string" where
  "show_nat n = (if n < 10 then [digit_char n] else show_nat (n div 10) @ [digit_char (n mod 10)])"

declare show_nat.simps [simp del]

lemma to_digit_digit_char: "d < 10 \<Longrightarrow> to_digit 10 (digit_char d) = Some d"
  by (simp add: to_digit_def to_digit16_def digit_char_def Let_def take_bit_nat_eq_self)

lemma digits_value_append:
  "digits_value r acc (s @ t) =
     (case digits_value r acc s of Some v \<Rightarrow> digits_value r v t | None \<Rightarrow> None)"
  by (induction r acc s rule: digits_value.induct) (auto split: option.splits)

lemma digits_value_show_nat:
  "digits_value 10 0 (show_nat n) = Some n"
proof (induction n rule: show_nat.induct)
  case (1 n)
  show ?case
  proof (cases "n < 10")
    case True
    then show ?thesis
      by (simp add: show_nat.simps to_digit_digit_char)
  next
    case False
    then show ?thesis
      using 1 by (simp add: show_nat.simps[of n] digits_value_append to_digit_digit_char)
  qed
qed

lemma show_nat_not_Nil [simp]: "show_nat n \<noteq> []"
  by (simp add: show_nat.simps)

lemma show_nat_digits: "c \<in> set (show_nat n) \<Longrightarrow> is_ascii_digit c"
proof (induction n rule: show_nat.induct)
  case (1 n)
  have d: "is_ascii_digit (digit_char d)" if "d < 10" for d
    using that by (simp add: is_ascii_digit_def digit_char_def take_bit_nat_eq_self)
  show ?case
    using 1 d by (cases "n < 10") (auto simp: show_nat.simps[of n])
qed

lemma is_ascii_digit_not: "is_ascii_digit c \<Longrightarrow> of_char d \<notin> {48..57::nat} \<Longrightarrow> c \<noteq> d"
  by (auto simp: is_ascii_digit_def)

lemma parse_radix_show_nat: "n < 2 ^ b \<Longrightarrow> parse_radix 10 b (show_nat n) = Some n"
proof -
  assume n: "n < 2 ^ b"
  obtain c r where s: "show_nat n = c # r"
    by (cases "show_nat n") simp_all
  then have "is_ascii_digit c"
    using show_nat_digits[of c n] by simp
  then have "c \<noteq> CHR ''+''"
    by (auto simp: is_ascii_digit_def)
  then show ?thesis
    using n digits_value_show_nat[of n] s by (simp add: parse_radix_def)
qed


section \<open>Addresses\<close>

record SocketAddr =
  sa_ip :: IpAddr
  sa_port :: u16

text \<open>A parser consumes a prefix of the text.\<close>

type_synonym 'a reader = "string \<Rightarrow> ('a \<times> string) option"

fun read_given_char :: "char \<Rightarrow> unit reader" where
  "read_given_char c [] = None"
| "read_given_char c (x # r) = (if x = c then Some ((), r) else None)"

text \<open>\<open>read_number\<close>: digits until the first non-digit, failing on overflow or on more than
  \<open>maxd\<close> digits (0 for no limit).\<close>

fun read_digits :: "nat \<Rightarrow> nat \<Rightarrow> nat \<Rightarrow> nat \<Rightarrow> nat \<Rightarrow> (nat \<times> nat) reader" where
  "read_digits radix bits maxd acc cnt [] = Some ((acc, cnt), [])"
| "read_digits radix bits maxd acc cnt (c # r) =
     (case to_digit radix c of
        None \<Rightarrow> Some ((acc, cnt), c # r)
      | Some d \<Rightarrow>
          let v = acc * radix + d in
          if v \<ge> 2 ^ bits then None
          else if maxd \<noteq> 0 \<and> cnt + 1 > maxd then None
          else read_digits radix bits maxd v (cnt + 1) r)"

definition read_number :: "nat \<Rightarrow> nat \<Rightarrow> nat \<Rightarrow> bool \<Rightarrow> nat reader" where
  "read_number radix bits maxd allow_zero_prefix s =
     (case read_digits radix bits maxd 0 0 s of
        None \<Rightarrow> None
      | Some ((v, cnt), r) \<Rightarrow>
          if cnt = 0 then None
          else if \<not> allow_zero_prefix \<and> hd s = CHR ''0'' \<and> cnt > 1 then None
          else Some (v, r))"

definition read_octet :: "u8 reader" where
  "read_octet s = map_option (\<lambda>(v, r). (of_nat v, r)) (read_number 10 8 3 False s)"

definition read_dot_octet :: "u8 reader" where
  "read_dot_octet s = (case read_given_char (CHR ''.'') s of None \<Rightarrow> None | Some (_, r) \<Rightarrow> read_octet r)"

definition read_ipv4_addr :: "u32 reader" where
  "read_ipv4_addr s =
     (case read_octet s of None \<Rightarrow> None | Some (a, r1) \<Rightarrow>
      (case read_dot_octet r1 of None \<Rightarrow> None | Some (b, r2) \<Rightarrow>
       (case read_dot_octet r2 of None \<Rightarrow> None | Some (c, r3) \<Rightarrow>
        (case read_dot_octet r3 of None \<Rightarrow> None | Some (d, r4) \<Rightarrow>
          Some (of_be32 a b c d, r4)))))"

definition read_separator :: "nat \<Rightarrow> 'a reader \<Rightarrow> 'a reader" where
  "read_separator i inner s =
     (if i > 0 then (case read_given_char (CHR '':'') s of None \<Rightarrow> None | Some (_, r) \<Rightarrow> inner r)
      else inner s)"

text \<open>\<open>read_groups\<close>: the groups read so far in order, and whether an IPv4 tail ended them;
  \<open>n\<close> is the number of slots left, \<open>i\<close> the index of the next.\<close>

fun read_groups :: "nat \<Rightarrow> nat \<Rightarrow> string \<Rightarrow> u16 list \<times> bool \<times> string" where
  "read_groups 0 i s = ([], False, s)"
| "read_groups (Suc n) i s =
     (let other = (\<lambda>_ :: unit. case read_separator i (read_number 16 16 4 True) s of
            Some (g, r) \<Rightarrow> (case read_groups n (Suc i) r of (gs, v4, r') \<Rightarrow> (of_nat g # gs, v4, r'))
          | None \<Rightarrow> ([], False, s))
      in if n > 0 then
           (case read_separator i read_ipv4_addr s of
              Some (a, r) \<Rightarrow> ([ucast (drop_bit 16 a), ucast a], True, r)
            | None \<Rightarrow> other ())
         else other ())"

definition of_groups :: "u16 list \<Rightarrow> IpAddr" where
  "of_groups gs =
     (let w = (\<lambda>i. ucast (gs ! i) :: u64) in
      V6 (push_bit 48 (w 0) OR push_bit 32 (w 1) OR push_bit 16 (w 2) OR w 3)
         (push_bit 48 (w 4) OR push_bit 32 (w 5) OR push_bit 16 (w 6) OR w 7))"

definition read_ipv6_addr :: "IpAddr reader" where
  "read_ipv6_addr s =
     (case read_groups 8 0 s of (head, head_ipv4, r) \<Rightarrow>
        if length head = 8 then Some (of_groups head, r)
        else if head_ipv4 then None
        else (case read_given_char (CHR '':'') r of None \<Rightarrow> None | Some (_, r1) \<Rightarrow>
             (case read_given_char (CHR '':'') r1 of None \<Rightarrow> None | Some (_, r2) \<Rightarrow>
              (case read_groups (8 - (length head + 1)) 0 r2 of (tail, _, r3) \<Rightarrow>
                Some (of_groups (head @ replicate (8 - length tail - length head) 0 @ tail), r3)))))"

definition read_port :: "u16 reader" where
  "read_port s =
     (case read_given_char (CHR '':'') s of None \<Rightarrow> None
      | Some (_, r) \<Rightarrow> map_option (\<lambda>(v, r'). (of_nat v, r')) (read_number 10 16 0 True r))"

definition all_read :: "'a reader \<Rightarrow> string \<Rightarrow> 'a option" where
  "all_read p s = (case p s of Some (v, []) \<Rightarrow> Some v | _ \<Rightarrow> None)"

definition parse_ipv4_addr :: "string \<Rightarrow> u32 option" where
  "parse_ipv4_addr s = (if length s > 15 then None else all_read read_ipv4_addr s)"

definition parse_ipv6_addr :: "string \<Rightarrow> IpAddr option" where
  "parse_ipv6_addr s = all_read read_ipv6_addr s"

definition parse_ip_addr :: "string \<Rightarrow> IpAddr option" where
  "parse_ip_addr s = (case parse_ipv4_addr s of Some a \<Rightarrow> Some (V4 a) | None \<Rightarrow> parse_ipv6_addr s)"

definition read_socket_addr_v4 :: "SocketAddr reader" where
  "read_socket_addr_v4 s =
     (case read_ipv4_addr s of None \<Rightarrow> None
      | Some (a, r) \<Rightarrow> map_option (\<lambda>(p, r'). (\<lparr> sa_ip = V4 a, sa_port = p \<rparr>, r')) (read_port r))"

definition read_scope_id :: "unit reader" where
  "read_scope_id s = (case read_given_char (CHR ''%'') s of None \<Rightarrow> Some ((), s)
     | Some (_, r) \<Rightarrow> (case read_number 10 32 0 True r of Some (v, r') \<Rightarrow> Some ((), r') | None \<Rightarrow> Some ((), s)))"

definition read_socket_addr_v6 :: "SocketAddr reader" where
  "read_socket_addr_v6 s =
     (case read_given_char (CHR ''['') s of None \<Rightarrow> None | Some (_, r) \<Rightarrow>
      (case read_ipv6_addr r of None \<Rightarrow> None | Some (a, r1) \<Rightarrow>
       (case read_scope_id r1 of None \<Rightarrow> None | Some (_, r2) \<Rightarrow>
        (case read_given_char (CHR '']'') r2 of None \<Rightarrow> None | Some (_, r3) \<Rightarrow>
         map_option (\<lambda>(p, r'). (\<lparr> sa_ip = a, sa_port = p \<rparr>, r')) (read_port r3)))))"

definition parse_socket_address :: "string \<Rightarrow> SocketAddr option" where
  "parse_socket_address s =
     (case all_read read_socket_addr_v4 s of Some a \<Rightarrow> Some a | None \<Rightarrow> all_read read_socket_addr_v6 s)"

definition sa_is_ipv6 :: "SocketAddr \<Rightarrow> bool" where
  "sa_is_ipv6 a = is_ipv6 (sa_ip a)"

fun ip_is_unspecified :: "IpAddr \<Rightarrow> bool" where
  "ip_is_unspecified (V4 a) = (a = 0)"
| "ip_is_unspecified (V6 a b) = (a = 0 \<and> b = 0)"

definition octet :: "nat \<Rightarrow> u32 \<Rightarrow> u8" where
  "octet i a = be32 a ! i"

definition show_ipv4 :: "u32 \<Rightarrow> string" where
  "show_ipv4 a = show_nat (unat (octet 0 a)) @ ''.'' @ show_nat (unat (octet 1 a)) @ ''.'' @
     show_nat (unat (octet 2 a)) @ ''.'' @ show_nat (unat (octet 3 a))"

end
