(* ===== verification/Types.thy ===== *)
theory Types
  imports Std_Text
begin

text \<open>
  Shared enumerations of \<open>src/src/types.rs\<close>: the raw mode, the program mode, the
  choice of socket calls with its automatic rule, and the reader of a kernel configuration.
\<close>

datatype RawMode = FakeTcp | UdpMode | IcmpMode

definition RawMode_parse :: "string \<Rightarrow> (RawMode \<times> bool) option" where
  "RawMode_parse s =
     (if s = ''faketcp'' then Some (FakeTcp, False)
      else if s = ''easyfaketcp'' \<or> s = ''easy_faketcp'' \<or> s = ''easy-faketcp'' then Some (FakeTcp, True)
      else if s = ''udp'' then Some (UdpMode, False)
      else if s = ''icmp'' then Some (IcmpMode, False)
      else None)"

fun RawMode_name :: "RawMode \<Rightarrow> string" where
  "RawMode_name FakeTcp = ''faketcp''"
| "RawMode_name UdpMode = ''udp''"
| "RawMode_name IcmpMode = ''icmp''"

datatype ProgramMode = Client | Server

datatype Syscalls = SysAuto | Mmsg | Single

definition Syscalls_parse :: "string \<Rightarrow> Syscalls option" where
  "Syscalls_parse s =
     (if s = ''auto'' then Some SysAuto else if s = ''mmsg'' then Some Mmsg
      else if s = ''single'' then Some Single else None)"

fun Syscalls_name :: "Syscalls \<Rightarrow> string" where
  "Syscalls_name SysAuto = ''auto''"
| "Syscalls_name Mmsg = ''mmsg''"
| "Syscalls_name Single = ''single''"

definition decide :: "bool \<Rightarrow> bool option \<Rightarrow> Syscalls \<times> string" where
  "decide has_lse sw_pan =
     (if has_lse then (Mmsg, ''cpu has LSE atomics: ARMv8.1+ with hardware PAN'')
      else case sw_pan of
        Some False \<Rightarrow> (Mmsg, ''ARMv8.0 cpu, kernel built without software PAN'')
      | Some True \<Rightarrow> (Single, ''ARMv8.0 cpu, kernel uses software PAN (CONFIG_ARM64_SW_TTBR0_PAN)'')
      | None \<Rightarrow> (Single, ''ARMv8.0 cpu, kernel config not readable: assuming software PAN''))"

text \<open>\<open>resolve\<close>, given what the CPU and the kernel configuration report.\<close>

definition Syscalls_resolve :: "bool \<Rightarrow> bool option \<Rightarrow> Syscalls \<Rightarrow> Syscalls \<times> string" where
  "Syscalls_resolve lse kpan m =
     (case m of SysAuto \<Rightarrow> decide lse (if lse then None else kpan)
      | _ \<Rightarrow> (m, ''requested''))"

fun sw_pan_loop :: "string list \<Rightarrow> bool option" where
  "sw_pan_loop [] = None"
| "sw_pan_loop (l # ls) =
     (let t = str_trim l in
      if t = ''CONFIG_ARM64_SW_TTBR0_PAN=y'' then Some True
      else if t = ''# CONFIG_ARM64_SW_TTBR0_PAN is not set'' then Some False
      else sw_pan_loop ls)"

definition sw_pan_from_config :: "string \<Rightarrow> bool option" where
  "sw_pan_from_config text = sw_pan_loop (str_lines text)"

lemma RawMode_parse_name: "RawMode_parse (RawMode_name m) = Some (m, False)"
  by (cases m) (simp_all add: RawMode_parse_def)

lemma Syscalls_parse_name: "Syscalls_parse (Syscalls_name m) = Some m"
  by (cases m) (simp_all add: Syscalls_parse_def)

lemma Syscalls_resolve_concrete: "fst (Syscalls_resolve lse k m) \<noteq> SysAuto"
  by (cases m) (auto simp: Syscalls_resolve_def decide_def split: option.splits bool.splits)

end
