(* ===== verification/Endpoint_Spec.thy ===== *)
theory Endpoint_Spec
  imports Types
begin

text \<open>
  What \<open>-r\<close> names (\<open>EndpointSpec\<close> of \<open>src/src/endpoint.rs\<close>): a literal socket address or
  a host name, with the RFC 1123 syntax check; the limits of the last-good fallback; and
  the policy on relay addresses (\<open>check_endpoint_ip\<close> of \<open>src/src/dns.rs\<close>). Error texts are
  not modelled: an error is the kind of check that failed.
\<close>


section \<open>Host names and endpoint specifications\<close>

datatype spec_error = ExpectedHostPort | InvalidPort | BadLength | BadLabelLength | BadCharacter
  | BadHyphen | NumericTopLabel

datatype EndpointSpec = Literal SocketAddr | Hostname string u16

definition check_label :: "string \<Rightarrow> spec_error option" where
  "check_label l =
     (if l = [] \<or> length l > 63 then Some BadLabelLength
      else if \<not> list_all (\<lambda>b. is_ascii_alphanumeric b \<or> b = CHR ''-'') l then Some BadCharacter
      else if starts_with l ''-'' \<or> ends_with l ''-'' then Some BadHyphen
      else None)"

fun check_labels :: "string list \<Rightarrow> spec_error option" where
  "check_labels [] = None"
| "check_labels (l # ls) = (case check_label l of Some e \<Rightarrow> Some e | None \<Rightarrow> check_labels ls)"

definition validate_hostname :: "string \<Rightarrow> spec_error option" where
  "validate_hostname name =
     (let n = (if ends_with name ''.'' then butlast name else name) in
      if n = [] \<or> length n > 253 then Some BadLength
      else
        let labels = split_on (\<lambda>c. c = CHR ''.'') n in
        case check_labels labels of
          Some e \<Rightarrow> Some e
        | None \<Rightarrow> if list_all is_ascii_digit (last labels) then Some NumericTopLabel else None)"

definition EndpointSpec_parse :: "string \<Rightarrow> spec_error + EndpointSpec" where
  "EndpointSpec_parse s =
     (case parse_socket_address s of
        Some a \<Rightarrow> Inr (Literal a)
      | None \<Rightarrow>
        (case rsplit_once (CHR '':'') s of
           None \<Rightarrow> Inl ExpectedHostPort
         | Some (host, port) \<Rightarrow>
           (case parse_radix 10 16 port of
              None \<Rightarrow> Inl InvalidPort
            | Some p \<Rightarrow>
                if p = 0 then Inl InvalidPort
                else (case validate_hostname host of
                  Some e \<Rightarrow> Inl e
                | None \<Rightarrow> Inr (Hostname (to_ascii_lowercase (trim_end_matches (\<lambda>c. c = CHR ''.'') host))
                            (of_nat p))))))"

fun spec_port :: "EndpointSpec \<Rightarrow> u16" where
  "spec_port (Literal a) = sa_port a"
| "spec_port (Hostname n p) = p"

fun is_dynamic :: "EndpointSpec \<Rightarrow> bool" where
  "is_dynamic (Literal a) = False"
| "is_dynamic (Hostname n p) = True"

fun spec_hostname :: "EndpointSpec \<Rightarrow> string option" where
  "spec_hostname (Literal a) = None"
| "spec_hostname (Hostname n p) = Some n"


section \<open>Fallback limits\<close>

record LastGoodFallbackPolicy =
  fp_enabled :: bool
  fp_after_failures :: nat
  fp_max_attempts :: nat
  fp_cooldown_ms :: nat
  fp_max_age_ms :: nat
  fp_global_capacity :: nat
  fp_global_refill_ms :: nat
  fp_preferred_round_timeout_ms :: nat
  fp_probation_ms :: nat
  fp_rollback_window_ms :: nat

definition LastGoodFallbackPolicy_default :: LastGoodFallbackPolicy where
  "LastGoodFallbackPolicy_default = \<lparr> fp_enabled = False, fp_after_failures = 3, fp_max_attempts = 2,
     fp_cooldown_ms = 300000, fp_max_age_ms = 86400000, fp_global_capacity = 4,
     fp_global_refill_ms = 900000, fp_preferred_round_timeout_ms = 30000, fp_probation_ms = 30000,
     fp_rollback_window_ms = 300000 \<rparr>"


section \<open>Relay address policy\<close>

text \<open>The predicates of the standard library's \<open>Ipv4Addr\<close>.\<close>

definition ip4_is_loopback :: "u32 \<Rightarrow> bool" where
  "ip4_is_loopback a \<longleftrightarrow> octet 0 a = 127"

definition ip4_is_link_local :: "u32 \<Rightarrow> bool" where
  "ip4_is_link_local a \<longleftrightarrow> octet 0 a = 169 \<and> octet 1 a = 254"

definition ip4_is_multicast :: "u32 \<Rightarrow> bool" where
  "ip4_is_multicast a \<longleftrightarrow> 224 \<le> octet 0 a \<and> octet 0 a \<le> 239"

definition ip4_is_documentation :: "u32 \<Rightarrow> bool" where
  "ip4_is_documentation a \<longleftrightarrow> (octet 0 a, octet 1 a, octet 2 a) \<in> {(192, 0, 2), (198, 51, 100), (203, 0, 113)}"

definition ip4_is_private :: "u32 \<Rightarrow> bool" where
  "ip4_is_private a \<longleftrightarrow> octet 0 a = 10 \<or> octet 0 a = 172 \<and> 16 \<le> octet 1 a \<and> octet 1 a \<le> 31 \<or>
     octet 0 a = 192 \<and> octet 1 a = 168"

datatype endpoint_refusal = ThisNetwork | Loopback | LinkLocal | Multicast | BroadcastReserved
  | DocBenchmark | SpecialPurpose | Cgnat | PrivateRange | Ipv6Endpoint

definition check_endpoint_ip :: "u32 \<Rightarrow> bool \<Rightarrow> endpoint_refusal option" where
  "check_endpoint_ip ip allow_private =
     (let o0 = octet 0 ip; o1 = octet 1 ip; o2 = octet 2 ip in
      if ip = 0 \<or> o0 = 0 then Some ThisNetwork
      else if ip4_is_loopback ip then Some Loopback
      else if ip4_is_link_local ip then Some LinkLocal
      else if ip4_is_multicast ip then Some Multicast
      else if ip = 0xffffffff \<or> o0 \<ge> 240 then Some BroadcastReserved
      else if ip4_is_documentation ip \<or> (o0 = 198 \<and> (o1 = 18 \<or> o1 = 19)) then Some DocBenchmark
      else if (o0 = 192 \<and> o1 = 0 \<and> o2 = 0) \<or> (o0 = 192 \<and> o1 = 88 \<and> o2 = 99) then Some SpecialPurpose
      else
        let private = ip4_is_private ip; cgnat = (o0 = 100 \<and> 64 \<le> o1 \<and> o1 \<le> 127) in
        if (private \<or> cgnat) \<and> \<not> allow_private then Some (if cgnat then Cgnat else PrivateRange)
        else None)"

fun check_endpoint :: "IpAddr \<Rightarrow> bool \<Rightarrow> endpoint_refusal option" where
  "check_endpoint (V4 a) allow_private = check_endpoint_ip a allow_private"
| "check_endpoint (V6 a b) allow_private = Some Ipv6Endpoint"


text \<open>The blocks that are never relay addresses, and those accepted only on request, as
  prefix and length.\<close>

definition in_cidr :: "u32 \<Rightarrow> u32 \<times> nat \<Rightarrow> bool" where
  "in_cidr a = (\<lambda>(net, len). drop_bit (32 - len) a = drop_bit (32 - len) net)"

definition dotted :: "u8 \<Rightarrow> u8 \<Rightarrow> u8 \<Rightarrow> u8 \<Rightarrow> u32" where
  "dotted a b c d = of_be32 a b c d"

definition never_blocks :: "(u32 \<times> nat) list" where
  "never_blocks = [(dotted 0 0 0 0, 8), (dotted 127 0 0 0, 8), (dotted 169 254 0 0, 16), (dotted 224 0 0 0, 4),
     (dotted 240 0 0 0, 4), (dotted 192 0 2 0, 24), (dotted 198 51 100 0, 24), (dotted 203 0 113 0, 24),
     (dotted 198 18 0 0, 15), (dotted 192 0 0 0, 24), (dotted 192 88 99 0, 24)]"

definition private_blocks :: "(u32 \<times> nat) list" where
  "private_blocks = [(dotted 10 0 0 0, 8), (dotted 172 16 0 0, 12), (dotted 192 168 0 0, 16),
     (dotted 100 64 0 0, 10)]"

lemma unat_drop_bit32: "unat (drop_bit n w) = unat w div 2 ^ n" for w :: u32
  by (simp only: unat_drop_bit_eq) (simp only: drop_bit_eq_div)

lemma unat_byte_at: "unat (ucast (drop_bit n a) :: u8) = unat a div 2 ^ n mod 256" for a :: u32
  by (simp only: unsigned_ucast_eq unat_drop_bit32) (simp add: take_bit_eq_mod)

lemma octets_of_unat:
  "unat (octet 0 a) = unat a div 2 ^ 24" "unat (octet 1 a) = unat a div 2 ^ 16 mod 256"
  "unat (octet 2 a) = unat a div 2 ^ 8 mod 256"
proof -
  have o: "octet 0 a = ucast (drop_bit 24 a)" "octet 1 a = ucast (drop_bit 16 a)"
     "octet 2 a = ucast (drop_bit 8 a)"
    by (simp_all only: octet_def be32_def nth_Cons_0 nth_Cons_Suc One_nat_def numeral_2_eq_2)
  have "unat a < 2 ^ 32"
    using unsigned_less[of a] by simp
  then have "unat a div 2 ^ 24 mod 256 = unat a div 2 ^ 24"
    by simp
  then show "unat (octet 0 a) = unat a div 2 ^ 24" "unat (octet 1 a) = unat a div 2 ^ 16 mod 256"
    "unat (octet 2 a) = unat a div 2 ^ 8 mod 256"
    by (simp_all only: o unat_byte_at)
qed

lemma in_cidr_unat: "in_cidr a (net, len) \<longleftrightarrow> unat a div 2 ^ (32 - len) = unat net div 2 ^ (32 - len)"
  by (simp only: in_cidr_def prod.case word_unat_eq_iff unat_drop_bit32)

lemma cidr_octets:
  fixes a :: u32
  defines "p \<equiv> unat (octet 0 a)" and "q \<equiv> unat (octet 1 a)" and "r \<equiv> unat (octet 2 a)"
  shows "unat a div 2 ^ 24 = p" "unat a div 2 ^ 16 = p * 256 + q" "unat a div 2 ^ 8 = (p * 256 + q) * 256 + r"
    "unat a div 2 ^ 28 = p div 16" "unat a div 2 ^ 17 = (p * 256 + q) div 2"
    "unat a div 2 ^ 20 = (p * 256 + q) div 16" "unat a div 2 ^ 22 = (p * 256 + q) div 64"
proof -
  let ?n = "unat a"
  show 24: "?n div 2 ^ 24 = p"
    by (simp add: p_def octets_of_unat)
  have "?n div 2 ^ 16 = ?n div 2 ^ 16 div 256 * 256 + ?n div 2 ^ 16 mod 256"
    by simp
  moreover have "?n div 2 ^ 16 div 256 = ?n div 2 ^ 24"
    using div_mult2_eq[of ?n "2 ^ 16" 256] by simp
  ultimately show 16: "?n div 2 ^ 16 = p * 256 + q"
    using 24 by (simp only: q_def octets_of_unat)
  have "?n div 2 ^ 8 = ?n div 2 ^ 8 div 256 * 256 + ?n div 2 ^ 8 mod 256"
    by simp
  moreover have "?n div 2 ^ 8 div 256 = ?n div 2 ^ 16"
    using div_mult2_eq[of ?n "2 ^ 8" 256] by simp
  ultimately show "?n div 2 ^ 8 = (p * 256 + q) * 256 + r"
    using 16 by (simp only: r_def octets_of_unat)
  have "?n div 2 ^ 28 = ?n div 2 ^ 24 div 16" "?n div 2 ^ 17 = ?n div 2 ^ 16 div 2"
    "?n div 2 ^ 20 = ?n div 2 ^ 16 div 16" "?n div 2 ^ 22 = ?n div 2 ^ 16 div 64"
    using div_mult2_eq[of ?n "2 ^ 24" 16] div_mult2_eq[of ?n "2 ^ 16" 2] div_mult2_eq[of ?n "2 ^ 16" 16]
      div_mult2_eq[of ?n "2 ^ 16" 64] by simp_all
  then show "?n div 2 ^ 28 = p div 16" "?n div 2 ^ 17 = (p * 256 + q) div 2"
    "?n div 2 ^ 20 = (p * 256 + q) div 16" "?n div 2 ^ 22 = (p * 256 + q) div 64"
    by (simp_all only: 24 16)
qed

lemma div_mod_unique: "q < k \<Longrightarrow> p * k + q = n \<longleftrightarrow> p = n div k \<and> q = n mod k" for p q k n :: nat
  by auto

lemma div_range: "0 < k \<Longrightarrow> n div k = c \<longleftrightarrow> c * k \<le> n \<and> n < c * k + k" for n k c :: nat
  by (auto simp: div_nat_eqI add.commute dividend_less_times_div mult.commute)

lemma div_split: "0 < k \<Longrightarrow> (p * (m * k) + q) div k = p * m + q div k" for p q m k :: nat
  by (simp add: mult.assoc[symmetric])

lemma cidr_arith:
  fixes p q r :: nat
  assumes "q < 256" "r < 256"
  shows "p * 256 + q = 43518 \<longleftrightarrow> p = 169 \<and> q = 254" "p * 256 + q = 49320 \<longleftrightarrow> p = 192 \<and> q = 168"
    "p div 16 = 14 \<longleftrightarrow> 224 \<le> p \<and> p \<le> 239" "p div 16 = 15 \<longleftrightarrow> 240 \<le> p \<and> p \<le> 255"
    "(p * 256 + q) * 256 + r = 12582914 \<longleftrightarrow> p = 192 \<and> q = 0 \<and> r = 2"
    "(p * 256 + q) * 256 + r = 12989284 \<longleftrightarrow> p = 198 \<and> q = 51 \<and> r = 100"
    "(p * 256 + q) * 256 + r = 13303921 \<longleftrightarrow> p = 203 \<and> q = 0 \<and> r = 113"
    "(p * 256 + q) * 256 + r = 12582912 \<longleftrightarrow> p = 192 \<and> q = 0 \<and> r = 0"
    "(p * 256 + q) * 256 + r = 12605539 \<longleftrightarrow> p = 192 \<and> q = 88 \<and> r = 99"
    "(p * 256 + q) div 2 = 25353 \<longleftrightarrow> p = 198 \<and> 18 \<le> q \<and> q \<le> 19"
    "(p * 256 + q) div 16 = 2753 \<longleftrightarrow> p = 172 \<and> 16 \<le> q \<and> q \<le> 31"
    "(p * 256 + q) div 64 = 401 \<longleftrightarrow> p = 100 \<and> 64 \<le> q \<and> q \<le> 127"
proof -
  show "p * 256 + q = 43518 \<longleftrightarrow> p = 169 \<and> q = 254" "p * 256 + q = 49320 \<longleftrightarrow> p = 192 \<and> q = 168"
    using assms by (simp_all add: div_mod_unique)
  show "p div 16 = 14 \<longleftrightarrow> 224 \<le> p \<and> p \<le> 239" "p div 16 = 15 \<longleftrightarrow> 240 \<le> p \<and> p \<le> 255"
    by (auto simp: div_range)
  show "(p * 256 + q) * 256 + r = 12582914 \<longleftrightarrow> p = 192 \<and> q = 0 \<and> r = 2"
    "(p * 256 + q) * 256 + r = 12989284 \<longleftrightarrow> p = 198 \<and> q = 51 \<and> r = 100"
    "(p * 256 + q) * 256 + r = 13303921 \<longleftrightarrow> p = 203 \<and> q = 0 \<and> r = 113"
    "(p * 256 + q) * 256 + r = 12582912 \<longleftrightarrow> p = 192 \<and> q = 0 \<and> r = 0"
    "(p * 256 + q) * 256 + r = 12605539 \<longleftrightarrow> p = 192 \<and> q = 88 \<and> r = 99"
    by (simp_all only: div_mod_unique[OF assms(2)]) (simp_all add: div_mod_unique assms(1))
  have e: "(p * 256 + q) div 2 = p * 128 + q div 2" "(p * 256 + q) div 16 = p * 16 + q div 16"
     "(p * 256 + q) div 64 = p * 4 + q div 64"
    using div_split[of 2 p 128 q] div_split[of 16 p 16 q] div_split[of 64 p 4 q] by simp_all
  have l: "q div 2 < 128" "q div 16 < 16" "q div 64 < 4"
    using assms by simp_all
  have r: "q div 2 = 9 \<longleftrightarrow> 18 \<le> q \<and> q \<le> 19" "q div 16 = 1 \<longleftrightarrow> 16 \<le> q \<and> q \<le> 31"
    "q div 64 = 1 \<longleftrightarrow> 64 \<le> q \<and> q \<le> 127"
    by (simp_all only: div_range) auto
  show "(p * 256 + q) div 2 = 25353 \<longleftrightarrow> p = 198 \<and> 18 \<le> q \<and> q \<le> 19"
    "(p * 256 + q) div 16 = 2753 \<longleftrightarrow> p = 172 \<and> 16 \<le> q \<and> q \<le> 31"
    "(p * 256 + q) div 64 = 401 \<longleftrightarrow> p = 100 \<and> 64 \<le> q \<and> q \<le> 127"
    unfolding e r[symmetric] div_mod_unique[OF l(1)] div_mod_unique[OF l(2)] div_mod_unique[OF l(3)]
    by simp_all
qed

lemma octet_cmp:
  "octet i a = n \<longleftrightarrow> unat (octet i a) = unat n" "n \<le> octet i a \<longleftrightarrow> unat n \<le> unat (octet i a)"
  "octet i a \<le> n \<longleftrightarrow> unat (octet i a) \<le> unat n"
  by (simp_all add: word_unat_eq_iff word_le_nat_alt)

lemma in_blocks:
  fixes a :: u32
  defines "p \<equiv> unat (octet 0 a)" and "q \<equiv> unat (octet 1 a)" and "r \<equiv> unat (octet 2 a)"
  shows "(\<exists>b \<in> set never_blocks. in_cidr a b) \<longleftrightarrow>
      p = 0 \<or> p = 127 \<or> p = 169 \<and> q = 254 \<or> 224 \<le> p \<and> p \<le> 239 \<or> 240 \<le> p \<and> p \<le> 255 \<or>
      (p = 192 \<and> q = 0 \<and> r = 2) \<or> (p = 198 \<and> q = 51 \<and> r = 100) \<or> (p = 203 \<and> q = 0 \<and> r = 113) \<or>
      (p = 198 \<and> 18 \<le> q \<and> q \<le> 19) \<or> (p = 192 \<and> q = 0 \<and> r = 0) \<or> (p = 192 \<and> q = 88 \<and> r = 99)"
    and "(\<exists>b \<in> set private_blocks. in_cidr a b) \<longleftrightarrow>
      p = 10 \<or> (p = 172 \<and> 16 \<le> q \<and> q \<le> 31) \<or> (p = 192 \<and> q = 168) \<or> (p = 100 \<and> 64 \<le> q \<and> q \<le> 127)"
proof -
  have b: "p < 256" "q < 256" "r < 256"
    by (simp_all add: p_def q_def r_def unat8_less)
  let ?n = "unat a"
  have nb: "(\<exists>b \<in> set never_blocks. in_cidr a b) \<longleftrightarrow> ?n div 2 ^ 24 = 0 \<or> ?n div 2 ^ 24 = 127 \<or>
      ?n div 2 ^ 16 = 43518 \<or> ?n div 2 ^ 28 = 14 \<or> ?n div 2 ^ 28 = 15 \<or> ?n div 2 ^ 8 = 12582914 \<or>
      ?n div 2 ^ 8 = 12989284 \<or> ?n div 2 ^ 8 = 13303921 \<or> ?n div 2 ^ 17 = 25353 \<or>
      ?n div 2 ^ 8 = 12582912 \<or> ?n div 2 ^ 8 = 12605539"
    by (simp add: never_blocks_def in_cidr_unat dotted_def of_be32_def bcat_def)
  have pb: "(\<exists>b \<in> set private_blocks. in_cidr a b) \<longleftrightarrow> ?n div 2 ^ 24 = 10 \<or> ?n div 2 ^ 20 = 2753 \<or>
      ?n div 2 ^ 16 = 49320 \<or> ?n div 2 ^ 22 = 401"
    by (simp add: private_blocks_def in_cidr_unat dotted_def of_be32_def bcat_def)
  note c = cidr_octets[of a, folded p_def q_def r_def]
  show "(\<exists>b \<in> set never_blocks. in_cidr a b) \<longleftrightarrow>
      p = 0 \<or> p = 127 \<or> p = 169 \<and> q = 254 \<or> 224 \<le> p \<and> p \<le> 239 \<or> 240 \<le> p \<and> p \<le> 255 \<or>
      (p = 192 \<and> q = 0 \<and> r = 2) \<or> (p = 198 \<and> q = 51 \<and> r = 100) \<or> (p = 203 \<and> q = 0 \<and> r = 113) \<or>
      (p = 198 \<and> 18 \<le> q \<and> q \<le> 19) \<or> (p = 192 \<and> q = 0 \<and> r = 0) \<or> (p = 192 \<and> q = 88 \<and> r = 99)"
    unfolding nb unfolding c cidr_arith[OF b(2,3)] ..
  show "(\<exists>b \<in> set private_blocks. in_cidr a b) \<longleftrightarrow>
      p = 10 \<or> (p = 172 \<and> 16 \<le> q \<and> q \<le> 31) \<or> (p = 192 \<and> q = 168) \<or> (p = 100 \<and> 64 \<le> q \<and> q \<le> 127)"
    unfolding pb unfolding c cidr_arith[OF b(2,3)] ..
qed


section \<open>Properties\<close>

lemma in_cidr_zero: "octet 0 (0 :: u32) = 0" "octet 0 (0xffffffff :: u32) = 255"
  by (simp_all add: octet_def be32_def)

text \<open>C29: The relay address policy is the address registry: without
  \<open>--allow-private-endpoint\<close> an IPv4 answer is accepted exactly when it lies in none of the
  special-purpose and private blocks, and with it exactly when it lies in none of the
  special-purpose blocks. The octet tests of the code and the prefix list agree on all
  addresses.\<close>

theorem endpoint_policy_is_block_list:
  "(check_endpoint_ip a False = None \<longleftrightarrow>
      (\<forall>b \<in> set never_blocks. \<not> in_cidr a b) \<and> (\<forall>b \<in> set private_blocks. \<not> in_cidr a b)) \<and>
   (check_endpoint_ip a True = None \<longleftrightarrow> (\<forall>b \<in> set never_blocks. \<not> in_cidr a b))"
proof -
  let ?p = "unat (octet 0 a)" and ?q = "unat (octet 1 a)" and ?r = "unat (octet 2 a)"
  have "a = 0 \<Longrightarrow> ?p = 0" "a = 0xffffffff \<Longrightarrow> ?p = 255" "?p \<le> 255"
    using unat8_less[of "octet 0 a"] by (simp_all add: in_cidr_zero)
  then have z: "a = 0 \<or> octet 0 a = 0 \<longleftrightarrow> ?p = 0"
      "a = 0xffffffff \<or> 240 \<le> octet 0 a \<longleftrightarrow> 240 \<le> ?p \<and> ?p \<le> 255"
    by (auto simp: octet_cmp)
  have m: "\<And>P. (\<forall>b \<in> set P. \<not> in_cidr a b) \<longleftrightarrow> \<not> (\<exists>b \<in> set P. in_cidr a b)"
    by blast
  have n: "(if c then Some e else x) = None \<longleftrightarrow> \<not> c \<and> x = None" for c x and e :: endpoint_refusal
    by simp
  have d: "ip4_is_documentation a \<longleftrightarrow> (?p = 192 \<and> ?q = 0 \<and> ?r = 2) \<or> (?p = 198 \<and> ?q = 51 \<and> ?r = 100) \<or>
      (?p = 203 \<and> ?q = 0 \<and> ?r = 113)"
    by (auto simp: ip4_is_documentation_def octet_cmp)
  have q: "octet 1 a = 18 \<or> octet 1 a = 19 \<longleftrightarrow> 18 \<le> ?q \<and> ?q \<le> 19"
    by (auto simp: octet_cmp)
  have c: "check_endpoint_ip a ap = None \<longleftrightarrow>
     \<not> (?p = 0 \<or> ?p = 127 \<or> ?p = 169 \<and> ?q = 254 \<or> 224 \<le> ?p \<and> ?p \<le> 239 \<or> 240 \<le> ?p \<and> ?p \<le> 255 \<or>
      (?p = 192 \<and> ?q = 0 \<and> ?r = 2) \<or> (?p = 198 \<and> ?q = 51 \<and> ?r = 100) \<or> (?p = 203 \<and> ?q = 0 \<and> ?r = 113) \<or>
      (?p = 198 \<and> 18 \<le> ?q \<and> ?q \<le> 19) \<or> (?p = 192 \<and> ?q = 0 \<and> ?r = 0) \<or> (?p = 192 \<and> ?q = 88 \<and> ?r = 99)) \<and>
     (ap \<or> \<not> (?p = 10 \<or> (?p = 172 \<and> 16 \<le> ?q \<and> ?q \<le> 31) \<or> (?p = 192 \<and> ?q = 168) \<or>
        (?p = 100 \<and> 64 \<le> ?q \<and> ?q \<le> 127)))" for ap
    unfolding check_endpoint_ip_def Let_def n z d q
    unfolding ip4_is_loopback_def ip4_is_link_local_def ip4_is_multicast_def ip4_is_private_def octet_cmp
    by (cases ap) simp_all
  show ?thesis
    unfolding m in_blocks c by simp
qed

theorem endpoint_policy_is_block_list_witness:
  "check_endpoint_ip 0x08080808 False = None \<and> check_endpoint_ip 0x0a000001 True = None \<and>
   check_endpoint_ip 0x0a000001 False \<noteq> None"
  using endpoint_policy_is_block_list[of "0x08080808"] endpoint_policy_is_block_list[of "0x0a000001"]
  by (simp add: never_blocks_def private_blocks_def in_cidr_def dotted_def of_be32_def bcat_def)

lemma check_labels_iff: "check_labels ls = None \<longleftrightarrow> (\<forall>l \<in> set ls. check_label l = None)"
  by (induction ls) (auto split: option.splits)

lemma trim_end_last: "s \<noteq> [] \<Longrightarrow> \<not> P (last s) \<Longrightarrow> trim_end_matches P s = s"
  by (cases s rule: rev_cases) (simp_all add: trim_end_matches_def)

lemma trim_end_one:
  assumes "n \<noteq> []" "\<not> P (last n)" "\<And>c. P c \<longleftrightarrow> c = d"
  shows "trim_end_matches P (n @ [d]) = n" "trim_end_matches P n = n"
  using assms trim_end_last[of n P] by (simp_all add: trim_end_matches_def)

lemma ends_with_singleton: "ends_with s [d] \<longleftrightarrow> s \<noteq> [] \<and> last s = d"
  by (cases s rule: rev_cases) (auto simp: ends_with_def)

lemma lowercase_alnum:
  assumes "is_ascii_alphanumeric c"
  shows "\<exists>d. to_ascii_lowercase [c] = [d] \<and> is_ascii_alphanumeric d \<and> \<not> (65 \<le> (of_char d :: nat) \<and> (of_char d :: nat) \<le> 90)"
proof (cases "65 \<le> (of_char c :: nat) \<and> (of_char c :: nat) \<le> 90")
  case True
  then show ?thesis
    by (simp add: to_ascii_lowercase_def is_ascii_alphanumeric_def)
next
  case False
  then show ?thesis
    using assms by (auto simp: to_ascii_lowercase_def Let_def)
qed

definition dns_char :: "char \<Rightarrow> bool" where
  "dns_char c \<longleftrightarrow> c = CHR ''.'' \<or> c = CHR ''-'' \<or>
     is_ascii_alphanumeric c \<and> \<not> (65 \<le> (of_char c :: nat) \<and> (of_char c :: nat) \<le> 90)"

lemma dns_char_lowercase:
  assumes "\<And>c. c \<in> set s \<Longrightarrow> c = CHR ''.'' \<or> c = CHR ''-'' \<or> is_ascii_alphanumeric c"
  shows "\<forall>c \<in> set (to_ascii_lowercase s). dns_char c"
proof
  fix d
  assume "d \<in> set (to_ascii_lowercase s)"
  then obtain c where c: "c \<in> set s" "to_ascii_lowercase [c] = [d]"
    by (auto simp: to_ascii_lowercase_def)
  consider "c = CHR ''.''" | "c = CHR ''-''" | "is_ascii_alphanumeric c"
    using assms[OF c(1)] by blast
  then show "dns_char d"
  proof cases
    case 3
    then show ?thesis
      using lowercase_alnum[OF 3] c(2) by (auto simp: dns_char_def)
  qed (use c(2) in \<open>simp_all add: to_ascii_lowercase_def dns_char_def\<close>)
qed

lemma validate_hostname_sound:
  assumes "validate_hostname host = None"
  defines "n \<equiv> trim_end_matches (\<lambda>c. c = CHR ''.'') host"
  shows "n \<noteq> []" "length n \<le> 253" "\<And>c. c \<in> set n \<Longrightarrow> c = CHR ''.'' \<or> c = CHR ''-'' \<or> is_ascii_alphanumeric c"
proof -
  define m where "m = (if ends_with host ''.'' then butlast host else host)"
  let ?ls = "split_on (\<lambda>c. c = CHR ''.'') m"
  have v: "m \<noteq> []" "length m \<le> 253" "check_labels ?ls = None"
    using assms(1) unfolding validate_hostname_def m_def[symmetric] Let_def
    by (auto split: if_splits option.splits)
  have "last ?ls \<noteq> []"
    using v(3) last_in_set[OF split_on_not_Nil, of "\<lambda>c. c = CHR ''.''" m]
    by (auto simp: check_labels_iff check_label_def split: if_splits)
  then have "last m \<noteq> CHR ''.''"
    using split_on_last[of "\<lambda>c. c = CHR ''.''" m] by simp
  then have m: "trim_end_matches (\<lambda>c. c = CHR ''.'') (m @ ''.'') = m" "trim_end_matches (\<lambda>c. c = CHR ''.'') m = m"
    using trim_end_one[of m "\<lambda>c. c = CHR ''.''" "CHR ''.''"] v(1) by simp_all
  have "host = m @ ''.'' \<or> host = m"
    unfolding m_def ends_with_singleton by (metis append_butlast_last_id)
  then have nm: "n = m"
    using m by (auto simp: n_def)
  show "n \<noteq> []" "length n \<le> 253"
    using v nm by simp_all
  show "c = CHR ''.'' \<or> c = CHR ''-'' \<or> is_ascii_alphanumeric c" if "c \<in> set n" for c
    using set_split_on[of c m "\<lambda>c. c = CHR ''.''"] that v(3) nm
    by (auto simp: check_labels_iff check_label_def list_all_iff split: if_splits)
qed

text \<open>C30: Whatever \<open>-r\<close> accepts as a host name is safe to put in a DNS question and in the
  default cache path: its port is not zero, it has 1 to 253 characters, and they are
  lower-case letters, digits, hyphens and dots only (no slash, no colon, no blank).\<close>

theorem hostname_spec_safe:
  assumes "EndpointSpec_parse s = Inr (Hostname name p)"
  shows "p \<noteq> 0 \<and> name \<noteq> [] \<and> length name \<le> 253 \<and> list_all dns_char name"
proof -
  obtain host port v where h: "rsplit_once (CHR '':'') s = Some (host, port)"
      "parse_radix 10 16 port = Some v" "v \<noteq> 0" "validate_hostname host = None"
      "name = to_ascii_lowercase (trim_end_matches (\<lambda>c. c = CHR ''.'') host)" "p = of_nat v"
    using assms by (auto simp: EndpointSpec_parse_def split: option.splits if_splits)
  have "v < 2 ^ 16"
    using h(2) by (auto simp: parse_radix_def Let_def split: if_splits option.splits)
  then have "unat p = v"
    using h(6) unat_of_nat_small[of v, where 'a = 16] by simp
  then have "p \<noteq> 0"
    using h(3) by auto
  then show ?thesis
    using validate_hostname_sound[OF h(4)] dns_char_lowercase h(5)
    by (auto simp: list_all_iff to_ascii_lowercase_def)
qed

theorem hostname_spec_safe_witness:
  "EndpointSpec_parse ''Ab.c.:9'' = Inr (Hostname ''ab.c'' 9) \<and> list_all dns_char ''ab.c''"
proof -
  have e: "EndpointSpec_parse ''Ab.c.:9'' = Inr (Hostname ''ab.c'' 9)"
    by (simp add: EndpointSpec_parse_def parse_socket_address_def all_read_def read_socket_addr_v4_def
      read_ipv4_addr_def read_octet_def read_number_def to_digit_def to_digit16_def read_socket_addr_v6_def
      rsplit_once_def split_once_def parse_radix_def validate_hostname_def ends_with_def check_label_def
      is_ascii_alphanumeric_def is_ascii_digit_def to_ascii_lowercase_def trim_end_matches_def char_of_def bit_Suc_0_iff)
  from hostname_spec_safe[OF this] e show ?thesis
    by simp
qed

end
