(* ===== verification/Config.thy ===== *)
theory Config
  imports Endpoint_Spec Crypto
begin

text \<open>
  Command line and configuration file (\<open>src/src/config.rs\<close>): splitting of a configuration
  line, expansion of \<open>--conf-file\<close>, the helpers for addresses, keys and MAC addresses, and
  \<open>parse_args\<close> with every check in the order of the code. The option parser (the clap
  crate) is the parameter \<open>clap\<close>; the file system is the parameter \<open>fs\<close>, from a path to the
  bytes of the file. An error is the check that failed.
\<close>


section \<open>Sequencing of fallible steps\<close>

definition sbind :: "'e + 'a \<Rightarrow> ('a \<Rightarrow> 'e + 'b) \<Rightarrow> 'e + 'b" where
  "sbind m f = (case m of Inl e \<Rightarrow> Inl e | Inr x \<Rightarrow> f x)"

definition reject_if :: "bool \<Rightarrow> 'e \<Rightarrow> 'e + unit" where
  "reject_if c e = (if c then Inl e else Inr ())"

definition ok_or :: "'a option \<Rightarrow> 'e \<Rightarrow> 'e + 'a" where
  "ok_or x e = (case x of None \<Rightarrow> Inl e | Some v \<Rightarrow> Inr v)"

lemma sbind_Inr_iff: "sbind m f = Inr y \<longleftrightarrow> (\<exists>x. m = Inr x \<and> f x = Inr y)"
  by (cases m) (simp_all add: sbind_def)

lemma reject_if_Inr_iff: "reject_if c e = Inr u \<longleftrightarrow> \<not> c"
  by (simp add: reject_if_def)

lemma ok_or_Inr_iff: "ok_or x e = Inr v \<longleftrightarrow> x = Some v"
  by (cases x) (simp_all add: ok_or_def)

lemma sbind_Inr [simp]: "sbind (Inr x) f = f x"
  by (simp add: sbind_def)

lemma sbind_Inl [simp]: "sbind (Inl e) f = Inl e"
  by (simp add: sbind_def)

lemmas seq_simps = sbind_Inr_iff reject_if_Inr_iff ok_or_Inr_iff


section \<open>Constants (consts.rs)\<close>

definition MAX_SEQ_MODE :: int where "MAX_SEQ_MODE = 4"
definition DEFAULT_SEQ_MODE :: int where "DEFAULT_SEQ_MODE = 3"
definition DEFAULT_HB_LEN :: nat where "DEFAULT_HB_LEN = 1200"
definition DEFAULT_MTU_WARN :: nat where "DEFAULT_MTU_WARN = 1375"
definition DEFAULT_SOCKET_BUF_SIZE :: nat where "DEFAULT_SOCKET_BUF_SIZE = 1024 * 1024"
definition DEFAULT_TTL :: u8 where "DEFAULT_TTL = 64"
definition DEFAULT_MAX_RST_TO_SHOW :: int where "DEFAULT_MAX_RST_TO_SHOW = 15"
definition DEFAULT_MAX_RST_ALLOWED :: int where "DEFAULT_MAX_RST_ALLOWED = -1"
definition CLIENT_CONN_TIMEOUT_MS :: nat where "CLIENT_CONN_TIMEOUT_MS = 10000"
definition CLIENT_HANDSHAKE_TIMEOUT_MS :: nat where "CLIENT_HANDSHAKE_TIMEOUT_MS = 5000"
definition TIMER_INTERVAL_MS :: nat where "TIMER_INTERVAL_MS = 400"

lemmas config_consts = MAX_SEQ_MODE_def DEFAULT_SEQ_MODE_def DEFAULT_HB_LEN_def DEFAULT_MTU_WARN_def
  DEFAULT_SOCKET_BUF_SIZE_def DEFAULT_TTL_def DEFAULT_MAX_RST_TO_SHOW_def DEFAULT_MAX_RST_ALLOWED_def
  CLIENT_CONN_TIMEOUT_MS_def CLIENT_HANDSHAKE_TIMEOUT_MS_def TIMER_INTERVAL_MS_def


section \<open>Records\<close>

record Cli =
  c_client :: bool
  c_server :: bool
  c_local :: "string option"
  c_remote :: "string option"
  c_key :: "string option"
  c_key_file :: "string option"
  c_auto_rule :: bool
  c_gen_rule :: bool
  c_gen_add :: bool
  c_keep_rule :: bool
  c_clear :: bool
  c_wait_lock :: bool
  c_raw_mode :: "string option"
  c_cipher_mode :: "string option"
  c_auth_mode :: "string option"
  c_disable_anti_replay :: bool
  c_fix_gro :: bool
  c_source_ip :: "string option"
  c_source_port :: "u16 option"
  c_fifo :: "string option"
  c_log_level :: "int option"
  c_log_position :: bool
  c_disable_color :: bool
  c_disable_bpf :: bool
  c_dev :: "string option"
  c_sock_buf :: "nat option"
  c_force_sock_buf :: bool
  c_seq_mode :: "int option"
  c_lower_level :: "string option"
  c_hb_mode :: "int option"
  c_hb_len :: "nat option"
  c_mtu_warn :: "nat option"
  c_max_rst_to_show :: "int option"
  c_max_rst_allowed :: "int option"
  c_set_ttl :: "u8 option"
  c_retry_on_error :: bool
  c_random_drop :: "nat option"
  c_easy_tcp :: bool
  c_dns_server :: "string list"
  c_dns_timeout :: "nat option"
  c_underlay_dev :: "string option"
  c_underlay_gateway :: "string option"
  c_allow_private_endpoint :: bool
  c_endpoint_cache :: "string option"
  c_bootstrap_addr :: "string option"
  c_last_good_fallback :: bool
  c_lg_after :: "nat option"
  c_lg_max_attempts :: "nat option"
  c_lg_cooldown :: "nat option"
  c_lg_max_age :: "nat option"
  c_lg_global_attempts :: "nat option"
  c_lg_global_refill :: "nat option"
  c_lg_round_timeout :: "nat option"
  c_lg_probation :: "nat option"
  c_lg_rollback_window :: "nat option"
  c_debug :: bool
  c_threads :: "nat option"
  c_aes_backend :: "string option"
  c_syscalls :: "string option"

datatype LowerLevel = LLAuto | LLManual string "u8 list"

record Config =
  cfg_mode :: ProgramMode
  cfg_local_addr :: SocketAddr
  cfg_remote_addr :: SocketAddr
  cfg_remote :: EndpointSpec
  cfg_dns_servers :: "SocketAddr list"
  cfg_dns_timeout_ms :: nat
  cfg_underlay_dev :: "string option"
  cfg_underlay_gateway :: "u32 option"
  cfg_allow_private_endpoint :: bool
  cfg_endpoint_cache :: "string option"
  cfg_bootstrap_addr :: "u32 option"
  cfg_last_good_fallback :: LastGoodFallbackPolicy
  cfg_key :: string
  cfg_raw_mode :: RawMode
  cfg_easy_faketcp :: bool
  cfg_cipher_mode :: CipherMode
  cfg_cfb_legacy :: bool
  cfg_auth_mode :: AuthMode
  cfg_disable_anti_replay :: bool
  cfg_fix_gro :: bool
  cfg_source_ip :: "IpAddr option"
  cfg_source_port :: "u16 option"
  cfg_fifo :: "string option"
  cfg_log_level :: int
  cfg_log_position :: bool
  cfg_log_color :: bool
  cfg_disable_bpf :: bool
  cfg_dev :: "string option"
  cfg_socket_buf_size :: nat
  cfg_force_socket_buf :: bool
  cfg_seq_mode :: int
  cfg_lower_level :: "LowerLevel option"
  cfg_hb_mode :: int
  cfg_hb_len :: nat
  cfg_mtu_warn :: nat
  cfg_max_rst_to_show :: int
  cfg_max_rst_allowed :: int
  cfg_ttl :: u8
  cfg_retry_on_error :: bool
  cfg_random_drop :: nat
  cfg_auto_rule :: bool
  cfg_gen_rule :: bool
  cfg_gen_add :: bool
  cfg_keep_rule :: bool
  cfg_clear_rules :: bool
  cfg_wait_lock :: bool
  cfg_debug :: bool
  cfg_threads :: nat
  cfg_aes_backend :: AesBackend
  cfg_syscalls :: Syscalls

definition cfg_is_client :: "Config \<Rightarrow> bool" where
  "cfg_is_client c \<longleftrightarrow> cfg_mode c = Client"

definition raw_is_v6 :: "Config \<Rightarrow> bool" where
  "raw_is_v6 c = (case cfg_mode c of Client \<Rightarrow> sa_is_ipv6 (cfg_remote_addr c)
     | Server \<Rightarrow> sa_is_ipv6 (cfg_local_addr c))"



section \<open>Configuration file\<close>

datatype cfg_error = NotBeginDash | DupConfFile | ConfFileParam | ConfFileOpen | NestedConfFile
  | EmptyArg | InvalidDash | ClapError string | ModeConflict | ModeMissing | NoLocal | NoRemote
  | BadSocketAddr | Port22 | BadRemote spec_error | ServerRemote | BadDnsServer | NeedDnsServer
  | DnsTimeout | BadGateway | GatewayNeedsDev | DevConflict | BadBootstrap
  | UnsafeBootstrap endpoint_refusal | FallbackOptIn | FallbackHostname | FallbackCache | FallbackFifo
  | OutOfBounds | RollbackWindow | NoRawMode | NoCipherMode | NoAuthMode | BadSourceIp | SockBuf
  | SeqMode | LowerLevelFormat | BadMac | HbMode | HbLen | MtuWarn | RandomDrop | NoAesBackend
  | NoSyscalls | LogLevel | TwoKeys | KeyFileRead | KeyFileEmpty | KeyFileUtf8

definition blank :: "char \<Rightarrow> bool" where
  "blank c \<longleftrightarrow> c = CHR '' '' \<or> c = TAB"

definition parse_conf_line :: "string \<Rightarrow> cfg_error + string list" where
  "parse_conf_line line =
     (let s = trim_matches blank line in
      if s = [] \<or> starts_with s ''#'' then Inr []
      else if \<not> starts_with s ''-'' then Inl NotBeginDash
      else if \<not> list_ex blank s then Inr [s]
      else Inr [takeWhile (\<lambda>c. \<not> blank c) s, trim_start_matches blank (dropWhile (\<lambda>c. \<not> blank c) s)])"

text \<open>The loop over the arguments: what is left, and the path of the file if one was named.\<close>

fun conf_scan :: "string list \<Rightarrow> string option \<Rightarrow> cfg_error + (string list \<times> string option)" where
  "conf_scan [] conf = Inr ([], conf)"
| "conf_scan (a # rest) conf =
     (if a = ''--conf-file'' then
        if conf \<noteq> None then Inl DupConfFile
        else (case rest of
            [] \<Rightarrow> Inl ConfFileParam
          | path # rest' \<Rightarrow>
              if starts_with path ''-'' then Inl ConfFileParam else conf_scan rest' (Some path))
      else sbind (conf_scan rest conf) (\<lambda>(out, c). Inr (a # out, c)))"

fun conf_lines :: "string list \<Rightarrow> cfg_error + string list" where
  "conf_lines [] = Inr []"
| "conf_lines (l # ls) =
     sbind (parse_conf_line l) (\<lambda>toks.
       if ''--conf-file'' \<in> set toks then Inl NestedConfFile
       else sbind (conf_lines ls) (\<lambda>r. Inr (toks @ r)))"

text \<open>UTF-8 validity, as \<open>String::from_utf8\<close> checks it.\<close>

definition cont :: "char \<Rightarrow> bool" where
  "cont c \<longleftrightarrow> (let n = of_char c :: nat in 128 \<le> n \<and> n \<le> 191)"

function (sequential) valid_utf8 :: "string \<Rightarrow> bool" where
  "valid_utf8 [] = True"
| "valid_utf8 (a # r) =
     (let n = of_char a :: nat in
      if n < 128 then valid_utf8 r
      else if 194 \<le> n \<and> n \<le> 223 then
        (case r of b # r' \<Rightarrow> cont b \<and> valid_utf8 r' | _ \<Rightarrow> False)
      else if 224 \<le> n \<and> n \<le> 239 then
        (case r of b # c # r' \<Rightarrow> cont b \<and> cont c \<and>
            (let m = of_char b :: nat in (n = 224 \<longrightarrow> 160 \<le> m) \<and> (n = 237 \<longrightarrow> m \<le> 159)) \<and> valid_utf8 r'
         | _ \<Rightarrow> False)
      else if 240 \<le> n \<and> n \<le> 244 then
        (case r of b # c # d # r' \<Rightarrow> cont b \<and> cont c \<and> cont d \<and>
            (let m = of_char b :: nat in (n = 240 \<longrightarrow> 144 \<le> m) \<and> (n = 244 \<longrightarrow> m \<le> 143)) \<and> valid_utf8 r'
         | _ \<Rightarrow> False)
      else False)"
  by pat_completeness auto
termination by (relation "measure length") auto

declare valid_utf8.simps(2) [simp del]

definition read_to_string :: "(string \<Rightarrow> string option) \<Rightarrow> string \<Rightarrow> string option" where
  "read_to_string fs path = (case fs path of Some t \<Rightarrow> if valid_utf8 t then Some t else None | None \<Rightarrow> None)"

definition expand_conf_file :: "(string \<Rightarrow> string option) \<Rightarrow> string list \<Rightarrow> cfg_error + string list" where
  "expand_conf_file fs args =
     sbind (conf_scan args None) (\<lambda>(out, conf).
       case conf of
         None \<Rightarrow> Inr out
       | Some path \<Rightarrow>
           sbind (ok_or (read_to_string fs path) ConfFileOpen) (\<lambda>text.
             sbind (conf_lines (str_lines text)) (\<lambda>toks. Inr (out @ toks))))"


section \<open>Parameters of options\<close>

definition parse_socket_addr :: "string \<Rightarrow> cfg_error + SocketAddr" where
  "parse_socket_addr s =
     (case parse_socket_address s of
        None \<Rightarrow> Inl BadSocketAddr
      | Some a \<Rightarrow> if sa_port a = 22 then Inl Port22 else Inr a)"

definition parse_dns_server :: "string \<Rightarrow> cfg_error + SocketAddr" where
  "parse_dns_server s =
     (case parse_socket_address s of
        Some a \<Rightarrow> Inr a
      | None \<Rightarrow> (case parse_ip_addr s of
          Some ip \<Rightarrow> Inr \<lparr> sa_ip = ip, sa_port = 53 \<rparr>
        | None \<Rightarrow> Inl BadDnsServer))"

fun parse_dns_servers :: "string list \<Rightarrow> cfg_error + SocketAddr list" where
  "parse_dns_servers [] = Inr []"
| "parse_dns_servers (s # ss) =
     sbind (parse_dns_server s) (\<lambda>a. sbind (parse_dns_servers ss) (\<lambda>r. Inr (a # r)))"

definition read_key_file :: "(string \<Rightarrow> string option) \<Rightarrow> string \<Rightarrow> cfg_error + string" where
  "read_key_file fs path =
     sbind (ok_or (fs path) KeyFileRead) (\<lambda>b0.
       let b1 = (if b0 \<noteq> [] \<and> last b0 = LF then
                   (let t = butlast b0 in if t \<noteq> [] \<and> last t = CR then butlast t else t)
                 else b0) in
       if b1 = [] then Inl KeyFileEmpty
       else if valid_utf8 b1 then Inr b1 else Inl KeyFileUtf8)"

fun mac_parts_parse :: "string list \<Rightarrow> u8 list option" where
  "mac_parts_parse [] = Some []"
| "mac_parts_parse (p # ps) =
     (case parse_radix 16 8 p of None \<Rightarrow> None
      | Some v \<Rightarrow> map_option (\<lambda>r. of_nat v # r) (mac_parts_parse ps))"

definition parse_mac :: "string \<Rightarrow> cfg_error + u8 list" where
  "parse_mac s =
     (let parts = split_on (\<lambda>c. c = CHR '':'') s in
      if length parts \<noteq> 6 then Inl BadMac else ok_or (mac_parts_parse parts) BadMac)"

definition bounded :: "nat \<Rightarrow> nat \<Rightarrow> nat \<Rightarrow> cfg_error + nat" where
  "bounded v lo hi = (if lo \<le> v \<and> v \<le> hi then Inr v else Inl OutOfBounds)"

definition bounded_secs :: "nat option \<Rightarrow> nat \<Rightarrow> nat \<Rightarrow> nat \<Rightarrow> cfg_error + nat" where
  "bounded_secs v dflt lo hi =
     sbind (bounded (case v of Some x \<Rightarrow> x | None \<Rightarrow> dflt) lo hi) (\<lambda>x. Inr (min (x * 1000) (2 ^ 64 - 1)))"

definition default_threads :: "nat \<Rightarrow> nat" where
  "default_threads n = nat (max 0 (min 4 (int n - 2)))"

definition opt_or :: "'a option \<Rightarrow> 'a \<Rightarrow> 'a" where
  "opt_or x d = (case x of Some v \<Rightarrow> v | None \<Rightarrow> d)"


section \<open>The checks of \<open>parse_args\<close>, in order\<close>

definition parse_remote :: "ProgramMode \<Rightarrow> string \<Rightarrow> cfg_error + EndpointSpec" where
  "parse_remote mode s =
     (if mode = Client then
        (case EndpointSpec_parse s of Inl e \<Rightarrow> Inl (BadRemote e) | Inr r \<Rightarrow> Inr r)
      else if parse_socket_address s \<noteq> None then
        sbind (parse_socket_addr s) (\<lambda>a. Inr (Literal a))
      else Inl ServerRemote)"

definition remote_start_addr :: "EndpointSpec \<Rightarrow> SocketAddr" where
  "remote_start_addr r = (case r of Literal a \<Rightarrow> a | Hostname n p \<Rightarrow> \<lparr> sa_ip = V4 0, sa_port = p \<rparr>)"

definition parse_bootstrap :: "Cli \<Rightarrow> cfg_error + u32 option" where
  "parse_bootstrap cli =
     (case c_bootstrap_addr cli of
        None \<Rightarrow> Inr None
      | Some b \<Rightarrow> sbind (ok_or (parse_ipv4_addr b) BadBootstrap) (\<lambda>ip.
          case check_endpoint_ip ip (c_allow_private_endpoint cli) of
            Some why \<Rightarrow> Inl (UnsafeBootstrap why)
          | None \<Rightarrow> Inr (Some ip)))"

definition endpoint_cache_path :: "Cli \<Rightarrow> EndpointSpec \<Rightarrow> string option" where
  "endpoint_cache_path cli remote =
     (case c_endpoint_cache cli of
        Some p \<Rightarrow> if p = ''none'' \<or> p = [] then None else Some p
      | None \<Rightarrow> (case remote of
            Hostname name port \<Rightarrow>
              Some (''/var/lib/udp2raw/endpoint_'' @ name @ ''_'' @ show_nat (unat port))
          | Literal a \<Rightarrow> None))"

definition fallback_tuning_present :: "Cli \<Rightarrow> bool" where
  "fallback_tuning_present cli \<longleftrightarrow> c_lg_after cli \<noteq> None \<or> c_lg_max_attempts cli \<noteq> None \<or>
     c_lg_cooldown cli \<noteq> None \<or> c_lg_max_age cli \<noteq> None \<or> c_lg_global_attempts cli \<noteq> None \<or>
     c_lg_global_refill cli \<noteq> None \<or> c_lg_round_timeout cli \<noteq> None \<or> c_lg_probation cli \<noteq> None \<or>
     c_lg_rollback_window cli \<noteq> None"

definition parse_fallback :: "Cli \<Rightarrow> EndpointSpec \<Rightarrow> string option \<Rightarrow> cfg_error + LastGoodFallbackPolicy" where
  "parse_fallback cli remote cache =
     sbind (reject_if (fallback_tuning_present cli \<and> \<not> c_last_good_fallback cli) FallbackOptIn) (\<lambda>_.
     sbind (reject_if (c_last_good_fallback cli \<and> \<not> is_dynamic remote) FallbackHostname) (\<lambda>_.
     sbind (reject_if (c_last_good_fallback cli \<and> cache = None) FallbackCache) (\<lambda>_.
     sbind (reject_if (c_last_good_fallback cli \<and> c_fifo cli = None) FallbackFifo) (\<lambda>_.
     sbind (bounded_secs (c_lg_probation cli) 30 1 86400) (\<lambda>probation_ms.
     sbind (bounded_secs (c_lg_rollback_window cli) 300 2 (7 * 86400)) (\<lambda>rollback_ms.
     sbind (bounded_secs (c_lg_round_timeout cli) 30 5 600) (\<lambda>round_ms.
     let required = min (CLIENT_CONN_TIMEOUT_MS + round_ms + CLIENT_HANDSHAKE_TIMEOUT_MS + probation_ms +
           2 * TIMER_INTERVAL_MS) (2 ^ 64 - 1) in
     sbind (reject_if (c_last_good_fallback cli \<and> required \<ge> rollback_ms) RollbackWindow) (\<lambda>_.
     sbind (bounded (opt_or (c_lg_after cli) 3) 1 100) (\<lambda>after_failures.
     sbind (bounded (opt_or (c_lg_max_attempts cli) 2) 1 100) (\<lambda>max_attempts.
     sbind (bounded_secs (c_lg_cooldown cli) 300 1 86400) (\<lambda>cooldown.
     sbind (bounded_secs (c_lg_max_age cli) 86400 1 (31 * 86400)) (\<lambda>max_age.
     sbind (bounded (opt_or (c_lg_global_attempts cli) 4) 1 100) (\<lambda>capacity.
     sbind (bounded_secs (c_lg_global_refill cli) 900 1 (7 * 86400)) (\<lambda>refill.
       Inr \<lparr> fp_enabled = c_last_good_fallback cli, fp_after_failures = after_failures,
         fp_max_attempts = max_attempts, fp_cooldown_ms = cooldown, fp_max_age_ms = max_age,
         fp_global_capacity = capacity, fp_global_refill_ms = refill,
         fp_preferred_round_timeout_ms = round_ms, fp_probation_ms = probation_ms,
         fp_rollback_window_ms = rollback_ms \<rparr>))))))))))))))"

text \<open>Cipher, authentication and anti-replay: an AEAD mode ignores \<open>--auth-mode\<close> and keeps
  anti-replay; no authentication at all switches it off.\<close>

definition parse_modes ::
  "Cli \<Rightarrow> cfg_error + (RawMode \<times> bool \<times> CipherMode \<times> bool \<times> AuthMode \<times> bool)" where
  "parse_modes cli =
     sbind (case c_raw_mode cli of None \<Rightarrow> Inr (FakeTcp, False)
            | Some s \<Rightarrow> ok_or (RawMode_parse s) NoRawMode) (\<lambda>(raw_mode, easy0).
     let easy = (c_easy_tcp cli \<or> easy0) in
     sbind (case c_cipher_mode cli of None \<Rightarrow> Inr (Aes128Cbc, False)
            | Some s \<Rightarrow> ok_or (CipherMode_parse s) NoCipherMode) (\<lambda>(cipher_mode, cfb_legacy).
     sbind (case c_auth_mode cli of None \<Rightarrow> Inr Md5
            | Some s \<Rightarrow> ok_or (AuthMode_parse s) NoAuthMode) (\<lambda>auth0.
     let (auth_mode, no_replay) =
       (if is_aead cipher_mode then (AuthNone, c_disable_anti_replay cli)
        else if auth0 = AuthNone then (auth0, True)
        else (auth0, c_disable_anti_replay cli))
     in Inr (raw_mode, easy, cipher_mode, cfb_legacy, auth_mode, no_replay))))"

definition parse_sock_buf :: "Cli \<Rightarrow> cfg_error + nat" where
  "parse_sock_buf cli =
     (case c_sock_buf cli of
        Some kb \<Rightarrow> if 10 \<le> kb \<and> kb \<le> 10 * 1024 then Inr (kb * 1024) else Inl SockBuf
      | None \<Rightarrow> Inr DEFAULT_SOCKET_BUF_SIZE)"

definition parse_lower_level :: "Cli \<Rightarrow> cfg_error + LowerLevel option" where
  "parse_lower_level cli =
     (case c_lower_level cli of
        None \<Rightarrow> Inr None
      | Some s \<Rightarrow> if s = ''auto'' then Inr (Some LLAuto)
          else sbind (ok_or (split_once (CHR ''#'') s) LowerLevelFormat) (\<lambda>(if_name, mac).
            sbind (parse_mac mac) (\<lambda>m. Inr (Some (LLManual if_name m)))))"

definition parse_key :: "(string \<Rightarrow> string option) \<Rightarrow> Cli \<Rightarrow> cfg_error + string" where
  "parse_key fs cli =
     (case (c_key cli, c_key_file cli) of
        (Some _, Some _) \<Rightarrow> Inl TwoKeys
      | (Some k, None) \<Rightarrow> Inr k
      | (None, Some path) \<Rightarrow> read_key_file fs path
      | (None, None) \<Rightarrow> Inr ''secret key'')"

definition rule_flags :: "Cli \<Rightarrow> bool \<times> bool" where
  "rule_flags cli =
     (let a0 = c_auto_rule cli; g0 = c_gen_rule cli;
          a1 = (if a0 \<and> g0 then False else a0);
          g1 = (if c_gen_add cli \<and> g0 then False else g0)
      in if c_keep_rule cli \<and> \<not> a1 then (True, False) else (a1, g1))"

definition config_of_cli :: "(string \<Rightarrow> string option) \<Rightarrow> nat \<Rightarrow> Cli \<Rightarrow> cfg_error + Config" where
  "config_of_cli fs parallelism cli =
     sbind (reject_if (c_client cli \<and> c_server cli) ModeConflict) (\<lambda>_.
     sbind (if c_client cli then Inr Client else if c_server cli then Inr Server else Inl ModeMissing) (\<lambda>mode.
     sbind (ok_or (c_local cli) NoLocal) (\<lambda>ls.
     sbind (parse_socket_addr ls) (\<lambda>local_addr.
     sbind (ok_or (c_remote cli) NoRemote) (\<lambda>rs.
     sbind (parse_remote mode rs) (\<lambda>remote.
     sbind (reject_if (spec_port remote = 22) Port22) (\<lambda>_.
     sbind (parse_dns_servers (c_dns_server cli)) (\<lambda>dns_servers.
     sbind (reject_if (is_dynamic remote \<and> dns_servers = []) NeedDnsServer) (\<lambda>_.
     let dns_timeout_ms = opt_or (c_dns_timeout cli) 2000 in
     sbind (reject_if (\<not> (100 \<le> dns_timeout_ms \<and> dns_timeout_ms \<le> 30000)) DnsTimeout) (\<lambda>_.
     sbind (case c_underlay_gateway cli of None \<Rightarrow> Inr None
            | Some g \<Rightarrow> sbind (ok_or (parse_ipv4_addr g) BadGateway) (\<lambda>a. Inr (Some a))) (\<lambda>gateway.
     sbind (reject_if (gateway \<noteq> None \<and> c_underlay_dev cli = None) GatewayNeedsDev) (\<lambda>_.
     sbind (reject_if (c_dev cli \<noteq> None \<and> c_underlay_dev cli \<noteq> None \<and> c_dev cli \<noteq> c_underlay_dev cli)
              DevConflict) (\<lambda>_.
     sbind (parse_bootstrap cli) (\<lambda>bootstrap.
     let cache = endpoint_cache_path cli remote in
     sbind (parse_fallback cli remote cache) (\<lambda>fallback.
     sbind (parse_modes cli) (\<lambda>(raw_mode, easy, cipher_mode, cfb_legacy, auth_mode, no_replay).
     sbind (case c_source_ip cli of None \<Rightarrow> Inr None
            | Some t \<Rightarrow> sbind (ok_or (parse_ip_addr t) BadSourceIp) (\<lambda>a. Inr (Some a))) (\<lambda>source_ip.
     sbind (parse_sock_buf cli) (\<lambda>sock_buf.
     let seq_mode = opt_or (c_seq_mode cli) DEFAULT_SEQ_MODE in
     sbind (reject_if (\<not> (0 \<le> seq_mode \<and> seq_mode \<le> MAX_SEQ_MODE)) SeqMode) (\<lambda>_.
     sbind (parse_lower_level cli) (\<lambda>lower_level.
     let hb_mode = opt_or (c_hb_mode cli) 1; hb_len = opt_or (c_hb_len cli) DEFAULT_HB_LEN;
         mtu_warn = opt_or (c_mtu_warn cli) DEFAULT_MTU_WARN; random_drop = opt_or (c_random_drop cli) 0;
         log_level = opt_or (c_log_level cli) 4; rules = rule_flags cli in
     sbind (reject_if (hb_mode \<noteq> 0 \<and> hb_mode \<noteq> 1) HbMode) (\<lambda>_.
     sbind (reject_if (hb_len > 1500) HbLen) (\<lambda>_.
     sbind (reject_if (mtu_warn = 0) MtuWarn) (\<lambda>_.
     sbind (reject_if (random_drop > 10000) RandomDrop) (\<lambda>_.
     sbind (case c_aes_backend cli of None \<Rightarrow> Inr Auto
            | Some t \<Rightarrow> ok_or (AesBackend_parse t) NoAesBackend) (\<lambda>aes_backend.
     sbind (case c_syscalls cli of None \<Rightarrow> Inr SysAuto
            | Some t \<Rightarrow> ok_or (Syscalls_parse t) NoSyscalls) (\<lambda>syscalls.
     sbind (reject_if (\<not> (0 \<le> log_level \<and> log_level \<le> 6)) LogLevel) (\<lambda>_.
     sbind (parse_key fs cli) (\<lambda>key.
       Inr \<lparr> cfg_mode = mode, cfg_local_addr = local_addr, cfg_remote_addr = remote_start_addr remote,
         cfg_remote = remote, cfg_dns_servers = dns_servers, cfg_dns_timeout_ms = dns_timeout_ms,
         cfg_underlay_dev = c_underlay_dev cli, cfg_underlay_gateway = gateway,
         cfg_allow_private_endpoint = c_allow_private_endpoint cli, cfg_endpoint_cache = cache,
         cfg_bootstrap_addr = bootstrap, cfg_last_good_fallback = fallback, cfg_key = key,
         cfg_raw_mode = raw_mode, cfg_easy_faketcp = easy, cfg_cipher_mode = cipher_mode,
         cfg_cfb_legacy = cfb_legacy, cfg_auth_mode = auth_mode, cfg_disable_anti_replay = no_replay,
         cfg_fix_gro = c_fix_gro cli, cfg_source_ip = source_ip, cfg_source_port = c_source_port cli,
         cfg_fifo = c_fifo cli, cfg_log_level = log_level, cfg_log_position = c_log_position cli,
         cfg_log_color = (\<not> c_disable_color cli), cfg_disable_bpf = c_disable_bpf cli, cfg_dev = c_dev cli,
         cfg_socket_buf_size = sock_buf, cfg_force_socket_buf = c_force_sock_buf cli,
         cfg_seq_mode = seq_mode, cfg_lower_level = lower_level, cfg_hb_mode = hb_mode,
         cfg_hb_len = hb_len, cfg_mtu_warn = mtu_warn,
         cfg_max_rst_to_show = opt_or (c_max_rst_to_show cli) DEFAULT_MAX_RST_TO_SHOW,
         cfg_max_rst_allowed = opt_or (c_max_rst_allowed cli) DEFAULT_MAX_RST_ALLOWED,
         cfg_ttl = opt_or (c_set_ttl cli) DEFAULT_TTL, cfg_retry_on_error = c_retry_on_error cli,
         cfg_random_drop = random_drop, cfg_auto_rule = fst rules, cfg_gen_rule = snd rules,
         cfg_gen_add = c_gen_add cli, cfg_keep_rule = c_keep_rule cli, cfg_clear_rules = c_clear cli,
         cfg_wait_lock = c_wait_lock cli, cfg_debug = c_debug cli,
         cfg_threads = opt_or (c_threads cli) (default_threads parallelism),
         cfg_aes_backend = aes_backend, cfg_syscalls = syscalls \<rparr>))))))))))))))))))))))))))))"

datatype ParseOutcome = Run Config | Help | UnitTest

definition parse_args ::
  "(string list \<Rightarrow> string + Cli) \<Rightarrow> (string \<Rightarrow> string option) \<Rightarrow> nat \<Rightarrow> string list \<Rightarrow> cfg_error + ParseOutcome" where
  "parse_args clap fs parallelism raw_args =
     (if ''--unit-test'' \<in> set raw_args then Inr UnitTest
      else if raw_args = [] \<or> ''-h'' \<in> set raw_args \<or> ''--help'' \<in> set raw_args then Inr Help
      else case find (\<lambda>a. a = [] \<or> a = ''-'' \<or> a = ''--'') raw_args of
        Some a \<Rightarrow> Inl (if a = [] then EmptyArg else InvalidDash)
      | None \<Rightarrow>
          sbind (expand_conf_file fs raw_args) (\<lambda>args.
          sbind (case clap args of Inl e \<Rightarrow> Inl (ClapError e) | Inr cli \<Rightarrow> Inr cli) (\<lambda>cli.
          sbind (config_of_cli fs parallelism cli) (\<lambda>cfg. Inr (Run cfg)))))"


section \<open>What an accepted configuration satisfies\<close>

text \<open>The relation between the fallback time limits that rollback relies on.\<close>

definition fallback_wf :: "LastGoodFallbackPolicy \<Rightarrow> bool" where
  "fallback_wf f \<longleftrightarrow> 1 \<le> fp_after_failures f \<and> fp_after_failures f \<le> 100 \<and>
     1 \<le> fp_max_attempts f \<and> fp_max_attempts f \<le> 100 \<and> 1 \<le> fp_global_capacity f \<and>
     fp_global_capacity f \<le> 100 \<and> 1000 \<le> fp_cooldown_ms f \<and> fp_cooldown_ms f \<le> 86400000 \<and>
     1000 \<le> fp_global_refill_ms f \<and> 1000 \<le> fp_max_age_ms f \<and>
     (fp_enabled f \<longrightarrow> 10000 + fp_preferred_round_timeout_ms f + 5000 + fp_probation_ms f + 800
        < fp_rollback_window_ms f)"

definition config_wf :: "Config \<Rightarrow> bool" where
  "config_wf c \<longleftrightarrow>
     sa_port (cfg_local_addr c) \<noteq> 22 \<and> spec_port (cfg_remote c) \<noteq> 22 \<and>
     cfg_remote_addr c = remote_start_addr (cfg_remote c) \<and>
     (cfg_mode c = Server \<longrightarrow> \<not> is_dynamic (cfg_remote c)) \<and>
     (is_dynamic (cfg_remote c) \<longrightarrow> cfg_dns_servers c \<noteq> []) \<and>
     100 \<le> cfg_dns_timeout_ms c \<and> cfg_dns_timeout_ms c \<le> 30000 \<and>
     (cfg_underlay_gateway c \<noteq> None \<longrightarrow> cfg_underlay_dev c \<noteq> None) \<and>
     (\<forall>d u. cfg_dev c = Some d \<longrightarrow> cfg_underlay_dev c = Some u \<longrightarrow> d = u) \<and>
     (\<forall>ip. cfg_bootstrap_addr c = Some ip \<longrightarrow> check_endpoint_ip ip (cfg_allow_private_endpoint c) = None) \<and>
     (fp_enabled (cfg_last_good_fallback c) \<longrightarrow>
        is_dynamic (cfg_remote c) \<and> cfg_endpoint_cache c \<noteq> None \<and> cfg_fifo c \<noteq> None) \<and>
     fallback_wf (cfg_last_good_fallback c) \<and>
     (is_aead (cfg_cipher_mode c) \<longrightarrow> cfg_auth_mode c = AuthNone) \<and>
     (\<not> is_aead (cfg_cipher_mode c) \<longrightarrow> cfg_auth_mode c = AuthNone \<longrightarrow> cfg_disable_anti_replay c) \<and>
     10240 \<le> cfg_socket_buf_size c \<and> cfg_socket_buf_size c \<le> 10485760 \<and>
     0 \<le> cfg_seq_mode c \<and> cfg_seq_mode c \<le> 4 \<and> (cfg_hb_mode c = 0 \<or> cfg_hb_mode c = 1) \<and>
     cfg_hb_len c \<le> 1500 \<and> 0 < cfg_mtu_warn c \<and> cfg_random_drop c \<le> 10000 \<and>
     0 \<le> cfg_log_level c \<and> cfg_log_level c \<le> 6 \<and> (cfg_keep_rule c \<longrightarrow> cfg_auto_rule c \<and> \<not> cfg_gen_rule c) \<and>
     \<not> (cfg_auto_rule c \<and> cfg_gen_rule c)"

lemma bounded_Inr: "bounded v lo hi = Inr x \<longleftrightarrow> x = v \<and> lo \<le> v \<and> v \<le> hi"
  by (auto simp: bounded_def)

lemma bounded_secs_range:
  "bounded_secs v d lo hi = Inr ms \<Longrightarrow> hi \<le> 10 ^ 9 \<longrightarrow> 1000 * lo \<le> ms \<and> ms \<le> 1000 * hi"
  by (auto simp: bounded_secs_def seq_simps bounded_Inr)

lemma parse_fallback_wf:
  assumes "parse_fallback cli remote cache = Inr f"
  shows "fallback_wf f \<and> fp_enabled f = c_last_good_fallback cli \<and>
    (c_last_good_fallback cli \<longrightarrow> is_dynamic remote \<and> cache \<noteq> None \<and> c_fifo cli \<noteq> None)"
  using assms unfolding parse_fallback_def Let_def seq_simps bounded_Inr config_consts sum.inject
  apply (elim exE conjE)
  apply (drule bounded_secs_range)+
  apply hypsubst
  apply (simp add: fallback_wf_def)
  apply linarith
  done

lemma parse_modes_wf:
  assumes "parse_modes cli = Inr (rm, ez, cm, leg, am, nr)"
  shows "is_aead cm \<longrightarrow> am = AuthNone" "\<not> is_aead cm \<longrightarrow> am = AuthNone \<longrightarrow> nr"
    "is_aead cm \<longrightarrow> nr = c_disable_anti_replay cli"
  using assms by (auto simp: parse_modes_def seq_simps Let_def split: if_splits)

lemma parse_bootstrap_wf:
  "parse_bootstrap cli = Inr b \<Longrightarrow>
    \<forall>ip. b = Some ip \<longrightarrow> check_endpoint_ip ip (c_allow_private_endpoint cli) = None"
  by (auto simp: parse_bootstrap_def seq_simps split: option.splits)

lemma parse_sock_buf_wf: "parse_sock_buf cli = Inr n \<Longrightarrow> 10240 \<le> n \<and> n \<le> 10485760"
  by (auto simp: parse_sock_buf_def DEFAULT_SOCKET_BUF_SIZE_def split: option.splits if_splits)

lemma parse_socket_addr_wf: "parse_socket_addr s = Inr a \<Longrightarrow> sa_port a \<noteq> 22"
  by (auto simp: parse_socket_addr_def split: option.splits if_splits)

lemma parse_remote_server: "parse_remote m s = Inr r \<Longrightarrow> m = Server \<longrightarrow> \<not> is_dynamic r"
  by (auto simp: parse_remote_def seq_simps split: if_splits)

lemma same_dev: "\<not> (a \<noteq> None \<and> b \<noteq> None \<and> a \<noteq> b) \<Longrightarrow> \<forall>d u. a = Some d \<longrightarrow> b = Some u \<longrightarrow> d = u"
  by auto

lemma needs_dev: "\<not> (g \<noteq> None \<and> d = None) \<Longrightarrow> (\<exists>y. g = Some y) \<longrightarrow> (\<exists>y. d = Some y)"
  by auto

lemma rule_flags_wf:
  "c_keep_rule cli \<longrightarrow> fst (rule_flags cli) \<and> \<not> snd (rule_flags cli)" "\<not> (fst (rule_flags cli) \<and> snd (rule_flags cli))"
  by (auto simp: rule_flags_def Let_def)

lemma config_of_cli_wf:
  assumes "config_of_cli fs n cli = Inr c"
  shows "config_wf c"
  using assms unfolding config_of_cli_def Let_def seq_simps split_paired_Ex prod.case sum.inject
  apply (elim exE conjE)
  apply (frule parse_fallback_wf, frule parse_modes_wf(1), frule parse_modes_wf(2))
  apply (frule parse_sock_buf_wf, frule parse_socket_addr_wf, frule parse_bootstrap_wf)
  apply (frule parse_remote_server, drule same_dev, drule needs_dev)
  apply hypsubst
  apply (simp only: config_wf_def Config.simps)
  apply (simp add: rule_flags_wf config_consts)
  done

text \<open>What the scan of the arguments and the loop over the lines accept.\<close>

lemma conf_scan_named:
  "conf_scan args (Some path) = Inr (out, c) \<longleftrightarrow> ''--conf-file'' \<notin> set args \<and> out = args \<and> c = Some path"
  by (induction args arbitrary: out) (auto simp: sbind_Inr_iff)

lemma conf_scan_plain: "''--conf-file'' \<notin> set args \<Longrightarrow> conf_scan args c = Inr (args, c)"
  by (induction args) auto

lemma conf_scan_pair:
  "''--conf-file'' \<notin> set pre \<Longrightarrow> ''--conf-file'' \<notin> set post \<Longrightarrow> \<not> starts_with path ''-'' \<Longrightarrow>
   conf_scan (pre @ ''--conf-file'' # path # post) None = Inr (pre @ post, Some path)"
  by (induction pre) (auto simp: conf_scan_plain)

lemma conf_scan_cases:
  assumes "conf_scan args None = Inr (out, c)"
  shows "''--conf-file'' \<notin> set args \<and> out = args \<and> c = None \<or>
    (\<exists>pre path post. args = pre @ ''--conf-file'' # path # post \<and> ''--conf-file'' \<notin> set pre \<and>
       ''--conf-file'' \<notin> set post \<and> \<not> starts_with path ''-'' \<and> out = pre @ post \<and> c = Some path)"
  using assms
proof (induction args arbitrary: out)
  case (Cons a args)
  show ?case
  proof (cases "a = ''--conf-file''")
    case True
    then obtain path rest where r: "args = path # rest" "\<not> starts_with path ''-''" "conf_scan rest (Some path) = Inr (out, c)"
      using Cons.prems by (cases args) (auto split: if_splits)
    then show ?thesis
      using True by (intro disjI2 exI[of _ "[]"] exI[of _ path] exI[of _ rest]) (simp add: conf_scan_named)
  next
    case False
    then obtain out' where o: "conf_scan args None = Inr (out', c)" "out = a # out'"
      using Cons.prems by (auto simp: sbind_Inr_iff)
    from Cons.IH[OF o(1)] show ?thesis
    proof
      assume "\<exists>pre path post. args = pre @ ''--conf-file'' # path # post \<and> ''--conf-file'' \<notin> set pre \<and>
          ''--conf-file'' \<notin> set post \<and> \<not> starts_with path ''-'' \<and> out' = pre @ post \<and> c = Some path"
      then obtain pre path post where "args = pre @ ''--conf-file'' # path # post" "''--conf-file'' \<notin> set pre"
          "''--conf-file'' \<notin> set post" "\<not> starts_with path ''-''" "out' = pre @ post" "c = Some path"
        by blast
      then show ?thesis
        using False o(2) by (intro disjI2 exI[of _ "a # pre"] exI[of _ path] exI[of _ post]) simp
    qed (use False o(2) in auto)
  qed
qed simp

lemma conf_lines_Inr_iff:
  "conf_lines ls = Inr out \<longleftrightarrow>
   (\<exists>tokens. list_all2 (\<lambda>l toks. parse_conf_line l = Inr toks \<and> ''--conf-file'' \<notin> set toks) ls tokens \<and> out = concat tokens)"
proof (induction ls arbitrary: out)
  case (Cons l ls)
  have "conf_lines (l # ls) = Inr out \<longleftrightarrow>
      (\<exists>toks r. parse_conf_line l = Inr toks \<and> ''--conf-file'' \<notin> set toks \<and> conf_lines ls = Inr r \<and> out = toks @ r)"
    by (auto simp: sbind_Inr_iff split: if_splits)
  then show ?case
    unfolding Cons.IH by (force simp: list_all2_Cons1)
qed auto

lemma read_to_string_Some: "read_to_string fs path = Some text \<longleftrightarrow> fs path = Some text \<and> valid_utf8 text"
  by (auto simp: read_to_string_def split: option.splits)


section \<open>Properties\<close>

text \<open>C31: Every configuration that \<open>parse_args\<close> accepts, whatever the option parser and the
  file system return, satisfies the invariant the rest of the program relies on: no port 22,
  a numeric server remote, resolvers for a host name, ranges of all numeric options, one
  interface for relay traffic, a policy-approved bootstrap address, the prerequisites and time
  relations of the last-good fallback, and a consistent choice of cipher, authentication,
  anti-replay and iptables actions.\<close>

theorem accepted_config_wf:
  assumes "parse_args clap fs n args = Inr (Run cfg)"
  shows "config_wf cfg"
proof -
  obtain cli where "config_of_cli fs n cli = Inr cfg"
    using assms by (auto simp: parse_args_def seq_simps split: if_splits option.splits)
  then show ?thesis
    by (rule config_of_cli_wf)
qed

definition demo_cli :: Cli where
  "demo_cli = \<lparr> c_client = False, c_server = True, c_local = Some ''1.1.1.1:7'', c_remote = Some ''2.2.2.2:8'',
     c_key = Some ''k'', c_key_file = None, c_auto_rule = True, c_gen_rule = False, c_gen_add = False,
     c_keep_rule = False, c_clear = False, c_wait_lock = False, c_raw_mode = None,
     c_cipher_mode = Some ''chacha20poly1305'', c_auth_mode = Some ''none'', c_disable_anti_replay = False,
     c_fix_gro = True, c_source_ip = None, c_source_port = None, c_fifo = None, c_log_level = None,
     c_log_position = False, c_disable_color = False, c_disable_bpf = False, c_dev = None,
     c_sock_buf = Some 10, c_force_sock_buf = False, c_seq_mode = None, c_lower_level = None,
     c_hb_mode = None, c_hb_len = None, c_mtu_warn = None, c_max_rst_to_show = None,
     c_max_rst_allowed = None, c_set_ttl = None, c_retry_on_error = False, c_random_drop = None,
     c_easy_tcp = False, c_dns_server = [], c_dns_timeout = None, c_underlay_dev = None,
     c_underlay_gateway = None, c_allow_private_endpoint = False, c_endpoint_cache = None,
     c_bootstrap_addr = None, c_last_good_fallback = False, c_lg_after = None, c_lg_max_attempts = None,
     c_lg_cooldown = None, c_lg_max_age = None, c_lg_global_attempts = None, c_lg_global_refill = None,
     c_lg_round_timeout = None, c_lg_probation = None, c_lg_rollback_window = None, c_debug = False,
     c_threads = None, c_aes_backend = None, c_syscalls = None \<rparr>"

lemma demo_addr:
  "parse_socket_address ''1.1.1.1:7'' = Some \<lparr> sa_ip = V4 0x01010101, sa_port = 7 \<rparr>"
  "parse_socket_address ''2.2.2.2:8'' = Some \<lparr> sa_ip = V4 0x02020202, sa_port = 8 \<rparr>"
  by (simp_all add: parse_socket_address_def all_read_def read_socket_addr_v4_def read_ipv4_addr_def
      read_octet_def read_dot_octet_def read_number_def to_digit_def to_digit16_def read_port_def
      of_be32_def bcat_def Let_def)

lemma demo_config:
  "\<exists>cfg. config_of_cli (\<lambda>_. None) 8 demo_cli = Inr cfg \<and> cfg_cipher_mode cfg = ChaCha20Poly1305 \<and>
     \<not> cfg_disable_anti_replay cfg"
  by (simp add: config_of_cli_def demo_cli_def reject_if_def ok_or_def parse_socket_addr_def demo_addr
      parse_remote_def opt_or_def parse_bootstrap_def parse_fallback_def fallback_tuning_present_def
      bounded_secs_def bounded_def parse_modes_def CipherMode_parse_def AuthMode_parse_def is_aead_def
      parse_sock_buf_def parse_lower_level_def parse_key_def config_consts Let_def)

theorem accepted_config_wf_witness:
  "\<exists>cfg. parse_args (\<lambda>_. Inr demo_cli) (\<lambda>_. None) 8 [''-s''] = Inr (Run cfg) \<and> config_wf cfg"
proof -
  obtain cfg where c: "config_of_cli (\<lambda>_. None) 8 demo_cli = Inr cfg"
    using demo_config by blast
  then have "parse_args (\<lambda>_. Inr demo_cli) (\<lambda>_. None) 8 [''-s''] = Inr (Run cfg)"
    by (simp add: parse_args_def expand_conf_file_def)
  with accepted_config_wf[OF this] show ?thesis
    by blast
qed

text \<open>C32: Anti-replay is never lost silently: in an AEAD mode it is off only when
  \<open>--disable-anti-replay\<close> was given, whatever \<open>--auth-mode\<close> says; in any other mode it is off
  exactly when that option was given or the packets carry no authentication.\<close>

theorem anti_replay_kept:
  assumes "config_of_cli fs n cli = Inr cfg"
  shows "cfg_disable_anti_replay cfg \<longleftrightarrow> c_disable_anti_replay cli \<or>
    \<not> is_aead (cfg_cipher_mode cfg) \<and> cfg_auth_mode cfg = AuthNone"
proof -
  obtain rm ez leg where "parse_modes cli = Inr (rm, ez, cfg_cipher_mode cfg, leg, cfg_auth_mode cfg,
      cfg_disable_anti_replay cfg)"
    using assms unfolding config_of_cli_def Let_def seq_simps split_paired_Ex prod.case sum.inject by auto
  then show ?thesis
    by (auto simp: parse_modes_def seq_simps Let_def split: if_splits)
qed

theorem anti_replay_kept_witness:
  "\<exists>cfg. config_of_cli (\<lambda>_. None) 8 demo_cli = Inr cfg \<and> is_aead (cfg_cipher_mode cfg) \<and>
     \<not> cfg_disable_anti_replay cfg"
proof -
  obtain cfg where c: "config_of_cli (\<lambda>_. None) 8 demo_cli = Inr cfg" "cfg_cipher_mode cfg = ChaCha20Poly1305"
    using demo_config by blast
  from anti_replay_kept[OF c(1)] c show ?thesis
    by (auto simp: is_aead_def demo_cli_def)
qed



end
