(* ===== verification/Faketcp.thy ===== *)
theory Faketcp
  imports Config
begin

text \<open>
  Raw packets and the FakeTCP emulation of \<open>src/src/faketcp.rs\<close>. Effects are explicit:
  \<open>Env\<close> holds the monotonic clock and the sources of randomness as streams with a read
  position, \<open>RawCtx\<close> the queue of built packets, how many packets the kernel accepts on each
  \<open>send_batch\<close> and the packets handed over so far. Building a packet may panic (mixed
  address families), so sending is an evaluation.
\<close>


section \<open>Environment\<close>

text \<open>The streams are the values successive calls return: \<open>now_ms\<close>, the secure random draws,
  the results of \<open>secure_random_u32_nz\<close>, and the AEAD nonces.\<close>

record Env =
  e_clock :: "nat \<Rightarrow> nat"
  e_tick :: nat
  e_sec :: "nat \<Rightarrow> u64"
  e_spos :: nat
  e_nz :: "nat \<Rightarrow> u32"
  e_npos :: nat
  e_nonce :: "nat \<Rightarrow> bytes"
  e_cpos :: nat
  e_fast :: Xoshiro256
  e_little :: bool

definition now_ms :: "Env \<Rightarrow> nat \<times> Env" where
  "now_ms e = (e_clock e (e_tick e), e\<lparr> e_tick := Suc (e_tick e) \<rparr>)"

definition secure_random_u64 :: "Env \<Rightarrow> u64 \<times> Env" where
  "secure_random_u64 e = (e_sec e (e_spos e), e\<lparr> e_spos := Suc (e_spos e) \<rparr>)"

definition secure_random_u32 :: "Env \<Rightarrow> u32 \<times> Env" where
  "secure_random_u32 e = (case secure_random_u64 e of (v, e') \<Rightarrow> (ucast v, e'))"

definition draw_nz :: "Env \<Rightarrow> u32 \<times> Env" where
  "draw_nz e = (e_nz e (e_npos e), e\<lparr> e_npos := Suc (e_npos e) \<rparr>)"

definition random_nonce :: "Env \<Rightarrow> bytes \<times> Env" where
  "random_nonce e = (e_nonce e (e_cpos e), e\<lparr> e_cpos := Suc (e_cpos e) \<rparr>)"

definition fast_random_u32 :: "Env \<Rightarrow> u32 \<times> Env" where
  "fast_random_u32 e = (case next_u32 (e_fast e) of (v, g) \<Rightarrow> (v, e\<lparr> e_fast := g \<rparr>))"


section \<open>Packet and connection headers\<close>

text \<open>\<open>libc::sockaddr_ll\<close>, and the two constructors of \<open>net/raw.rs\<close>.\<close>

record SockaddrLl =
  sll_family :: u16
  sll_protocol :: u16
  sll_ifindex :: int
  sll_hatype :: u16
  sll_pkttype :: u8
  sll_halen :: u8
  sll_addr :: bytes

definition sll_zeroed :: SockaddrLl where
  "sll_zeroed = \<lparr> sll_family = 0, sll_protocol = 0, sll_ifindex = 0, sll_hatype = 0, sll_pkttype = 0,
     sll_halen = 0, sll_addr = replicate 8 0 \<rparr>"

definition make_sockaddr_ll :: "int \<Rightarrow> bytes \<Rightarrow> SockaddrLl" where
  "make_sockaddr_ll ifindex dest_mac = sll_zeroed\<lparr> sll_family := 17, sll_ifindex := ifindex,
     sll_halen := 6, sll_protocol := 8, sll_addr := overwrite (sll_addr sll_zeroed) 0 dest_mac \<rparr>"

definition reply_sockaddr_ll :: "SockaddrLl \<Rightarrow> SockaddrLl" where
  "reply_sockaddr_ll r = sll_zeroed\<lparr> sll_family := sll_family r, sll_ifindex := sll_ifindex r,
     sll_protocol := sll_protocol r, sll_halen := sll_halen r, sll_addr := sll_addr r \<rparr>"

record PacketInfo =
  src_ip :: IpAddr
  dst_ip :: IpAddr
  src_port :: u16
  dst_port :: u16
  syn :: bool
  ack :: bool
  psh :: bool
  rst :: bool
  seq :: u32
  ack_seq :: u32
  ack_seq_counter :: u32
  ts :: u32
  ts_ack :: u32
  has_ts :: bool
  icmp_seq :: u16
  data_len :: nat
  addr_ll :: SockaddrLl

definition PacketInfo_new :: "RawMode \<Rightarrow> bool \<Rightarrow> Env \<Rightarrow> PacketInfo \<times> Env" where
  "PacketInfo_new raw_mode is_v6 e =
     (let unspec = (if is_v6 then V6 0 0 else V4 0);
          p = \<lparr> src_ip = unspec, dst_ip = unspec, src_port = 0, dst_port = 0, syn = False, ack = False,
                psh = False, rst = False, seq = 0, ack_seq = 0, ack_seq_counter = 0, ts = 0,
                ts_ack = 0, has_ts = False, icmp_seq = 0, data_len = 0, addr_ll = sll_zeroed \<rparr>
      in if raw_mode = FakeTcp then
           (case secure_random_u32 e of (a, e1) \<Rightarrow>
            case secure_random_u32 e1 of (s, e2) \<Rightarrow>
              (p\<lparr> ack_seq := a, seq := s, ack := True \<rparr>, e2))
         else (p, e))"

record RawInfo =
  send_info :: PacketInfo
  recv_info :: PacketInfo
  reserved_send_seq :: u32
  rst_received :: int
  disabled :: bool

definition RawInfo_new :: "RawMode \<Rightarrow> bool \<Rightarrow> Env \<Rightarrow> RawInfo \<times> Env" where
  "RawInfo_new raw_mode is_v6 e =
     (case PacketInfo_new raw_mode is_v6 e of (s, e1) \<Rightarrow>
      case PacketInfo_new raw_mode is_v6 e1 of (r, e2) \<Rightarrow>
        (\<lparr> send_info = s, recv_info = r, reserved_send_seq = 0, rst_received = 0, disabled = False \<rparr>, e2))"

record RecvMeta =
  m_syn :: bool
  m_ack :: bool
  m_seq :: u32
  m_data_len :: nat
  m_has_ts :: bool
  m_ts :: u32
  m_icmp_seq :: u16

definition RecvMeta_from_recv :: "PacketInfo \<Rightarrow> RecvMeta" where
  "RecvMeta_from_recv r = \<lparr> m_syn = syn r, m_ack = ack r, m_seq = seq r, m_data_len = data_len r,
     m_has_ts = has_ts r, m_ts = ts r, m_icmp_seq = icmp_seq r \<rparr>"

record PeekInfo =
  pk_src_ip :: IpAddr
  pk_src_port :: u16
  pk_syn :: bool


section \<open>Raw context and transmit queue\<close>

datatype TxDst = TxIp IpAddr | TxSock SocketAddr | TxL2 SockaddrLl

record TxPacket =
  tx_buf :: bytes
  tx_off :: nat
  tx_dst :: TxDst

text \<open>\<open>rc_accept n\<close> is how many packets the kernel takes on the \<open>n\<close>-th call of \<open>send_batch\<close>;
  \<open>rc_sent\<close> collects the packets handed to it.\<close>

record RawCtx =
  rc_accept :: "nat \<Rightarrow> nat"
  rc_calls :: nat
  rc_sent :: "TxPacket list"
  rc_raw_mode :: RawMode
  rc_is_v6 :: bool
  rc_is_client :: bool
  rc_seq_mode :: int
  rc_ttl :: u8
  rc_random_drop :: nat
  rc_filter_port :: u16
  rc_bind_addr :: "IpAddr option"
  rc_lower_level :: bool
  rc_easy_faketcp :: bool
  rc_disable_bpf :: bool
  rc_max_rst_to_show :: int
  rc_max_rst_allowed :: int
  rc_ip_id_counter :: u16
  rc_tx_queue :: "TxPacket list"
  rc_tx_pool :: "bytes list"
  rc_tx_dropped :: nat

definition TX_QUEUE_FLUSH :: nat where "TX_QUEUE_FLUSH = 64"
definition RECEIVE_WINDOW_LOWER_BOUND :: u32 where "RECEIVE_WINDOW_LOWER_BOUND = 40960"
definition RECEIVE_WINDOW_RANDOM_RANGE :: u32 where "RECEIVE_WINDOW_RANDOM_RANGE = 512"

definition RawCtx_new :: "Config \<Rightarrow> (nat \<Rightarrow> nat) \<Rightarrow> Env \<Rightarrow> RawCtx \<times> Env" where
  "RawCtx_new cfg accept e =
     (let bind = (if \<not> cfg_is_client cfg \<and> \<not> ip_is_unspecified (sa_ip (cfg_local_addr cfg))
                  then Some (sa_ip (cfg_local_addr cfg)) else None) in
      case secure_random_u32 e of (v, e') \<Rightarrow>
      (\<lparr> rc_accept = accept, rc_calls = 0, rc_sent = [], rc_raw_mode = cfg_raw_mode cfg,
         rc_is_v6 = raw_is_v6 cfg, rc_is_client = cfg_is_client cfg, rc_seq_mode = cfg_seq_mode cfg,
         rc_ttl = cfg_ttl cfg, rc_random_drop = cfg_random_drop cfg, rc_filter_port = 0,
         rc_bind_addr = bind, rc_lower_level = (cfg_lower_level cfg \<noteq> None),
         rc_easy_faketcp = cfg_easy_faketcp cfg, rc_disable_bpf = cfg_disable_bpf cfg,
         rc_max_rst_to_show = cfg_max_rst_to_show cfg, rc_max_rst_allowed = cfg_max_rst_allowed cfg,
         rc_ip_id_counter = ucast (v mod 65535), rc_tx_queue = [], rc_tx_pool = [],
         rc_tx_dropped = 0 \<rparr>, e'))"

fun recycle_tx :: "bytes list \<Rightarrow> TxPacket list \<Rightarrow> bytes list" where
  "recycle_tx pool [] = pool"
| "recycle_tx pool (p # ps) = recycle_tx (if length pool < 256 then tx_buf p # pool else pool) ps"

definition flush_tx :: "RawCtx \<Rightarrow> RawCtx" where
  "flush_tx c =
     (if rc_tx_queue c = [] then c
      else
        let n = length (rc_tx_queue c); accepted = rc_accept c (rc_calls c);
            dropped = (if accepted < n then rc_tx_dropped c + (n - accepted) else rc_tx_dropped c)
        in c\<lparr> rc_calls := Suc (rc_calls c), rc_sent := rc_sent c @ rc_tx_queue c,
              rc_tx_dropped := dropped, rc_tx_pool := recycle_tx (rc_tx_pool c) (rc_tx_queue c),
              rc_tx_queue := [] \<rparr>)"

definition set_filter :: "u16 \<Rightarrow> RawCtx \<Rightarrow> RawCtx" where
  "set_filter port c = (if rc_raw_mode c = FakeTcp \<or> rc_raw_mode c = UdpMode
     then c\<lparr> rc_filter_port := port \<rparr> else c)"

text \<open>Segment and IP protocol of one payload; \<open>None\<close> is the \<open>invalid len\<close> return of UDP.\<close>

definition build_segment :: "RawCtx \<Rightarrow> Env \<Rightarrow> PacketInfo \<Rightarrow> bytes \<Rightarrow> ((bytes \<times> u8) option \<times> Env) eval" where
  "build_segment c e s payload =
     (case rc_raw_mode c of
        FakeTcp \<Rightarrow>
          (case fast_random_u32 e of (r, e1) \<Rightarrow>
           let window = ucast (RECEIVE_WINDOW_LOWER_BOUND + r mod RECEIVE_WINDOW_RANDOM_RANGE) in
           case now_ms e1 of (t, e2) \<Rightarrow>
           let p = \<lparr> tp_src_port = src_port s, tp_dst_port = dst_port s, tp_seq = seq s,
                     tp_ack_seq = ack_seq s, tp_syn = syn s, tp_ack = ack s, tp_psh = psh s,
                     tp_window = window, tp_ts = of_nat t, tp_ts_ack = ts_ack s \<rparr>
           in rbind (build_tcp [] (src_ip s) (dst_ip s) p payload) (\<lambda>(seg, n).
                Ret (Some (seg, IPPROTO_TCP), e2)))
      | UdpMode \<Rightarrow>
          rbind (build_udp [] (src_ip s) (dst_ip s) (src_port s) (dst_port s) payload) (\<lambda>r.
            case r of None \<Rightarrow> Ret (None, e) | Some (seg, n) \<Rightarrow> Ret (Some (seg, IPPROTO_UDP), e))
      | IcmpMode \<Rightarrow>
          rbind (build_icmp [] (src_ip s) (dst_ip s) (rc_is_client c) (src_port s) (icmp_seq s) payload)
            (\<lambda>(seg, n). Ret (Some (seg, if rc_is_v6 c then IPPROTO_ICMPV6 else IPPROTO_ICMP), e)))"

definition random_dropped :: "RawCtx \<Rightarrow> Env \<Rightarrow> bool \<times> Env" where
  "random_dropped c e =
     (if rc_random_drop c \<noteq> 0 then
        (case fast_random_u32 e of (r, e') \<Rightarrow> (unat (r mod 10000) < rc_random_drop c, e'))
      else (False, e))"

definition send_raw :: "RawCtx \<Rightarrow> Env \<Rightarrow> RawInfo \<Rightarrow> bytes \<Rightarrow> (RawCtx \<times> Env \<times> RawInfo) eval" where
  "send_raw c e raw payload =
     (case random_dropped c e of (lost, e0) \<Rightarrow>
      if lost then Ret (c, e0, raw)
      else if disabled raw then Ret (c, e0, raw)
      else
        let s = send_info raw in
        rbind (build_segment c e0 s payload) (\<lambda>(r, e1).
        case r of
          None \<Rightarrow> Ret (c, e1, raw)
        | Some (seg, protocol) \<Rightarrow>
            let pool = (case rc_tx_pool c of [] \<Rightarrow> [] | b # bs \<Rightarrow> bs);
                ident = rc_ip_id_counter c in
            rbind (build_ip_header [] (src_ip s) (dst_ip s) protocol (rc_ttl c) ident (length seg)) (\<lambda>hdr.
            let dst = (if rc_lower_level c then TxL2 (addr_ll s) else TxIp (dst_ip s));
                pkt = \<lparr> tx_buf = hdr @ seg, tx_off = 0, tx_dst = dst \<rparr>;
                c1 = c\<lparr> rc_tx_pool := pool, rc_ip_id_counter := ident + 1,
                        rc_tx_queue := rc_tx_queue c @ [pkt] \<rparr>;
                raw1 = (if rc_raw_mode c = FakeTcp
                        then raw\<lparr> send_info := s\<lparr> data_len := length payload \<rparr> \<rparr> else raw);
                c2 = (if length (rc_tx_queue c1) \<ge> TX_QUEUE_FLUSH then flush_tx c1 else c1)
            in Ret (c2, e1, raw1))))"


section \<open>FakeTCP sequence numbers\<close>

definition set_send_seq :: "u32 \<Rightarrow> RawInfo \<Rightarrow> RawInfo" where
  "set_send_seq v raw = raw\<lparr> send_info := (send_info raw)\<lparr> seq := v \<rparr> \<rparr>"

text \<open>Modes 3 and 4: an almost real procedure with a window and a fast retransmit.\<close>

definition after_send_real :: "int \<Rightarrow> u32 \<Rightarrow> RawInfo \<Rightarrow> RawInfo" where
  "after_send_real mode len raw0 =
     (let raw1 = set_send_seq (seq (send_info raw0) + len) raw0;
          window_size = (if mode = 3 then push_bit (unat WSCALE) RECEIVE_WINDOW_LOWER_BOUND
                         else RECEIVE_WINDOW_LOWER_BOUND);
          peer_ack = ack_seq (recv_info raw1);
          raw2 = (if larger_than_u32 (seq (send_info raw1) + of_nat MAX_DATA_LEN) (peer_ack + window_size)
                  then set_send_seq peer_ack raw1 else raw1);
          raw3 = (if ack_seq_counter (recv_info raw2) \<ge> 3
                  then set_send_seq peer_ack (raw2\<lparr> recv_info := (recv_info raw2)\<lparr> ack_seq_counter := 0 \<rparr> \<rparr>)
                  else raw2)
      in if larger_than_u32 peer_ack (seq (send_info raw3)) then set_send_seq peer_ack raw3 else raw3)"

definition after_send :: "RawCtx \<Rightarrow> Env \<Rightarrow> RawInfo \<Rightarrow> Env \<times> RawInfo" where
  "after_send c e raw =
     (case rc_raw_mode c of
        FakeTcp \<Rightarrow>
          let s = send_info raw; len = of_nat (data_len s) :: u32 in
          if \<not> syn s \<and> ack s \<and> len \<noteq> 0 then
            if rc_seq_mode c = 0 then (e, raw)
            else if rc_seq_mode c = 1 then (e, set_send_seq (seq s + len) raw)
            else if rc_seq_mode c = 2 then
              (case fast_random_u32 e of (r, e') \<Rightarrow>
                 (e', if r mod 5 = 3 then set_send_seq (seq s + len) raw else raw))
            else (e, after_send_real (rc_seq_mode c) len raw)
          else (e, raw)
      | IcmpMode \<Rightarrow>
          (e, if rc_is_client c
              then raw\<lparr> send_info := (send_info raw)\<lparr> icmp_seq := icmp_seq (send_info raw) + 1 \<rparr> \<rparr> else raw)
      | UdpMode \<Rightarrow> (e, raw))"

definition after_recv :: "RawCtx \<Rightarrow> RawInfo \<Rightarrow> RecvMeta \<Rightarrow> RawInfo" where
  "after_recv c raw m =
     (case rc_raw_mode c of
        FakeTcp \<Rightarrow>
          let raw1 = (if m_has_ts m then raw\<lparr> send_info := (send_info raw)\<lparr> ts_ack := m_ts m \<rparr> \<rparr> else raw) in
          if \<not> m_syn m \<and> m_ack m \<and> m_data_len m \<noteq> 0 then
            let end_seq = m_seq m + of_nat (m_data_len m); s = send_info raw1 in
            if rc_seq_mode c \<le> 2 then
              (if larger_than_u32 end_seq (ack_seq s)
               then raw1\<lparr> send_info := s\<lparr> ack_seq := end_seq \<rparr> \<rparr> else raw1)
            else if m_seq m = ack_seq s then raw1\<lparr> send_info := s\<lparr> ack_seq := end_seq \<rparr> \<rparr>
            else raw1
          else raw1
      | IcmpMode \<Rightarrow>
          if \<not> rc_is_client c \<and> larger_than_u16 (m_icmp_seq m) (icmp_seq (send_info raw))
          then raw\<lparr> send_info := (send_info raw)\<lparr> icmp_seq := m_icmp_seq m \<rparr> \<rparr> else raw
      | UdpMode \<Rightarrow> raw)"



section \<open>Receiving\<close>

definition peek :: "RawCtx \<Rightarrow> bytes \<Rightarrow> PeekInfo option eval" where
  "peek c buf =
     rbind (parse_ip buf (rc_is_v6 c) False) (\<lambda>r.
     case r of None \<Rightarrow> Ret None | Some ip \<Rightarrow>
     rbind (ip_payload ip buf) (\<lambda>payload.
     case rc_raw_mode c of
       FakeTcp \<Rightarrow>
         if pi_protocol ip \<noteq> IPPROTO_TCP \<or> length payload < TCP_MIN_HEADER then Ret None
         else rbind (read_u16_be payload) (\<lambda>p. rbind (idx payload 13) (\<lambda>f.
           Ret (Some \<lparr> pk_src_ip = pi_src ip, pk_src_port = p, pk_syn = (f AND 0x02 \<noteq> 0) \<rparr>)))
     | UdpMode \<Rightarrow>
         if pi_protocol ip \<noteq> IPPROTO_UDP \<or> length payload < UDP_HEADER_LEN then Ret None
         else rbind (read_u16_be payload) (\<lambda>p.
           Ret (Some \<lparr> pk_src_ip = pi_src ip, pk_src_port = p, pk_syn = False \<rparr>))
     | IcmpMode \<Rightarrow>
         if pi_protocol ip \<noteq> (if rc_is_v6 c then IPPROTO_ICMPV6 else IPPROTO_ICMP) \<or>
            length payload < ICMP_HEADER_LEN then Ret None
         else rbind (rbind (slice_from payload 4) read_u16_be) (\<lambda>p.
           Ret (Some \<lparr> pk_src_ip = pi_src ip, pk_src_port = p, pk_syn = False \<rparr>))))"

text \<open>The counters of \<open>recv_tcp\<close> (\<open>ack_seq_counter\<close> and the \<open>i32\<close> \<open>rst_received\<close>) wrap, as in a release
  build; with overflow checks their increments would panic at the maximum.\<close>

definition i32_wrap :: "int \<Rightarrow> int" where
  "i32_wrap x = sint (of_int x :: 32 word)"

definition recv_tcp :: "RawCtx \<Rightarrow> RawInfo \<Rightarrow> ParsedTcp \<Rightarrow> bytes \<Rightarrow> RawInfo" where
  "recv_tcp c raw t d =
     (let r = recv_info raw;
          r1 = r\<lparr> has_ts := pt_has_ts t, ts := pt_ts t, ts_ack := pt_ts_ack t, ack := pt_ack t,
                  syn := pt_syn t, rst := pt_rst t, psh := pt_psh t, src_port := pt_src_port t,
                  dst_port := pt_dst_port t, seq := pt_seq t, ack_seq := pt_ack_seq t,
                  ack_seq_counter := (if pt_ack_seq t = ack_seq r then ack_seq_counter r + 1 else 0) \<rparr>;
          raw1 = raw\<lparr> recv_info := r1 \<rparr>;
          raw2 = (if pt_rst t then
                    let cnt = i32_wrap (rst_received raw1 + 1);
                        raw' = raw1\<lparr> rst_received := cnt \<rparr>
                    in if rc_max_rst_allowed c \<ge> 0 \<and> cnt = i32_wrap (rc_max_rst_allowed c + 1)
                       then raw'\<lparr> disabled := True \<rparr> else raw'
                  else raw1)
      in raw2\<lparr> recv_info := (recv_info raw2)\<lparr> data_len := length d \<rparr> \<rparr>)"

text \<open>The part after the IP header, per raw mode.\<close>

definition recv_segment :: "RawCtx \<Rightarrow> RawInfo \<Rightarrow> ParsedIp \<Rightarrow> bytes \<Rightarrow> (RawInfo \<times> bytes option) eval" where
  "recv_segment c raw ip payload =
     (case rc_raw_mode c of
       FakeTcp \<Rightarrow>
         if pi_protocol ip \<noteq> IPPROTO_TCP then Ret (raw, None)
         else rbind (parse_tcp payload (pi_src ip) (pi_dst ip)) (\<lambda>q.
           case q of None \<Rightarrow> Ret (raw, None) | Some (t, d) \<Rightarrow>
             if pt_dst_port t \<noteq> rc_filter_port c then Ret (raw, None)
             else Ret (recv_tcp c raw t d, Some d))
     | UdpMode \<Rightarrow>
         if pi_protocol ip \<noteq> IPPROTO_UDP then Ret (raw, None)
         else rbind (parse_udp payload (pi_src ip) (pi_dst ip)) (\<lambda>q.
           case q of None \<Rightarrow> Ret (raw, None) | Some (sp, dp, d) \<Rightarrow>
             if dp \<noteq> rc_filter_port c then Ret (raw, None)
             else Ret (raw\<lparr> recv_info := (recv_info raw)\<lparr> src_port := sp, dst_port := dp,
                         data_len := length d \<rparr> \<rparr>, Some d))
     | IcmpMode \<Rightarrow>
         if pi_protocol ip \<noteq> (if rc_is_v6 c then IPPROTO_ICMPV6 else IPPROTO_ICMP) then Ret (raw, None)
         else rbind (parse_icmp payload (pi_src ip) (pi_dst ip) (rc_is_client c)) (\<lambda>q.
           case q of None \<Rightarrow> Ret (raw, None) | Some (h, d) \<Rightarrow>
             if pc_id h \<noteq> src_port (send_info raw) then Ret (raw, None)
             else Ret (raw\<lparr> recv_info := (recv_info raw)\<lparr> src_port := pc_id h, dst_port := pc_id h,
                         icmp_seq := pc_seq h, data_len := length d \<rparr> \<rparr>, Some d)))"

definition parse_recv :: "RawCtx \<Rightarrow> RawInfo \<Rightarrow> bytes \<Rightarrow> SockaddrLl \<Rightarrow> (RawInfo \<times> bytes option) eval" where
  "parse_recv c raw buf ll =
     rbind (parse_ip buf (rc_is_v6 c) True) (\<lambda>r.
     case r of None \<Rightarrow> Ret (raw, None) | Some ip \<Rightarrow>
     let raw0 = (if rc_lower_level c then raw\<lparr> recv_info := (recv_info raw)\<lparr> addr_ll := ll \<rparr> \<rparr> else raw) in
     if (case rc_bind_addr c of Some b \<Rightarrow> pi_dst ip \<noteq> b | None \<Rightarrow> False) then Ret (raw0, None)
     else
     let raw1 = raw0\<lparr> recv_info := (recv_info raw0)\<lparr> src_ip := pi_src ip, dst_ip := pi_dst ip \<rparr> \<rparr> in
     rbind (ip_payload ip buf) (recv_segment c raw1 ip))"


section \<open>Sending\<close>

lemma flush_tx_order: "rc_sent (flush_tx c) @ rc_tx_queue (flush_tx c) = rc_sent c @ rc_tx_queue c"
  by (simp add: flush_tx_def Let_def)

lemma flush_tx_frame [simp]:
  "rc_raw_mode (flush_tx c) = rc_raw_mode c" "rc_is_v6 (flush_tx c) = rc_is_v6 c"
  "rc_is_client (flush_tx c) = rc_is_client c" "rc_seq_mode (flush_tx c) = rc_seq_mode c"
  "rc_filter_port (flush_tx c) = rc_filter_port c" "rc_bind_addr (flush_tx c) = rc_bind_addr c"
  "rc_lower_level (flush_tx c) = rc_lower_level c" "rc_random_drop (flush_tx c) = rc_random_drop c"
  by (simp_all add: flush_tx_def Let_def)

definition same_settings :: "RawCtx \<Rightarrow> RawCtx \<Rightarrow> bool" where
  "same_settings c c' \<longleftrightarrow> rc_raw_mode c' = rc_raw_mode c \<and> rc_is_v6 c' = rc_is_v6 c \<and>
     rc_is_client c' = rc_is_client c \<and> rc_seq_mode c' = rc_seq_mode c \<and> rc_filter_port c' = rc_filter_port c \<and>
     rc_bind_addr c' = rc_bind_addr c \<and> rc_lower_level c' = rc_lower_level c"

lemma same_settings_trans: "same_settings a b \<Longrightarrow> same_settings b c \<Longrightarrow> same_settings a c"
  by (simp add: same_settings_def)

lemma same_settings_refl [simp]: "same_settings a a"
  by (simp add: same_settings_def)

lemma build_segment_ok:
  assumes "same_family (src_ip s) (dst_ip s)"
  shows "\<exists>r e'. build_segment c e s payload = Ret (r, e')"
proof -
  have "\<exists>r. build_udp [] (src_ip s) (dst_ip s) (src_port s) (dst_port s) payload = Ret r"
    using pseudo_header_panics[of "src_ip s" "dst_ip s" IPPROTO_UDP] assms
    by (auto simp: build_udp_def Let_def not_panics_iff rbind_eq_Ret)
  moreover have "\<exists>r. build_tcp [] (src_ip s) (dst_ip s) p payload = Ret r" for p
    using pseudo_header_panics[of "src_ip s" "dst_ip s" IPPROTO_TCP] assms
    by (auto simp: build_tcp_def Let_def not_panics_iff rbind_eq_Ret)
  moreover have "\<exists>r. build_icmp [] (src_ip s) (dst_ip s) cl i sq payload = Ret r" for cl i sq
    using pseudo_header_panics[of "src_ip s" "dst_ip s" IPPROTO_ICMPV6] assms
    by (auto simp: build_icmp_def icmp_csum_def Let_def not_panics_iff rbind_eq_Ret)
  ultimately obtain u ft fi where
      "build_udp [] (src_ip s) (dst_ip s) (src_port s) (dst_port s) payload = Ret u"
      "\<And>p. build_tcp [] (src_ip s) (dst_ip s) p payload = Ret (ft p)"
      "\<And>cl i sq. build_icmp [] (src_ip s) (dst_ip s) cl i sq payload = Ret (fi cl i sq)"
    by metis
  then show ?thesis
    by (cases "rc_raw_mode c") (simp_all add: build_segment_def Let_def split: prod.splits option.splits)
qed

lemma build_ip_header_ok:
  assumes "same_family s d"
  shows "\<exists>h. build_ip_header out s d pr ttl i n = Ret h"
  using assms by (cases s; cases d) (simp_all add: Let_def)

text \<open>With both addresses of one family sending never panics, and the settings of the
  context and the addresses of the connection are untouched.\<close>

lemma send_raw_total:
  assumes "same_family (src_ip (send_info raw)) (dst_ip (send_info raw))"
  shows "\<exists>c' e' raw'. send_raw c e raw payload = Ret (c', e', raw') \<and> same_settings c c' \<and>
    (raw' = raw \<or> raw' = raw\<lparr> send_info := (send_info raw)\<lparr> data_len := length payload \<rparr> \<rparr>)"
proof -
  obtain lost e0 where l: "random_dropped c e = (lost, e0)"
    by fastforce
  show ?thesis
  proof (cases "lost \<or> disabled raw")
    case True
    then show ?thesis
      using l by (auto simp: send_raw_def)
  next
    case False
    obtain r e1 where b: "build_segment c e0 (send_info raw) payload = Ret (r, e1)"
      using build_segment_ok[OF assms] by blast
    show ?thesis
    proof (cases r)
      case None
      then show ?thesis
        using False l b by (simp add: send_raw_def Let_def)
    next
      case (Some x)
      then obtain seg pr where x: "r = Some (seg, pr)"
        by (cases x) simp
      obtain h where "build_ip_header [] (src_ip (send_info raw)) (dst_ip (send_info raw)) pr (rc_ttl c)
          (rc_ip_id_counter c) (length seg) = Ret h"
        using build_ip_header_ok[OF assms] by blast
      then show ?thesis
        using False l b x by (simp add: send_raw_def Let_def same_settings_def)
    qed
  qed
qed

section \<open>From one end to the other\<close>

text \<open>The receiving end of a connection: same mode and family, the other role, listening on
  the port (or ICMP id) the packet goes to.\<close>

definition peer_of :: "RawCtx \<Rightarrow> PacketInfo \<Rightarrow> RawCtx \<Rightarrow> RawInfo \<Rightarrow> bool" where
  "peer_of c s c' raw' \<longleftrightarrow> rc_raw_mode c' = rc_raw_mode c \<and> rc_is_client c' = (\<not> rc_is_client c) \<and>
     rc_is_v6 c' = is_ipv6 (src_ip s) \<and> rc_is_v6 c = is_ipv6 (src_ip s) \<and>
     (rc_bind_addr c' = None \<or> rc_bind_addr c' = Some (dst_ip s)) \<and>
     (if rc_raw_mode c = IcmpMode then src_port (send_info raw') = src_port s
      else rc_filter_port c' = dst_port s)"

lemma build_segment_peer:
  assumes "same_family (src_ip s) (dst_ip s)" "length payload \<le> 65000" "peer_of c s c' raw'"
    "pi_src ip = src_ip s" "pi_dst ip = dst_ip s"
  shows "\<exists>seg pr e1. build_segment c e s payload = Ret (Some (seg, pr), e1) \<and> length seg \<le> 65100 \<and>
    (pi_protocol ip = pr \<and> ip_payload ip buf = Ret seg \<and> parse_ip buf (rc_is_v6 c') True = Ret (Some ip)
      \<longrightarrow> (\<exists>raw''. parse_recv c' raw' buf ll = Ret (raw'', Some payload) \<and>
             src_ip (recv_info raw'') = src_ip s \<and> src_port (recv_info raw'') = src_port s \<and>
             data_len (recv_info raw'') = length payload \<and>
             (rc_raw_mode c = FakeTcp \<longrightarrow> seq (recv_info raw'') = seq s \<and> ack_seq (recv_info raw'') = ack_seq s \<and>
                syn (recv_info raw'') = syn s \<and> ack (recv_info raw'') = ack s)))"
proof (cases "rc_raw_mode c")
  case FakeTcp
  obtain r e0 where r: "fast_random_u32 e = (r, e0)"
    by fastforce
  obtain t e1 where t: "now_ms e0 = (t, e1)"
    by fastforce
  let ?p = "\<lparr> tp_src_port = src_port s, tp_dst_port = dst_port s, tp_seq = seq s,
                     tp_ack_seq = ack_seq s, tp_syn = syn s, tp_ack = ack s, tp_psh = psh s,
                     tp_window = ucast (RECEIVE_WINDOW_LOWER_BOUND + r mod RECEIVE_WINDOW_RANDOM_RANGE),
                     tp_ts = of_nat t, tp_ts_ack = ts_ack s \<rparr>"
  obtain seg where seg: "build_tcp [] (src_ip s) (dst_ip s) ?p payload = Ret (seg, length seg)"
    "length seg = (if syn s then 40 else 32) + length payload"
    "parse_tcp seg (src_ip s) (dst_ip s) = Ret (Some (\<lparr> pt_src_port = src_port s, pt_dst_port = dst_port s,
      pt_seq = seq s, pt_ack_seq = ack_seq s, pt_syn = syn s, pt_ack = ack s,
      pt_psh = psh s, pt_rst = False, pt_has_ts = True, pt_ts = of_nat t, pt_ts_ack = ts_ack s,
      pt_header_len = (if syn s then 40 else 32), pt_csum_ok = True \<rparr>, payload))"
    using tcp_roundtrip[OF assms(1), of payload "[]" ?p] assms(2) by auto
  have "build_segment c e s payload = Ret (Some (seg, IPPROTO_TCP), e1)"
    using FakeTcp r t seg(1) by (simp add: build_segment_def Let_def)
  moreover have "length seg \<le> 65100"
    using seg(2) assms(2) by simp
  ultimately show ?thesis
    using FakeTcp assms(3-5) seg(3)
    by (auto simp: parse_recv_def recv_segment_def peer_of_def Let_def recv_tcp_def split: option.splits)
next
  case UdpMode
  obtain seg where seg: "build_udp [] (src_ip s) (dst_ip s) (src_port s) (dst_port s) payload
       = Ret (Some (seg, length seg))" "length seg = 8 + length payload"
      "parse_udp seg (src_ip s) (dst_ip s) = Ret (Some (src_port s, dst_port s, payload))"
    using udp_roundtrip[OF assms(1), of payload "[]" "src_port s" "dst_port s"] assms(2) by auto
  have "build_segment c e s payload = Ret (Some (seg, IPPROTO_UDP), e)"
    using UdpMode seg(1) by (simp add: build_segment_def)
  then show ?thesis
    using UdpMode assms(2-5) seg(2,3)
    by (auto simp: parse_recv_def recv_segment_def peer_of_def Let_def split: option.splits)
next
  case IcmpMode
  obtain seg where seg: "build_icmp [] (src_ip s) (dst_ip s) (rc_is_client c) (src_port s) (icmp_seq s) payload
       = Ret (seg, length seg)" "length seg = 8 + length payload"
      "parse_icmp seg (src_ip s) (dst_ip s) (\<not> rc_is_client c) = Ret (Some (\<lparr> pc_ptype =
         echo_type (is_ipv6 (src_ip s)) (rc_is_client c), pc_id = src_port s, pc_seq = icmp_seq s \<rparr>, payload))"
    using icmp_roundtrip[OF assms(1), of payload "[]" "rc_is_client c" "src_port s" "icmp_seq s"] assms(2)
    by auto
  have "build_segment c e s payload =
      Ret (Some (seg, if rc_is_v6 c then IPPROTO_ICMPV6 else IPPROTO_ICMP), e)"
    using IcmpMode seg(1) by (simp add: build_segment_def)
  then show ?thesis
    using IcmpMode assms(2-5) seg(2,3)
    by (auto simp: parse_recv_def recv_segment_def peer_of_def Let_def split: option.splits)
qed

lemma send_recv:
  assumes "same_family (src_ip (send_info raw)) (dst_ip (send_info raw))" "length payload \<le> 65000"
    and "peer_of c (send_info raw) c' raw'" "\<not> fst (random_dropped c e)" "\<not> disabled raw"
  shows "\<exists>c1 e1 raw1 pkt. send_raw c e raw payload = Ret (c1, e1, raw1) \<and>
    rc_sent c1 @ rc_tx_queue c1 = rc_sent c @ rc_tx_queue c @ [pkt] \<and>
    (\<exists>raw''. parse_recv c' raw' (tx_buf pkt) ll = Ret (raw'', Some payload) \<and>
       src_ip (recv_info raw'') = src_ip (send_info raw) \<and> src_port (recv_info raw'') = src_port (send_info raw) \<and>
       data_len (recv_info raw'') = length payload \<and>
       (rc_raw_mode c = FakeTcp \<longrightarrow> seq (recv_info raw'') = seq (send_info raw) \<and>
          ack_seq (recv_info raw'') = ack_seq (send_info raw) \<and> syn (recv_info raw'') = syn (send_info raw) \<and>
          ack (recv_info raw'') = ack (send_info raw)))"
proof -
  let ?s = "send_info raw"
  obtain e0 where d: "random_dropped c e = (False, e0)"
    using assms(4) by (cases "random_dropped c e") simp
  define ip0 where "ip0 = \<lparr> pi_src = src_ip ?s, pi_dst = dst_ip ?s, pi_protocol = 0, pi_header_len = 0, pi_total_len = 0 \<rparr>"
  obtain seg pr e1 where b: "build_segment c e0 ?s payload = Ret (Some (seg, pr), e1)" "length seg \<le> 65100"
    using build_segment_peer[OF assms(1-3), where ip = ip0 and e = e0 and buf = "[]" and ll = sll_zeroed]
    by (auto simp: ip0_def)
  obtain h hd where h: "build_ip_header [] (src_ip ?s) (dst_ip ?s) pr (rc_ttl c) (rc_ip_id_counter c) (length seg)
      = Ret h" "parse_ip (h @ seg) (is_ipv6 (src_ip ?s)) True = Ret (Some hd)" "pi_src hd = src_ip ?s"
      "pi_dst hd = dst_ip ?s" "pi_protocol hd = pr" "ip_payload hd (h @ seg) = Ret seg"
    using ip_roundtrip[OF assms(1), of seg "[]" pr "rc_ttl c" "rc_ip_id_counter c" "[]" True] b(2) by auto
  define pkt where "pkt = \<lparr> tx_buf = h @ seg, tx_off = 0,
      tx_dst = (if rc_lower_level c then TxL2 (addr_ll ?s) else TxIp (dst_ip ?s)) \<rparr>"
  have v6: "rc_is_v6 c' = is_ipv6 (src_ip ?s)"
    using assms(3) by (simp add: peer_of_def)
  have "\<exists>c1 raw1. send_raw c e raw payload = Ret (c1, e1, raw1) \<and>
      rc_sent c1 @ rc_tx_queue c1 = rc_sent c @ rc_tx_queue c @ [pkt]"
    using d assms(5) b(1) h(1) by (simp add: send_raw_def Let_def pkt_def flush_tx_order)
  then show ?thesis
    using build_segment_peer[OF assms(1-3) h(3,4), of e0 "h @ seg" ll] b h v6 by (fastforce simp: pkt_def)
qed



section \<open>The emulated window\<close>

lemma serial_window:
  fixes x a w :: u32
  assumes "\<not> larger_than_u32 (x + 1800) (a + w)" "\<not> larger_than_u32 a x" "1800 < unat w"
  shows "unat (x - a) \<le> unat w - 1800"
proof -
  let ?d = "unat (x - a)"
  have d: "?d < 2 ^ 32"
    using unsigned_less[of "x - a"] by simp
  have "unat ((a - x) + (x - a)) = (unat (a - x) + ?d) mod 2 ^ 32"
    by (simp only: unat_word_ariths(1)) simp
  moreover have "(a - x) + (x - a) = 0"
    by simp
  ultimately have "(unat (a - x) + ?d) mod 2 ^ 32 = 0"
    by (metis unat_0)
  moreover have "unat (a - x) < 2 ^ 32"
    using unsigned_less[of "a - x"] by simp
  ultimately have neg: "?d \<noteq> 0 \<Longrightarrow> unat (a - x) = 2 ^ 32 - ?d"
    using d by (auto simp: mod_if split: if_splits)
  have le: "?d \<le> 2 ^ 31"
  proof (rule ccontr)
    assume "\<not> ?d \<le> 2 ^ 31"
    then have "0 < unat (a - x) \<and> unat (a - x) < 2 ^ 31"
      using neg d by auto
    then show False
      using assms(2) by (simp add: larger_than_u32_iff)
  qed
  show ?thesis
  proof (rule ccontr)
    assume "\<not> ?d \<le> unat w - 1800"
    then have gt: "unat w < ?d + 1800"
      using assms(3) by simp
    have "(x + 1800) - (a + w) = (x - a + 1800) - w"
      by simp
    moreover have "unat (x - a + 1800) = ?d + 1800"
      using le by (simp add: unat_word_ariths)
    moreover from this have "w \<le> x - a + 1800"
      using gt by (simp add: word_le_nat_alt)
    ultimately have "unat ((x + 1800) - (a + w)) = ?d + 1800 - unat w"
      by (simp only: unat_sub)
    then have "0 < unat ((x + 1800) - (a + w)) \<and> unat ((x + 1800) - (a + w)) < 2 ^ 31"
      using gt le assms(3) by simp
    then show False
      using assms(1) by (simp add: larger_than_u32_iff)
  qed
qed

lemma set_send_seq_simps [simp]:
  "seq (send_info (set_send_seq v raw)) = v" "recv_info (set_send_seq v raw) = recv_info raw"
  by (simp_all add: set_send_seq_def)

lemma not_larger_self [simp]: "\<not> larger_than_u32 a a"
  by (simp add: larger_than_u32_def)

lemma after_send_real_window:
  fixes raw :: RawInfo and len w :: u32 and mode :: int
  assumes "w = (if mode = 3 then 1310720 else 40960)"
  defines "r \<equiv> after_send_real mode len raw"
  shows "unat (seq (send_info r) - ack_seq (recv_info r)) \<le> unat w - 1800"
proof -
  let ?a = "ack_seq (recv_info raw)" and ?x = "seq (send_info raw) + len"
  have w: "(if mode = 3 then push_bit (unat WSCALE) RECEIVE_WINDOW_LOWER_BOUND else RECEIVE_WINDOW_LOWER_BOUND) = w"
    by (simp add: assms(1) WSCALE_def RECEIVE_WINDOW_LOWER_BOUND_def)
  have big: "1800 < unat w"
    by (simp add: assms(1))
  have "ack_seq (recv_info r) = ?a \<and> (seq (send_info r) = ?a \<or>
      seq (send_info r) = ?x \<and> \<not> larger_than_u32 (?x + 1800) (?a + w) \<and> \<not> larger_than_u32 ?a ?x)"
    unfolding r_def after_send_real_def Let_def w by (simp add: MAX_DATA_LEN_def)
  then show ?thesis
    using serial_window[OF _ _ big] by auto
qed


section \<open>What receiving changes\<close>

lemma recv_tcp_frame:
  "send_info (recv_tcp c raw t d) = send_info raw" "src_ip (recv_info (recv_tcp c raw t d)) = src_ip (recv_info raw)"
  "dst_ip (recv_info (recv_tcp c raw t d)) = dst_ip (recv_info raw)"
  "src_port (recv_info (recv_tcp c raw t d)) = pt_src_port t"
  by (simp_all add: recv_tcp_def Let_def)

lemma recv_segment_frame:
  assumes "recv_segment c raw ip pl = Ret (raw', r)"
  shows "send_info raw' = send_info raw \<and> src_ip (recv_info raw') = src_ip (recv_info raw) \<and>
    dst_ip (recv_info raw') = dst_ip (recv_info raw)"
proof (cases "rc_raw_mode c")
  case FakeTcp
  then show ?thesis
    using assms by (cases "parse_tcp pl (pi_src ip) (pi_dst ip)")
      (auto simp: recv_segment_def recv_tcp_frame split: if_splits option.splits)
next
  case UdpMode
  then show ?thesis
    using assms by (cases "parse_udp pl (pi_src ip) (pi_dst ip)")
      (auto simp: recv_segment_def split: if_splits option.splits)
next
  case IcmpMode
  then show ?thesis
    using assms by (cases "parse_icmp pl (pi_src ip) (pi_dst ip) (rc_is_client c)")
      (auto simp: recv_segment_def split: if_splits option.splits)
qed

lemma recv_segment_port:
  assumes "recv_segment c raw ip pl = Ret (raw', Some d)"
  shows "(case rc_raw_mode c of
      FakeTcp \<Rightarrow> \<exists>t. parse_tcp pl (pi_src ip) (pi_dst ip) = Ret (Some (t, d)) \<and> src_port (recv_info raw') = pt_src_port t
    | UdpMode \<Rightarrow> \<exists>dp. parse_udp pl (pi_src ip) (pi_dst ip) = Ret (Some (src_port (recv_info raw'), dp, d))
    | IcmpMode \<Rightarrow> \<exists>h. parse_icmp pl (pi_src ip) (pi_dst ip) (rc_is_client c) = Ret (Some (h, d)) \<and>
        src_port (recv_info raw') = pc_id h)"
proof (cases "rc_raw_mode c")
  case FakeTcp
  then show ?thesis
    using assms by (cases "parse_tcp pl (pi_src ip) (pi_dst ip)")
      (auto simp: recv_segment_def recv_tcp_frame split: if_splits option.splits)
next
  case UdpMode
  then show ?thesis
    using assms by (cases "parse_udp pl (pi_src ip) (pi_dst ip)")
      (auto simp: recv_segment_def split: if_splits option.splits)
next
  case IcmpMode
  then show ?thesis
    using assms by (cases "parse_icmp pl (pi_src ip) (pi_dst ip) (rc_is_client c)")
      (auto simp: recv_segment_def split: if_splits option.splits)
qed

lemma recv_segment_panics:
  assumes "recv_segment c raw ip pl = Panic" "same_family (pi_src ip) (pi_dst ip)"
  shows "rc_raw_mode c = FakeTcp"
proof (rule ccontr)
  assume m: "rc_raw_mode c \<noteq> FakeTcp"
  obtain u i where "parse_udp pl (pi_src ip) (pi_dst ip) = Ret u"
        "parse_icmp pl (pi_src ip) (pi_dst ip) (rc_is_client c) = Ret i"
    using parse_udp_total parse_icmp_total assms(2) by metis
  then show False
    using assms(1) m by (cases "rc_raw_mode c") (auto simp: recv_segment_def split: option.splits if_splits)
qed

text \<open>How \<open>parse_recv\<close> runs: either the IP header or the bound address refuses the packet and
  only the receive side changed, or the segment is examined.\<close>

lemma parse_recv_runs:
  obtains raw1 where "parse_recv c raw buf ll = Ret (raw1, None)" "send_info raw1 = send_info raw"
  | ip pl raw1 where "parse_ip buf (rc_is_v6 c) True = Ret (Some ip)" "ip_payload ip buf = Ret pl"
      "parse_recv c raw buf ll = recv_segment c raw1 ip pl" "send_info raw1 = send_info raw"
      "src_ip (recv_info raw1) = pi_src ip" "dst_ip (recv_info raw1) = pi_dst ip"
      "same_family (pi_src ip) (pi_dst ip)" "is_ipv6 (pi_src ip) = rc_is_v6 c"
proof -
  obtain q where q: "parse_ip buf (rc_is_v6 c) True = Ret q"
    using parse_ip_total by blast
  show thesis
  proof (cases q)
    case None
    then show thesis
      using q that(1)[of raw] by (simp add: parse_recv_def)
  next
    case (Some ip)
    note b = parse_ip_bounds[OF q[unfolded Some]]
    obtain pl where pl: "ip_payload ip buf = Ret pl"
      using b by (simp add: ip_payload_def subslice_def)
    define raw0 where "raw0 = (if rc_lower_level c then raw\<lparr> recv_info := (recv_info raw)\<lparr> addr_ll := ll \<rparr> \<rparr> else raw)"
    define raw1 where "raw1 = raw0\<lparr> recv_info := (recv_info raw0)\<lparr> src_ip := pi_src ip, dst_ip := pi_dst ip \<rparr> \<rparr>"
    have s: "send_info raw0 = send_info raw" "send_info raw1 = send_info raw"
      "src_ip (recv_info raw1) = pi_src ip" "dst_ip (recv_info raw1) = pi_dst ip"
      by (simp_all add: raw0_def raw1_def)
    show thesis
    proof (cases "case rc_bind_addr c of Some b \<Rightarrow> pi_dst ip \<noteq> b | None \<Rightarrow> False")
      case True
      then show thesis
        using q Some s that(1)[of raw0] by (simp add: parse_recv_def raw0_def[symmetric])
    next
      case False
      have "parse_recv c raw buf ll = recv_segment c raw1 ip pl"
        using q Some pl False by (simp add: parse_recv_def raw0_def[symmetric] raw1_def[symmetric] Let_def)
      then show thesis
        using q Some pl s b that(2)[of ip pl raw1] by simp
    qed
  qed
qed

text \<open>\<open>parse_recv\<close> leaves the send side alone; when it returns a payload the recorded source and
  destination are those of the IP header, of the family of the context; it panics in
  FakeTCP mode only.\<close>

lemma parse_recv_send_info:
  assumes "parse_recv c raw buf ll = Ret (raw', r)"
  shows "send_info raw' = send_info raw"
  by (rule parse_recv_runs[of c raw buf ll]; metis assms recv_segment_frame eval.inject prod.inject)

lemma parse_recv_addr:
  assumes "parse_recv c raw buf ll = Ret (raw', Some d)"
  obtains ip pl where "parse_ip buf (rc_is_v6 c) True = Ret (Some ip)" "ip_payload ip buf = Ret pl"
    "src_ip (recv_info raw') = pi_src ip" "dst_ip (recv_info raw') = pi_dst ip"
    "same_family (pi_src ip) (pi_dst ip)" "is_ipv6 (pi_src ip) = rc_is_v6 c"
    "\<exists>raw1. recv_segment c raw1 ip pl = Ret (raw', Some d)"
proof (rule parse_recv_runs[of c raw buf ll])
  fix raw1
  assume "parse_recv c raw buf ll = Ret (raw1, None)"
  then show thesis
    using assms by simp
next
  fix ip pl raw1
  assume h: "parse_ip buf (rc_is_v6 c) True = Ret (Some ip)" "ip_payload ip buf = Ret pl"
      "parse_recv c raw buf ll = recv_segment c raw1 ip pl"
      "src_ip (recv_info raw1) = pi_src ip" "dst_ip (recv_info raw1) = pi_dst ip"
      "same_family (pi_src ip) (pi_dst ip)" "is_ipv6 (pi_src ip) = rc_is_v6 c"
  then have s: "recv_segment c raw1 ip pl = Ret (raw', Some d)"
    using assms by simp
  show thesis
    using that[OF h(1,2) _ _ h(6,7)] recv_segment_frame[OF s] h(4,5) s by metis
qed

lemma parse_recv_family:
  assumes "parse_recv c raw buf ll = Ret (raw', Some d)"
  shows "is_ipv6 (src_ip (recv_info raw')) = rc_is_v6 c" "is_ipv6 (dst_ip (recv_info raw')) = rc_is_v6 c"
  using parse_recv_addr[OF assms] by metis+

lemma parse_recv_panics:
  assumes "parse_recv c raw buf ll = Panic"
  shows "rc_raw_mode c = FakeTcp"
  by (rule parse_recv_runs[of c raw buf ll]; metis assms recv_segment_panics eval.distinct(1))

lemma rbind_weaken:
  "rbind x f = Ret r \<Longrightarrow> (\<And>a. f a = Ret r \<Longrightarrow> g a = Ret r) \<Longrightarrow> rbind x g = Ret r"
  by (cases x) auto

lemma if_weaken:
  "(if b then Ret None else x) = Ret (Some r) \<Longrightarrow> (c \<Longrightarrow> b) \<Longrightarrow> (x = Ret (Some r) \<Longrightarrow> y = Ret (Some r)) \<Longrightarrow>
   (if c then Ret None else y) = Ret (Some r)"
  by (cases b; cases c) auto

lemma parse_ipv4_unverified:
  "parse_ipv4 buf True = Ret (Some ip) \<Longrightarrow> parse_ipv4 buf False = Ret (Some ip)"
  unfolding parse_ipv4_def Let_def
  by (erule if_weaken rbind_weaken, assumption?)+ simp_all

lemma parse_ip_unverified:
  "parse_ip buf v6 True = Ret (Some ip) \<Longrightarrow> parse_ip buf v6 False = Ret (Some ip)"
  unfolding parse_ip_def Let_def
  by (erule if_weaken rbind_weaken, assumption?)+ (auto split: if_splits intro: parse_ipv4_unverified)

text \<open>The address by which the server looks a packet up is the one \<open>parse_recv\<close> records.\<close>

lemma peek_total: "\<exists>r. peek c buf = Ret r"
proof -
  obtain q where q: "parse_ip buf (rc_is_v6 c) False = Ret q"
    using parse_ip_total by blast
  show ?thesis
  proof (cases q)
    case (Some ip)
    note b = parse_ip_bounds[OF q[unfolded Some]]
    obtain pl where pl: "ip_payload ip buf = Ret pl"
      using b by (simp add: ip_payload_def subslice_def)
    show ?thesis
      using read_be_ok(1)[of pl] read_be_drop_ok(1)[of 4 pl] unfolding peek_def q Some
      by (cases "rc_raw_mode c") (auto simp: pl idx_def slice_from_def packet_consts)
  qed (simp add: peek_def q)
qed

lemma parse_options_src_port:
  "parse_options_loop opt i t = Ret t' \<Longrightarrow> pt_src_port t' = pt_src_port t"
proof (induction opt i t rule: parse_options_loop.induct)
  case (1 opt i t)
  note eq = 1(4)[unfolded parse_options_loop.simps[of opt i t]]
  consider "length opt \<le> i" | "i < length opt" "opt ! i = 0" | "i < length opt" "opt ! i = 1"
    | "i < length opt" "opt ! i = 8" | "i < length opt" "opt ! i \<notin> {0, 1, 8}"
    by fastforce
  then show ?case
  proof cases
    case 3
    then show ?thesis
      using eq 1(1)[of 1] by (simp add: idx_def)
  next
    case 4
    then show ?thesis
      using eq 1(2)[of 8 10] by (fastforce simp: idx_def rbind_eq_Ret split: if_splits)
  next
    case 5
    then show ?thesis
      using eq 1(3)[of "opt ! i" "opt ! (i + 1)"] by (simp add: idx_def split: if_splits)
  qed (use eq in \<open>simp_all add: idx_def\<close>)
qed

lemma parse_tcp_src_port:
  assumes "parse_tcp seg s d = Ret (Some (t, pl))"
  shows "read_u16_be seg = Ret (pt_src_port t)"
proof -
  obtain t0 opt where "read_u16_be seg = Ret (pt_src_port t0)" "parse_options opt t0 = Ret t"
    using assms unfolding parse_tcp_def Let_def
    by (clarsimp simp: rbind_eq_Ret split: if_splits) (metis ParsedTcp.select_convs(1))
  then show ?thesis
    using parse_options_src_port[of opt 0 "t0\<lparr> pt_has_ts := False, pt_ts := 0 \<rparr>" t]
    by (simp add: parse_options_def)
qed

lemma peek_agrees:
  assumes "peek c buf = Ret (Some pk)" "parse_recv c raw buf ll = Ret (raw', Some d)"
  shows "src_ip (recv_info raw') = pk_src_ip pk" "src_port (recv_info raw') = pk_src_port pk"
proof -
  obtain ip pl raw1 where ip: "parse_ip buf (rc_is_v6 c) True = Ret (Some ip)" "ip_payload ip buf = Ret pl"
      "src_ip (recv_info raw') = pi_src ip" "recv_segment c raw1 ip pl = Ret (raw', Some d)"
    using parse_recv_addr[OF assms(2)] by metis
  note ip' = parse_ip_unverified[OF ip(1)]
  show "src_ip (recv_info raw') = pk_src_ip pk"
    using assms(1) ip(3) unfolding peek_def ip'
    by (auto simp: ip(2) rbind_eq_Ret split: RawMode.splits if_splits)
  show "src_port (recv_info raw') = pk_src_port pk"
  proof (cases "rc_raw_mode c")
    case FakeTcp
    then show ?thesis
      using assms(1) recv_segment_port[OF ip(4)] parse_tcp_src_port[of pl] unfolding peek_def ip'
      by (auto simp: ip(2) rbind_eq_Ret split: if_splits)
  next
    case UdpMode
    then show ?thesis
      using assms(1) recv_segment_port[OF ip(4)] unfolding peek_def ip'
      by (auto simp: ip(2) rbind_eq_Ret parse_udp_def split: if_splits)
  next
    case IcmpMode
    then show ?thesis
      using assms(1) recv_segment_port[OF ip(4)] unfolding peek_def ip'
      by (auto simp: ip(2) rbind_eq_Ret parse_icmp_def split: if_splits)
  qed
qed


section \<open>Properties\<close>

text \<open>C34: A payload sent on a raw connection arrives. In every raw mode and for both address
  families, unless the packet is one of those \<open>--random-drop\<close> discards, \<open>send_raw\<close> queues
  exactly one more packet behind those already queued or handed over, and the peer's
  \<open>parse_recv\<close> returns exactly the payload and records the sender's address, port and
  FakeTCP numbers.\<close>

theorem raw_send_received:
  assumes "same_family (src_ip (send_info raw)) (dst_ip (send_info raw))" "length payload \<le> 65000"
    and "peer_of c (send_info raw) c' raw'" "\<not> fst (random_dropped c e)" "\<not> disabled raw"
  shows "\<exists>c1 e1 raw1 pkt. send_raw c e raw payload = Ret (c1, e1, raw1) \<and>
    rc_sent c1 @ rc_tx_queue c1 = rc_sent c @ rc_tx_queue c @ [pkt] \<and>
    (\<exists>raw''. parse_recv c' raw' (tx_buf pkt) ll = Ret (raw'', Some payload) \<and>
       src_ip (recv_info raw'') = src_ip (send_info raw) \<and> src_port (recv_info raw'') = src_port (send_info raw) \<and>
       data_len (recv_info raw'') = length payload \<and>
       (rc_raw_mode c = FakeTcp \<longrightarrow> seq (recv_info raw'') = seq (send_info raw) \<and>
          ack_seq (recv_info raw'') = ack_seq (send_info raw) \<and> syn (recv_info raw'') = syn (send_info raw) \<and>
          ack (recv_info raw'') = ack (send_info raw)))"
  by (rule send_recv[OF assms])

definition demo_env :: Env where
  "demo_env = \<lparr> e_clock = (\<lambda>n. n), e_tick = 1, e_sec = (\<lambda>n. of_nat n), e_spos = 0, e_nz = (\<lambda>n. 7), e_npos = 0,
     e_nonce = (\<lambda>n. replicate 24 0), e_cpos = 0, e_fast = \<lparr> s0 = 1, s1 = 2, s2 = 3, s3 = 4 \<rparr>, e_little = True \<rparr>"

definition demo_ctx :: "RawMode \<Rightarrow> bool \<Rightarrow> RawCtx" where
  "demo_ctx m cl = \<lparr> rc_accept = (\<lambda>n. 64), rc_calls = 0, rc_sent = [], rc_raw_mode = m, rc_is_v6 = False,
     rc_is_client = cl, rc_seq_mode = 3, rc_ttl = 64, rc_random_drop = 0, rc_filter_port = 0, rc_bind_addr = None,
     rc_lower_level = False, rc_easy_faketcp = False, rc_disable_bpf = False, rc_max_rst_to_show = 15,
     rc_max_rst_allowed = -1, rc_ip_id_counter = 0, rc_tx_queue = [], rc_tx_pool = [], rc_tx_dropped = 0 \<rparr>"

definition demo_raw :: RawInfo where
  "demo_raw = fst (RawInfo_new FakeTcp False demo_env)"

theorem raw_send_received_witness:
  "\<exists>c1 e1 raw1 pkt raw''. send_raw (demo_ctx FakeTcp True) demo_env demo_raw [1, 2, 3] = Ret (c1, e1, raw1) \<and>
    rc_sent c1 @ rc_tx_queue c1 = [pkt] \<and>
    parse_recv (demo_ctx FakeTcp False) demo_raw (tx_buf pkt) sll_zeroed = Ret (raw'', Some [1, 2, 3])"
proof -
  have h: "same_family (src_ip (send_info demo_raw)) (dst_ip (send_info demo_raw))"
    "peer_of (demo_ctx FakeTcp True) (send_info demo_raw) (demo_ctx FakeTcp False) demo_raw"
    "\<not> fst (random_dropped (demo_ctx FakeTcp True) demo_env)" "\<not> disabled demo_raw"
    by (simp_all add: demo_raw_def RawInfo_new_def PacketInfo_new_def Let_def peer_of_def demo_ctx_def
        random_dropped_def split: prod.splits)
  have e: "rc_sent (demo_ctx FakeTcp True) = []" "rc_tx_queue (demo_ctx FakeTcp True) = []"
    by (simp_all add: demo_ctx_def)
  from raw_send_received[OF h(1) _ h(2-4), of "[1, 2, 3]" sll_zeroed] show ?thesis
    unfolding e by auto
qed

text \<open>C35: The emulated sender stays inside the peer's advertised window. In sequence modes 3
  and 4 (with and without window scaling), after any data segment the sequence number is at
  or ahead of the last acknowledgment received and leaves room for one more full packet, in
  wrap-around arithmetic.\<close>

theorem faketcp_seq_within_window:
  assumes "rc_raw_mode c = FakeTcp" "rc_seq_mode c = 3 \<or> rc_seq_mode c = 4"
    and "\<not> syn (send_info raw)" "ack (send_info raw)" "(of_nat (data_len (send_info raw)) :: u32) \<noteq> 0"
    and "after_send c e raw = (e', raw')"
  shows "unat (seq (send_info raw') - ack_seq (recv_info raw')) + 1800 \<le> (if rc_seq_mode c = 3 then 1310720 else 40960)"
proof -
  let ?len = "of_nat (data_len (send_info raw)) :: u32"
  have r: "raw' = after_send_real (rc_seq_mode c) ?len raw"
    using assms by (auto simp: after_send_def Let_def)
  show ?thesis
    using after_send_real_window[OF refl, of "rc_seq_mode c" ?len raw] assms(2) unfolding r[symmetric]
    by auto
qed

theorem faketcp_seq_within_window_witness:
  "unat (seq (send_info (snd (after_send (demo_ctx FakeTcp True) demo_env
       (demo_raw\<lparr> send_info := (send_info demo_raw)\<lparr> data_len := 5 \<rparr> \<rparr>)))) -
     ack_seq (recv_info (snd (after_send (demo_ctx FakeTcp True) demo_env
       (demo_raw\<lparr> send_info := (send_info demo_raw)\<lparr> data_len := 5 \<rparr> \<rparr>))))) + 1800 \<le> 1310720"
proof -
  let ?r = "demo_raw\<lparr> send_info := (send_info demo_raw)\<lparr> data_len := 5 \<rparr> \<rparr>"
  have h: "rc_raw_mode (demo_ctx FakeTcp True) = FakeTcp" "rc_seq_mode (demo_ctx FakeTcp True) = 3"
    "\<not> syn (send_info ?r)" "ack (send_info ?r)" "(of_nat (data_len (send_info ?r)) :: u32) \<noteq> 0"
    by (simp_all add: demo_raw_def RawInfo_new_def PacketInfo_new_def Let_def demo_ctx_def split: prod.splits)
  show ?thesis
    using faketcp_seq_within_window[OF h(1) disjI1[OF h(2)] h(3-5) prod.collapse[symmetric], of demo_env] h(2)
    by simp
qed

definition evil_packet :: bytes where
  "evil_packet = [0x45, 0, 0, 40, 0, 0, 0x40, 0, 64, 6, 0x3c, 0xce, 127, 0, 0, 1, 127, 0, 0, 1] @
     replicate 12 0 @ [0x40] @ replicate 7 0"

lemma evil_bytes:
  "length evil_packet = 40" "evil_packet \<noteq> []" "idx evil_packet 0 = Ret 0x45" "idx evil_packet 2 = Ret 0" "idx evil_packet 3 = Ret 40"
  "idx evil_packet 9 = Ret 6"
  "subslice evil_packet 0 20 = Ret [0x45, 0, 0, 40, 0, 0, 0x40, 0, 64, 6, 0x3c, 0xce, 127, 0, 0, 1, 127, 0, 0, 1]"
  "ipv4_at evil_packet 12 = Ret (V4 0x7f000001)" "ipv4_at evil_packet 16 = Ret (V4 0x7f000001)"
  by (simp_all add: evil_packet_def idx_def subslice_def ipv4_at_def read_u32_be_def of_be32_def bcat_def)

lemma evil_csum: "csum_verify [0x45, 0, 0, 40, 0, 0, 0x40, 0, 64, 6, 0x3c, 0xce, 127, 0, 0, 1, 127, 0, 0, 1]"
  by (simp add: csum_verify_def csum_def csum_fold_def of_be16_def bcat_def Let_def)

text \<open>C36: One unauthenticated packet stops a FakeTCP endpoint. The 40 bytes of \<open>evil_packet\<close>,
  a well-formed IPv4 header with a valid checksum followed by a TCP header whose data offset
  is 4, make \<open>parse_recv\<close> panic in every state of every IPv4 FakeTCP context that is not bound
  to another address; in a release build a panic aborts the process.\<close>

theorem faketcp_remote_abort:
  assumes "rc_raw_mode c = FakeTcp" "\<not> rc_is_v6 c" "rc_bind_addr c = None \<or> rc_bind_addr c = Some (V4 0x7f000001)"
  shows "panics (parse_recv c raw evil_packet ll)"
proof -
  let ?ip = "\<lparr> pi_src = V4 0x7f000001, pi_dst = V4 0x7f000001, pi_protocol = 6, pi_header_len = 20, pi_total_len = 40 \<rparr>"
  have ip: "parse_ip evil_packet False True = Ret (Some ?ip)"
    by (simp add: parse_ip_def parse_ipv4_def evil_bytes Let_def packet_consts of_be16_def bcat_def evil_csum)
  have pl: "ip_payload ?ip evil_packet = Ret (replicate 12 0 @ [0x40] @ replicate 7 0)"
    by (simp add: ip_payload_def subslice_def evil_packet_def)
  have "panics (parse_tcp (replicate 12 0 @ [0x40] @ replicate 7 0) (V4 0x7f000001) (V4 0x7f000001))"
    using parse_tcp_panics[of "V4 0x7f000001" "V4 0x7f000001" "replicate 12 0 @ [0x40] @ replicate 7 0"]
    by (simp add: nth_append)
  then have "parse_tcp (replicate 12 0 @ [0x40] @ replicate 7 0) (V4 0x7f000001) (V4 0x7f000001) = Panic"
    by (simp only: panics_iff)
  then show ?thesis
    using assms ip pl by (auto simp: parse_recv_def recv_segment_def Let_def IPPROTO_TCP_def split: option.splits)
qed

theorem faketcp_remote_abort_witness:
  "panics (parse_recv (demo_ctx FakeTcp False) demo_raw evil_packet sll_zeroed)"
  by (rule faketcp_remote_abort) (simp_all add: demo_ctx_def)

end
