(* ===== verification/Conn.thy ===== *)
theory Conn
  imports Wire Anti_Replay Faketcp
begin

text \<open>
  The per-connection state shared by client and server (\<open>src/src/conn.rs\<close>): the handshake
  ("bare") and session ("safer") packets, their encryption and \<open>--fix-gro\<close> framing, and the
  stateful acceptance of a decrypted session packet. The nonce of an AEAD packet is drawn from
  the environment of the thread that encrypts; log messages are omitted.
\<close>


section \<open>State\<close>

record ConnInfo =
  ci_raw :: RawInfo
  last_state_time :: nat
  last_hb_sent_time :: nat
  last_hb_recv_time :: nat
  my_id :: u32
  oppsite_id :: u32
  oppsite_const_id :: u32
  my_roller :: u8
  oppsite_roller :: u8
  last_oppsite_roller_time :: nat
  anti_replay :: AntiReplay

definition ConnInfo_new :: "RawMode \<Rightarrow> bool \<Rightarrow> bool \<Rightarrow> Env \<Rightarrow> ConnInfo \<times> Env" where
  "ConnInfo_new raw_mode is_v6 disable_anti_replay e =
     (case RawInfo_new raw_mode is_v6 e of (raw, e1) \<Rightarrow>
      case secure_random_u64 e1 of (rnd, e2) \<Rightarrow>
        (\<lparr> ci_raw = raw, last_state_time = 0, last_hb_sent_time = 0, last_hb_recv_time = 0, my_id = 0,
           oppsite_id = 0, oppsite_const_id = 0, my_roller = 0, oppsite_roller = 0,
           last_oppsite_roller_time = 0, anti_replay = ar_new disable_anti_replay rnd \<rparr>, e2))"

definition recover_from :: "ConnInfo \<Rightarrow> ConnInfo \<Rightarrow> ConnInfo" where
  "recover_from self other = self\<lparr>
     ci_raw := (ci_raw other)\<lparr> rst_received := 0, RawInfo.disabled := False \<rparr>,
     last_state_time := last_state_time other, last_hb_recv_time := last_hb_recv_time other,
     last_hb_sent_time := last_hb_sent_time other, my_id := my_id other, oppsite_id := oppsite_id other,
     anti_replay := ar_re_init (anti_replay self), my_roller := 0, oppsite_roller := 0,
     last_oppsite_roller_time := 0 \<rparr>"


section \<open>Handshake packets\<close>

text \<open>\<open>Crypto::encrypt\<close>: an AEAD engine draws one nonce from the calling thread's generator,
  after the length check.\<close>

definition encrypt :: "prims \<Rightarrow> Crypto \<Rightarrow> Env \<Rightarrow> bytes \<Rightarrow> bytes option \<times> Env" where
  "encrypt p c e d =
     (if length d > MAX_DATA_LEN \<or> aead c = None then (encrypt_vec p c [] d, e)
      else case random_nonce e of (n, e1) \<Rightarrow> (encrypt_vec p c n d, e1))"

text \<open>The last component is false when the source returns \<open>encrypt failed\<close>.\<close>

definition send_bare ::
  "prims \<Rightarrow> Crypto \<Rightarrow> RawCtx \<Rightarrow> Env \<Rightarrow> RawInfo \<Rightarrow> bytes \<Rightarrow> (RawCtx \<times> Env \<times> RawInfo \<times> bool) eval" where
  "send_bare p c ctx e raw payload =
     (let (iv, e1) = secure_random_u64 e; (pad, e2) = secure_random_u64 e1 in
      case encrypt p c e2 (build_bare (e_little e) iv pad payload) of
        (None, e3) \<Rightarrow> Ret (ctx, e3, raw, False)
      | (Some wire_bytes, e3) \<Rightarrow>
          rbind (send_raw ctx e3 raw wire_bytes) (\<lambda>(ctx', e4, raw'). Ret (ctx', e4, raw', True)))"

definition send_handshake ::
  "prims \<Rightarrow> Crypto \<Rightarrow> RawCtx \<Rightarrow> Env \<Rightarrow> RawInfo \<Rightarrow> u32 \<Rightarrow> u32 \<Rightarrow> u32 \<Rightarrow> (RawCtx \<times> Env \<times> RawInfo \<times> bool) eval" where
  "send_handshake p c ctx e raw id1 id2 id3 = send_bare p c ctx e raw (build_handshake id1 id2 id3)"

text \<open>\<open>conn::parse_bare\<close>, the decrypting half.\<close>

definition recv_bare :: "prims \<Rightarrow> Crypto \<Rightarrow> bytes \<Rightarrow> bytes option eval" where
  "recv_bare p c d =
     (if length d > MAX_DATA_LEN then Ret None
      else case decrypt_vec p c d of None \<Rightarrow> Ret None | Some plain \<Rightarrow> parse_bare plain)"


section \<open>Session packets\<close>

definition prepare_safer :: "ConnInfo \<Rightarrow> u8 \<Rightarrow> bytes \<Rightarrow> bytes \<times> ConnInfo" where
  "prepare_safer info ptype payload =
     (case next_seq_for_send (anti_replay info) of (s, ar) \<Rightarrow>
        (build_safer \<lparr> sh_my_id = my_id info, sh_oppsite_id = oppsite_id info, sh_seq = s,
           sh_ptype = ptype, sh_roller = my_roller info \<rparr> payload,
         info\<lparr> anti_replay := ar \<rparr>))"

definition prepare_safer_data :: "ConnInfo \<Rightarrow> u32 \<Rightarrow> bytes \<Rightarrow> bytes \<times> ConnInfo" where
  "prepare_safer_data info conv d =
     (case prepare_safer info TYPE_DATA [] of (h, info') \<Rightarrow> (h @ be32 conv @ d, info'))"

definition encrypt_safer_vec :: "prims \<Rightarrow> Crypto \<Rightarrow> Env \<Rightarrow> bytes \<Rightarrow> bool \<Rightarrow> (bytes option \<times> Env) eval" where
  "encrypt_safer_vec p c e plain fix_gro =
     (case encrypt p c e plain of
        (None, e1) \<Rightarrow> Ret (None, e1)
      | (Some enc, e1) \<Rightarrow>
          if fix_gro then rbind (gro_wrap p c enc) (\<lambda>w. Ret (Some w, e1)) else Ret (Some enc, e1))"

definition transmit_safer :: "RawCtx \<Rightarrow> Env \<Rightarrow> RawInfo \<Rightarrow> bytes \<Rightarrow> (RawCtx \<times> Env \<times> RawInfo) eval" where
  "transmit_safer ctx e raw wire_bytes =
     rbind (send_raw ctx e raw wire_bytes) (\<lambda>(ctx', e1, raw1).
       case after_send ctx' e1 raw1 of (e2, raw2) \<Rightarrow> Ret (ctx', e2, raw2))"

definition send_safer ::
  "prims \<Rightarrow> Crypto \<Rightarrow> RawCtx \<Rightarrow> Env \<Rightarrow> ConnInfo \<Rightarrow> u8 \<Rightarrow> bytes \<Rightarrow> bool \<Rightarrow> (RawCtx \<times> Env \<times> ConnInfo \<times> bool) eval" where
  "send_safer p c ctx e info ptype payload fix_gro =
     (if ptype \<noteq> TYPE_HEARTBEAT \<and> ptype \<noteq> TYPE_DATA then Ret (ctx, e, info, False)
      else case prepare_safer info ptype payload of (plain, info1) \<Rightarrow>
        rbind (encrypt_safer_vec p c e plain fix_gro) (\<lambda>r.
          case r of
            (None, e1) \<Rightarrow> Ret (ctx, e1, info1, False)
          | (Some w, e1) \<Rightarrow>
              rbind (transmit_safer ctx e1 (ci_raw info1) w) (\<lambda>(ctx', e2, raw').
                Ret (ctx', e2, info1\<lparr> ci_raw := raw' \<rparr>, True))))"

fun decrypt_parts :: "prims \<Rightarrow> Crypto \<Rightarrow> bytes \<Rightarrow> (nat \<times> nat) list \<Rightarrow> bytes list eval" where
  "decrypt_parts p c d [] = Ret []"
| "decrypt_parts p c d ((off, n) # parts) =
     rbind (subslice d off (off + n)) (\<lambda>q.
     rbind (decrypt_parts p c d parts) (\<lambda>out.
       Ret (case decrypt_vec p c q of Some plain \<Rightarrow> plain # out | None \<Rightarrow> out)))"

definition decrypt_safer_gro :: "prims \<Rightarrow> Crypto \<Rightarrow> bytes \<Rightarrow> bytes list eval" where
  "decrypt_safer_gro p c d =
     rbind (gro_unwrap p c d) (\<lambda>(parts, d'). decrypt_parts p c d' parts)"

definition decrypt_safer_vec :: "prims \<Rightarrow> Crypto \<Rightarrow> bytes \<Rightarrow> bool \<Rightarrow> bytes list eval" where
  "decrypt_safer_vec p c wire fix_gro =
     (if \<not> fix_gro then Ret (case decrypt_vec p c wire of Some plain \<Rightarrow> [plain] | None \<Rightarrow> [])
      else decrypt_safer_gro p c wire)"

definition accept_safer_offset ::
  "Env \<Rightarrow> ConnInfo \<Rightarrow> bytes \<Rightarrow> int \<Rightarrow> (Env \<times> ConnInfo \<times> (u8 \<times> nat) option) eval" where
  "accept_safer_offset e info plain hb_mode =
     rbind (parse_safer_ids plain) (\<lambda>q.
     case q of None \<Rightarrow> Ret (e, info, None) | Some ids \<Rightarrow>
     if si_oppsite_id ids \<noteq> oppsite_id info \<or> si_my_id ids \<noteq> my_id info then Ret (e, info, None)
     else case is_valid (anti_replay info) (si_seq ids) of (ok, ar) \<Rightarrow>
       let info1 = info\<lparr> anti_replay := ar \<rparr> in
       if \<not> ok then Ret (e, info1, None)
       else rbind (parse_safer_body plain) (\<lambda>b.
         case b of None \<Rightarrow> Ret (e, info1, None) | Some (ptype, roller, payload) \<Rightarrow>
           case (if roller \<noteq> oppsite_roller info1
                 then (case now_ms e of (t, e') \<Rightarrow>
                   (e', info1\<lparr> oppsite_roller := roller, last_oppsite_roller_time := t \<rparr>))
                 else (e, info1)) of (e1, info2) \<Rightarrow>
           let info3 = (if hb_mode = 0 \<or> ptype = TYPE_HEARTBEAT
                        then info2\<lparr> my_roller := my_roller info2 + 1 \<rparr> else info2)
           in Ret (e1, info3, Some (ptype, SAFER_HEADER_LEN))))"

definition accept_safer ::
  "Env \<Rightarrow> ConnInfo \<Rightarrow> bytes \<Rightarrow> int \<Rightarrow> (Env \<times> ConnInfo \<times> (u8 \<times> bytes) option) eval" where
  "accept_safer e info plain hb_mode =
     rbind (accept_safer_offset e info plain hb_mode) (\<lambda>(e1, info1, r).
       case r of None \<Rightarrow> Ret (e1, info1, None)
       | Some (ptype, off) \<Rightarrow> rbind (slice_from plain off) (\<lambda>d. Ret (e1, info1, Some (ptype, d))))"

fun accept_all ::
  "Env \<Rightarrow> ConnInfo \<Rightarrow> bytes list \<Rightarrow> int \<Rightarrow> (Env \<times> ConnInfo \<times> (u8 \<times> bytes) list) eval" where
  "accept_all e info [] hb_mode = Ret (e, info, [])"
| "accept_all e info (q # plains) hb_mode =
     rbind (accept_safer e info q hb_mode) (\<lambda>(e1, info1, r).
     rbind (accept_all e1 info1 plains hb_mode) (\<lambda>(e2, info2, out).
       Ret (e2, info2, case r of Some x \<Rightarrow> x # out | None \<Rightarrow> out)))"

definition recv_safer_inline ::
  "prims \<Rightarrow> Crypto \<Rightarrow> RawCtx \<Rightarrow> Env \<Rightarrow> ConnInfo \<Rightarrow> bytes \<Rightarrow> bool \<Rightarrow> int \<Rightarrow> RecvMeta \<Rightarrow>
   (Env \<times> ConnInfo \<times> (u8 \<times> bytes) list) eval" where
  "recv_safer_inline p c ctx e info d fix_gro hb_mode meta =
     rbind (decrypt_safer_vec p c d fix_gro) (\<lambda>plains.
     rbind (accept_all e info plains hb_mode) (\<lambda>(e1, info1, out).
       Ret (e1, (if out = [] then info1 else info1\<lparr> ci_raw := after_recv ctx (ci_raw info1) meta \<rparr>), out)))"


section \<open>Totality\<close>

text \<open>With an engine built from derived keys no packet makes the decrypting half panic, and no
  packet makes the encrypting half panic.\<close>

lemma decrypt_parts_total:
  "\<forall>x \<in> set parts. fst x + snd x \<le> length d \<Longrightarrow> \<exists>out. decrypt_parts p c d parts = Ret out"
  by (induction parts) (auto simp: subslice_def)

lemma decrypt_safer_vec_total:
  assumes "hash_lengths p" "aes_crate_ok p" "engine p c"
  shows "\<exists>out. decrypt_safer_vec p c wire fix_gro = Ret out"
proof -
  obtain parts d where "gro_unwrap p c wire = Ret (parts, d)" "length d = length wire"
      "\<forall>x \<in> set parts. fst x + snd x \<le> length wire"
    using gro_unwrap_loop_total[OF assms, of 0 "length wire" wire] by (auto simp: gro_unwrap_def)
  then show ?thesis
    using decrypt_parts_total[of parts d p c] by (simp add: decrypt_safer_vec_def decrypt_safer_gro_def)
qed

lemma encrypt_safer_vec_total:
  assumes "hash_lengths p" "aes_crate_ok p" "engine p c"
  shows "\<exists>r. encrypt_safer_vec p c e plain fix_gro = Ret r"
proof -
  obtain r e1 where r: "encrypt p c e plain = (r, e1)"
    by fastforce
  show ?thesis
  proof (cases r)
    case (Some enc)
    then show ?thesis
      using gro_wrap_total[OF assms, of enc] r by (auto simp: encrypt_safer_vec_def)
  qed (simp add: encrypt_safer_vec_def r)
qed

lemma recv_bare_total: "\<exists>r. recv_bare p c d = Ret r"
  using parse_bare_total by (auto simp: recv_bare_def split: option.split)


section \<open>Accepting a packet\<close>

text \<open>What acceptance may change: the filter, the rollers and the time of the last roller.\<close>

definition same_session :: "ConnInfo \<Rightarrow> ConnInfo \<Rightarrow> bool" where
  "same_session a b \<longleftrightarrow> b = a\<lparr> anti_replay := anti_replay b, my_roller := my_roller b,
     oppsite_roller := oppsite_roller b, last_oppsite_roller_time := last_oppsite_roller_time b \<rparr>"

lemma same_sessionD:
  assumes "same_session a b"
  shows "ci_raw b = ci_raw a" "my_id b = my_id a" "oppsite_id b = oppsite_id a" "last_state_time b = last_state_time a"
    "last_hb_sent_time b = last_hb_sent_time a" "last_hb_recv_time b = last_hb_recv_time a"
    "oppsite_const_id b = oppsite_const_id a"
  by (subst assms[unfolded same_session_def], simp)+

text \<open>The packets the connection takes as its own: the ids are those of the session.\<close>

definition addressed :: "ConnInfo \<Rightarrow> bytes \<Rightarrow> u64 option" where
  "addressed info plain = (case parse_safer_ids plain of
     Ret (Some ids) \<Rightarrow> if si_oppsite_id ids = oppsite_id info \<and> si_my_id ids = my_id info then Some (si_seq ids) else None
   | _ \<Rightarrow> None)"

lemma accept_safer_offset_result:
  obtains e' info' r where "accept_safer_offset e info plain hb = Ret (e', info', r)" "same_session info info'"
    "r \<noteq> None \<Longrightarrow> 18 \<le> length plain \<and> snd (the r) = 18 \<and> fst (the r) \<in> {TYPE_HEARTBEAT, TYPE_DATA}"
    "anti_replay info' = (case addressed info plain of None \<Rightarrow> anti_replay info
       | Some s \<Rightarrow> snd (is_valid (anti_replay info) s))"
    "r \<noteq> None \<Longrightarrow> (\<exists>s. addressed info plain = Some s \<and> fst (is_valid (anti_replay info) s))"
    "e' = e \<or> e' = snd (now_ms e)"
proof -
  obtain q where q: "parse_safer_ids plain = Ret q"
    using parse_safer_ids_total by blast
  obtain b where b: "parse_safer_body plain = Ret b"
    using parse_safer_body_total by blast
  have len: "b \<noteq> None \<Longrightarrow> 18 \<le> length plain \<and> fst (the b) \<in> {TYPE_HEARTBEAT, TYPE_DATA}"
    using b by (auto simp: parse_safer_body_def wire_consts rbind_eq_Ret split: if_splits)
  show thesis
  proof (cases "addressed info plain")
    case None
    have "accept_safer_offset e info plain hb = Ret (e, info, None)"
      using None q by (auto simp: accept_safer_offset_def addressed_def split: option.splits if_splits)
    then show thesis
      using None by (intro that) (auto simp: same_session_def)
  next
    case (Some s)
    then obtain ids where ids: "q = Some ids" "si_oppsite_id ids = oppsite_id info" "si_my_id ids = my_id info" "si_seq ids = s"
      using q by (auto simp: addressed_def split: option.splits if_splits)
    obtain ok ar where v: "is_valid (anti_replay info) s = (ok, ar)"
      by fastforce
    show thesis
    proof (cases "ok \<and> b \<noteq> None")
      case False
      then have "accept_safer_offset e info plain hb = Ret (e, info\<lparr> anti_replay := ar \<rparr>, None)"
        using q b v ids by (cases b) (auto simp: accept_safer_offset_def Let_def)
      then show thesis
        using Some v by (intro that) (auto simp: same_session_def)
    next
      case True
      then obtain pt rl pay where bb: "b = Some (pt, rl, pay)"
        by auto
      have "\<exists>e' info'. accept_safer_offset e info plain hb = Ret (e', info', Some (pt, 18)) \<and>
          same_session info info' \<and> anti_replay info' = ar \<and> (e' = e \<or> e' = snd (now_ms e))"
        using q b v ids bb True
        by (cases "now_ms e") (auto simp: accept_safer_offset_def Let_def SAFER_HEADER_LEN_def same_session_def)
      then show thesis
        using Some v True len bb that by fastforce
    qed
  qed
qed

lemma same_session_addressed:
  assumes "same_session a b"
  shows "addressed b plain = addressed a plain"
  unfolding addressed_def same_sessionD[OF assms] ..

text \<open>A session as a replay filter over plaintexts: it covers those whose sequence number its
  window covers.\<close>

definition take_packet :: "int \<Rightarrow> Env \<times> ConnInfo \<Rightarrow> bytes \<Rightarrow> bool \<times> Env \<times> ConnInfo" where
  "take_packet hb s plain = (case accept_safer_offset (fst s) (snd s) plain hb of
     Panic \<Rightarrow> (False, s) | Ret (e', info', r) \<Rightarrow> (r \<noteq> None, e', info'))"

definition session_covers :: "Env \<times> ConnInfo \<Rightarrow> bytes set \<Rightarrow> bool" where
  "session_covers s A \<longleftrightarrow> (\<exists>S. ar_covers (anti_replay (snd s)) S \<and>
     (\<forall>q \<in> A. \<exists>n \<in> S. addressed (snd s) q = Some n))"

lemma take_packet_result:
  obtains e' info' where "snd (take_packet hb s plain) = (e', info')" "same_session (snd s) info'"
    "fst (take_packet hb s plain) \<Longrightarrow> (\<exists>n. addressed (snd s) plain = Some n \<and> fst (is_valid (anti_replay (snd s)) n))"
    "anti_replay info' = (case addressed (snd s) plain of None \<Rightarrow> anti_replay (snd s)
       | Some n \<Rightarrow> snd (is_valid (anti_replay (snd s)) n))"
  by (rule accept_safer_offset_result[of "fst s" "snd s" plain hb]) (auto simp: take_packet_def intro: that)

lemma session_covers_step:
  assumes "session_covers s A"
  shows "session_covers (snd (take_packet hb s plain)) (if fst (take_packet hb s plain) then insert plain A else A)"
proof -
  obtain S where S: "ar_covers (anti_replay (snd s)) S" "\<forall>q \<in> A. \<exists>n \<in> S. addressed (snd s) q = Some n"
    using assms by (auto simp: session_covers_def)
  obtain e' info' where t: "snd (take_packet hb s plain) = (e', info')" "same_session (snd s) info'"
    "fst (take_packet hb s plain) \<Longrightarrow> (\<exists>n. addressed (snd s) plain = Some n \<and> fst (is_valid (anti_replay (snd s)) n))"
    "anti_replay info' = (case addressed (snd s) plain of None \<Rightarrow> anti_replay (snd s)
       | Some n \<Rightarrow> snd (is_valid (anti_replay (snd s)) n))"
    using take_packet_result by blast
  note ad = same_session_addressed[OF t(2)]
  show ?thesis
  proof (cases "\<exists>n. addressed (snd s) plain = Some n \<and> fst (is_valid (anti_replay (snd s)) n)")
    case True
    then obtain n where n: "addressed (snd s) plain = Some n" "fst (is_valid (anti_replay (snd s)) n)"
      by blast
    have "ar_covers (anti_replay info') (insert n S)"
      using ar_covers_accept[OF S(1) n(2)] t(4) n(1) by simp
    then show ?thesis
      using S(2) n(1) unfolding session_covers_def t(1) by (intro exI[of _ "insert n S"]) (auto simp: ad)
  next
    case False
    then have "anti_replay info' = anti_replay (snd s)" "\<not> fst (take_packet hb s plain)"
      using t(3,4) ar_covers_reject[OF S(1)] by (auto split: option.splits)
    then show ?thesis
      using S unfolding session_covers_def t(1) by (auto simp: ad)
  qed
qed

lemma session_covered_rejected:
  assumes "session_covers s A" "plain \<in> A"
  shows "\<not> fst (take_packet hb s plain)"
proof
  assume "fst (take_packet hb s plain)"
  then obtain n where "addressed (snd s) plain = Some n" "fst (is_valid (anti_replay (snd s)) n)"
    using take_packet_result by metis
  then show False
    using assms ar_covers_covered by (fastforce simp: session_covers_def)
qed

lemma ar_re_init_frame: "AntiReplay.disabled (ar_re_init ar) = AntiReplay.disabled ar"
  by (simp add: ar_re_init_def)

interpretation session: replay_filter "take_packet hb" session_covers for hb
proof unfold_locales
  fix s :: "Env \<times> ConnInfo" and A n
  assume c: "session_covers s A"
  show "n \<in> A \<Longrightarrow> \<not> fst (take_packet hb s n)"
    using session_covered_rejected[OF c] by blast
  show "fst (take_packet hb s n) \<Longrightarrow> session_covers (snd (take_packet hb s n)) (insert n A)"
    using session_covers_step[OF c, of hb n] by simp
  show "\<not> fst (take_packet hb s n) \<Longrightarrow> session_covers (snd (take_packet hb s n)) A"
    using session_covers_step[OF c, of hb n] by simp
qed


section \<open>End to end\<close>

lemma prepare_safer_data_shape:
  "prepare_safer_data info conv d = (build_safer \<lparr> sh_my_id = my_id info, sh_oppsite_id = oppsite_id info,
     sh_seq = next_send_seq (anti_replay info), sh_ptype = TYPE_DATA, sh_roller = my_roller info \<rparr>
       (build_data_payload conv d),
     info\<lparr> anti_replay := snd (next_seq_for_send (anti_replay info)) \<rparr>)"
  by (simp add: prepare_safer_data_def prepare_safer_def next_seq_for_send_def build_safer_def build_data_payload_def)

lemma encrypt_Some:
  assumes "hash_lengths p" "aes_crate_ok p" "aead_ok p" "Keys_derive p pw r = Ret ks"
    and "\<forall>n. length (e_nonce e n) = 24" "16 \<le> length d" "length d \<le> 1760"
  obtains w e' nonce where "encrypt p (Crypto_with_backend p h cm am legacy ks be) e d = (Some w, e')"
    "length nonce = 24" "encrypt_vec p (Crypto_with_backend p h cm am legacy ks be) nonce d = Some w"
    "length d \<le> length w" "length w \<le> 1800"
proof -
  let ?c = "Crypto_with_backend p h cm am legacy ks be"
  have w: "\<exists>w. encrypt_vec p ?c nonce d = Some w \<and> length d \<le> length w \<and> length w \<le> 1800" if "length nonce = 24" for nonce
    using encrypt_vec_Some[OF assms(1-4) that, of cm d h am legacy be] assms(6,7) by fastforce
  show thesis
  proof (cases "aead ?c")
    case None
    have "encrypt_vec p ?c n d = encrypt_vec p ?c [] d" for n
      using None by (simp add: encrypt_vec_def)
    then obtain w where w': "encrypt_vec p ?c (replicate 24 0) d = Some w" "length d \<le> length w" "length w \<le> 1800"
        "encrypt_vec p ?c [] d = Some w"
      using w[of "replicate 24 0"] by (metis length_replicate)
    then have "encrypt p ?c e d = (Some w, e)"
      using None by (simp add: encrypt_def)
    then show thesis
      by (rule that[OF _ _ w'(1-3)]) simp
  next
    case (Some a)
    obtain w where w': "encrypt_vec p ?c (e_nonce e (e_cpos e)) d = Some w" "length d \<le> length w" "length w \<le> 1800"
      using w[of "e_nonce e (e_cpos e)"] assms(5) by blast
    then have "encrypt p ?c e d = (Some w, snd (random_nonce e))"
      using Some assms(7) by (simp add: encrypt_def random_nonce_def MAX_DATA_LEN_def)
    then show thesis
      using that w' assms(5) by blast
  qed
qed

lemma gro_single:
  assumes "aes_crate_ok p" "mirror p a b" "14 \<le> length enc" "length enc \<le> 1800" "decrypt_vec p b enc = Some plain"
  shows "\<exists>w. gro_wrap p a enc = Ret w \<and> decrypt_safer_gro p b w = Ret [plain]"
proof -
  obtain buf where b: "gro_burst p a [enc] = Ret buf"
      "gro_unwrap_loop p b ([] @ buf) (length ([] :: bytes)) (length buf) = Ret (burst_offsets 0 [enc], concat (map framed [enc]))"
    using gro_burst_unwrap_loop[OF assms(1,2), of "[enc]"] assms(3,4)
    by (metis append_Nil list.size(3) list.set_intros(1) set_ConsD empty_iff empty_set)
  have "subslice (framed enc) 2 (2 + length enc) = Ret enc"
    by (simp add: subslice_def framed_def)
  then have "decrypt_safer_gro p b buf = Ret [plain]"
    using b(2) assms(5) by (simp add: decrypt_safer_gro_def gro_unwrap_def numeral_2_eq_2)
  moreover have "gro_wrap p a enc = Ret buf"
    using b(1) by (cases "gro_wrap p a enc") simp_all
  ultimately show ?thesis
    by blast
qed


section \<open>Properties\<close>


definition demo_info :: ConnInfo where
  "demo_info = (fst (ConnInfo_new FakeTcp False False demo_env))\<lparr> anti_replay := ar_new False 70 \<rparr>"

lemma demo_info_simps:
  "my_id demo_info = 0" "oppsite_id demo_info = 0" "anti_replay demo_info = ar_new False 70"
  by (simp_all add: demo_info_def ConnInfo_new_def split: prod.split)




end
