(* ===== verification/Pipeline.thy ===== *)
theory Pipeline
  imports Conn
begin

text \<open>
  The crypto pipeline of \<open>src/src/pipeline.rs\<close>: jobs are collected into batches, handed to the
  worker threads in strict round-robin order and collected in the same order. A worker is its
  two bounded channels, the batch it has processed but not yet put back, the state of its
  thread-local random generator and whether it still runs; worker threads advance by the
  relation \<open>worker_step\<close>, interleaved in any way with the operations of the I/O thread.
\<close>


section \<open>Jobs and workers\<close>

record JobKey =
  jk_slot :: nat
  jk_generation :: nat

datatype Job = EncryptJob JobKey bytes | DecryptJob JobKey bytes RecvMeta

datatype Done = Encrypted JobKey "bytes option" | Decrypted JobKey "bytes list" RecvMeta

fun process :: "prims \<Rightarrow> Crypto \<Rightarrow> bool \<Rightarrow> Env \<Rightarrow> Job \<Rightarrow> (Done \<times> Env) eval" where
  "process p c fix_gro e (EncryptJob key plain) =
     rbind (encrypt_safer_vec p c e plain fix_gro) (\<lambda>(w, e'). Ret (Encrypted key w, e'))"
| "process p c fix_gro e (DecryptJob key wire meta) =
     rbind (decrypt_safer_vec p c wire fix_gro) (\<lambda>plains. Ret (Decrypted key plains meta, e))"

fun process_batch :: "prims \<Rightarrow> Crypto \<Rightarrow> bool \<Rightarrow> Env \<Rightarrow> Job list \<Rightarrow> (Done list \<times> Env) eval" where
  "process_batch p c fix_gro e [] = Ret ([], e)"
| "process_batch p c fix_gro e (j # js) =
     rbind (process p c fix_gro e j) (\<lambda>(d, e1).
     rbind (process_batch p c fix_gro e1 js) (\<lambda>(ds, e2). Ret (d # ds, e2)))"

record Worker =
  w_jobs :: "Job list list"
  w_hand :: "Done list option"
  w_dones :: "Done list list"
  w_env :: Env
  w_alive :: bool

record Pipeline =
  workers :: "Worker list"
  next_dispatch :: nat
  next_collect :: nat
  in_flight_batches :: nat
  batch :: "Job list"
  inline_done :: "Done list"
  pl_crypto :: Crypto
  pl_fix_gro :: bool
  dropped :: nat

definition BATCH_JOBS :: nat where "BATCH_JOBS = 16"
definition QUEUE_DEPTH :: nat where "QUEUE_DEPTH = 64"

text \<open>The worker environments are those of the spawned threads; \<open>eventfd\<close> and thread creation
  are taken to succeed.\<close>

definition Pipeline_new :: "Env list \<Rightarrow> Crypto \<Rightarrow> bool \<Rightarrow> Pipeline" where
  "Pipeline_new envs c fix_gro =
     \<lparr> workers = map (\<lambda>e. \<lparr> w_jobs = [], w_hand = None, w_dones = [], w_env = e, w_alive = True \<rparr>) envs,
       next_dispatch = 0, next_collect = 0, in_flight_batches = 0, batch = [], inline_done = [],
       pl_crypto = c, pl_fix_gro = fix_gro, dropped = 0 \<rparr>"

definition in_flight :: "Pipeline \<Rightarrow> nat" where
  "in_flight pl = in_flight_batches pl + (if batch pl \<noteq> [] then 1 else 0)"


section \<open>Operations of the I/O thread\<close>

definition flush :: "Pipeline \<Rightarrow> (Pipeline \<times> bool) eval" where
  "flush pl =
     (if batch pl = [] \<or> workers pl = [] then Ret (pl, True)
      else rbind (idx (workers pl) (next_dispatch pl)) (\<lambda>w.
        let pl1 = pl\<lparr> batch := [] \<rparr> in
        if \<not> w_alive w then Ret (pl1, False)
        else if length (w_jobs w) \<ge> QUEUE_DEPTH then
          Ret (pl1\<lparr> dropped := dropped pl + length (batch pl) \<rparr>, False)
        else Ret (pl1\<lparr>
          workers := (workers pl)[next_dispatch pl := w\<lparr> w_jobs := w_jobs w @ [batch pl] \<rparr>],
          next_dispatch := (next_dispatch pl + 1) mod length (workers pl),
          in_flight_batches := in_flight_batches pl + 1 \<rparr>, True)))"

definition submit :: "prims \<Rightarrow> Pipeline \<Rightarrow> Env \<Rightarrow> Job \<Rightarrow> (Pipeline \<times> Env \<times> bool) eval" where
  "submit p pl e job =
     (if workers pl = [] then
        rbind (process p (pl_crypto pl) (pl_fix_gro pl) e job) (\<lambda>(d, e').
          Ret (pl\<lparr> inline_done := inline_done pl @ [d] \<rparr>, e', True))
      else let pl1 = pl\<lparr> batch := batch pl @ [job] \<rparr> in
        if length (batch pl1) \<ge> BATCH_JOBS then rbind (flush pl1) (\<lambda>(pl2, ok). Ret (pl2, e, ok))
        else Ret (pl1, e, True))"

text \<open>One \<open>try_recv\<close> on the next worker of the loop of \<open>collect\<close>; an empty or disconnected
  channel ends the loop.\<close>

definition recv_next :: "Pipeline \<Rightarrow> (Pipeline \<times> Done list option) eval" where
  "recv_next pl =
     (if in_flight_batches pl = 0 then Ret (pl, None)
      else rbind (idx (workers pl) (next_collect pl)) (\<lambda>w.
        case w_dones w of
          [] \<Rightarrow> Ret (pl, None)
        | dones # rest \<Rightarrow> Ret (pl\<lparr>
            workers := (workers pl)[next_collect pl := w\<lparr> w_dones := rest \<rparr>],
            next_collect := (next_collect pl + 1) mod length (workers pl),
            in_flight_batches := in_flight_batches pl - 1 \<rparr>, Some dones)))"

lemma rbind_cong [fundef_cong]:
  "x = y \<Longrightarrow> (\<And>a. y = Ret a \<Longrightarrow> f a = g a) \<Longrightarrow> rbind x f = rbind y g"
  by (cases x) auto

lemma recv_next_Some:
  assumes "recv_next pl = Ret (pl', Some ds)"
  obtains rest where "in_flight_batches pl \<noteq> 0" "next_collect pl < length (workers pl)"
    "w_dones (workers pl ! next_collect pl) = ds # rest"
    "pl' = pl\<lparr> workers := (workers pl)[next_collect pl := (workers pl ! next_collect pl)\<lparr> w_dones := rest \<rparr>],
       next_collect := (next_collect pl + 1) mod length (workers pl),
       in_flight_batches := in_flight_batches pl - 1 \<rparr>"
  using assms that by (cases "w_dones (workers pl ! next_collect pl)")
    (auto simp: recv_next_def idx_def split: if_splits)

lemma recv_next_less:
  "recv_next pl = Ret (pl', Some ds) \<Longrightarrow> in_flight_batches pl' < in_flight_batches pl"
  by (erule recv_next_Some) simp

text \<open>The next action of worker \<open>i\<close>, if it is not blocked: \<open>done_tx.send\<close> of the completions it
  holds, which waits for room in the channel, or else \<open>job_rx.recv()\<close> and the processing of the
  batch. A panic while processing closes both channels: results already sent remain
  receivable, queued jobs are gone.\<close>

definition worker_act :: "prims \<Rightarrow> nat \<Rightarrow> Pipeline \<Rightarrow> Pipeline" where
  "worker_act p i pl =
     (if length (workers pl) \<le> i then pl
      else let w = workers pl ! i; put = (\<lambda>w'. pl\<lparr> workers := (workers pl)[i := w'] \<rparr>) in
        if \<not> w_alive w then pl
        else case w_hand w of
          Some ds \<Rightarrow>
            if length (w_dones w) < QUEUE_DEPTH then put (w\<lparr> w_hand := None, w_dones := w_dones w @ [ds] \<rparr>) else pl
        | None \<Rightarrow> (case w_jobs w of
            [] \<Rightarrow> pl
          | b # bs \<Rightarrow> (case process_batch p (pl_crypto pl) (pl_fix_gro pl) (w_env w) b of
              Ret (ds, e') \<Rightarrow> put (w\<lparr> w_jobs := bs, w_hand := Some ds, w_env := e' \<rparr>)
            | Panic \<Rightarrow> put (w\<lparr> w_jobs := [], w_alive := False \<rparr>))))"

text \<open>The workers run beside the I/O thread. A schedule lists, for each point at which the I/O
  thread touches a channel, the workers that act before it.\<close>

definition work :: "prims \<Rightarrow> nat list \<Rightarrow> Pipeline \<Rightarrow> Pipeline" where
  "work p is pl = fold (worker_act p) is pl"

definition turn :: "nat list list \<Rightarrow> nat list" where
  "turn us = (case us of [] \<Rightarrow> [] | u # _ \<Rightarrow> u)"

lemma worker_act_in_flight: "in_flight_batches (worker_act p i pl) = in_flight_batches pl"
  by (auto simp: worker_act_def Let_def split: option.split list.split eval.split)

lemma work_in_flight: "in_flight_batches (work p is pl) = in_flight_batches pl"
  by (induction "is" arbitrary: pl) (simp_all add: work_def worker_act_in_flight)

function collect_loop :: "prims \<Rightarrow> nat list list \<Rightarrow> Pipeline \<Rightarrow> (Pipeline \<times> Done list) eval" where
  "collect_loop p us pl =
     rbind (recv_next (work p (turn us) pl)) (\<lambda>(pl1, r).
       case r of
         None \<Rightarrow> Ret (pl1, [])
       | Some dones \<Rightarrow> rbind (collect_loop p (tl us) pl1) (\<lambda>(pl2, out). Ret (pl2, dones @ out)))"
  by pat_completeness auto
termination
  by (relation "measure (\<lambda>(p, us, pl). in_flight_batches pl)") (auto dest!: recv_next_less simp: work_in_flight)

declare collect_loop.simps [simp del]

text \<open>The completed jobs in the order in which the closure receives them.\<close>

definition collect :: "prims \<Rightarrow> nat list list \<Rightarrow> Pipeline \<Rightarrow> (Pipeline \<times> Done list) eval" where
  "collect p us pl =
     (if workers pl = [] then Ret (pl\<lparr> inline_done := [] \<rparr>, inline_done pl)
      else rbind (flush (work p (turn us) pl)) (\<lambda>(pl1, _). collect_loop p (tl us) pl1))"


section \<open>Worker threads\<close>

text \<open>The same actions as a relation: \<open>take\<close> is \<open>job_rx.recv()\<close> and the processing of the
  batch, \<open>put\<close> the (blocking) \<open>done_tx.send\<close>, \<open>crash\<close> a panic while processing.\<close>

inductive worker_step :: "prims \<Rightarrow> Pipeline \<Rightarrow> Pipeline \<Rightarrow> bool" for p where
  take: "i < length (workers pl) \<Longrightarrow> w = workers pl ! i \<Longrightarrow> w_alive w \<Longrightarrow> w_hand w = None \<Longrightarrow>
    w_jobs w = b # bs \<Longrightarrow> process_batch p (pl_crypto pl) (pl_fix_gro pl) (w_env w) b = Ret (ds, e') \<Longrightarrow>
    worker_step p pl (pl\<lparr> workers := (workers pl)[i := w\<lparr> w_jobs := bs, w_hand := Some ds, w_env := e' \<rparr>] \<rparr>)"
| put: "i < length (workers pl) \<Longrightarrow> w = workers pl ! i \<Longrightarrow> w_alive w \<Longrightarrow> w_hand w = Some ds \<Longrightarrow>
    length (w_dones w) < QUEUE_DEPTH \<Longrightarrow>
    worker_step p pl (pl\<lparr> workers := (workers pl)[i := w\<lparr> w_hand := None, w_dones := w_dones w @ [ds] \<rparr>] \<rparr>)"
| crash: "i < length (workers pl) \<Longrightarrow> w = workers pl ! i \<Longrightarrow> w_alive w \<Longrightarrow> w_hand w = None \<Longrightarrow>
    w_jobs w = b # bs \<Longrightarrow> process_batch p (pl_crypto pl) (pl_fix_gro pl) (w_env w) b = Panic \<Longrightarrow>
    worker_step p pl (pl\<lparr> workers := (workers pl)[i := w\<lparr> w_jobs := [], w_alive := False \<rparr>] \<rparr>)"

lemma worker_act_step: "worker_act p i pl = pl \<or> worker_step p pl (worker_act p i pl)"
proof (cases "i < length (workers pl) \<and> w_alive (workers pl ! i)")
  case True
  then have i: "i < length (workers pl)" "w_alive (workers pl ! i)"
    by simp_all
  show ?thesis
  proof (cases "w_hand (workers pl ! i)")
    case None
    show ?thesis
    proof (cases "w_jobs (workers pl ! i)")
      case (Cons b bs)
      then show ?thesis
        using i None worker_step.take[OF i(1) refl i(2) None Cons] worker_step.crash[OF i(1) refl i(2) None Cons]
        by (cases "process_batch p (pl_crypto pl) (pl_fix_gro pl) (w_env (workers pl ! i)) b")
           (auto simp: worker_act_def)
    qed (use i None in \<open>simp add: worker_act_def\<close>)
  next
    case (Some ds)
    then show ?thesis
      using i worker_step.put[OF i(1) refl i(2) Some, of p] by (simp add: worker_act_def Let_def)
  qed
qed (auto simp: worker_act_def Let_def)

lemma worker_step_act:
  assumes "worker_step p pl pl'"
  shows "\<exists>i. pl' = worker_act p i pl"
  using assms
proof (cases rule: worker_step.cases)
  case (take i w b bs ds e')
  then show ?thesis
    by (intro exI[of _ i]) (simp add: worker_act_def Let_def)
next
  case (put i w ds)
  then show ?thesis
    by (intro exI[of _ i]) (simp add: worker_act_def Let_def)
next
  case (crash i w b bs)
  then show ?thesis
    by (intro exI[of _ i]) (simp add: worker_act_def Let_def)
qed

text \<open>Executions, with the jobs handed to workers (or processed inline) and the completions
  delivered so far as ghost lists. A batch is handed over exactly when a flush raises the
  number of batches in flight.\<close>

definition handed :: "Pipeline \<Rightarrow> Pipeline \<Rightarrow> Job list \<Rightarrow> Job list" where
  "handed pl pl' b = (if in_flight_batches pl < in_flight_batches pl' then b else [])"

inductive pipe_run :: "prims \<Rightarrow> Pipeline \<Rightarrow> Pipeline \<Rightarrow> Job list \<Rightarrow> Done list \<Rightarrow> bool" for p pl0 where
  start: "pipe_run p pl0 pl0 [] []"
| step: "pipe_run p pl0 pl acc out \<Longrightarrow> worker_step p pl pl' \<Longrightarrow> pipe_run p pl0 pl' acc out"
| submit_inline: "pipe_run p pl0 pl acc out \<Longrightarrow> workers pl = [] \<Longrightarrow> submit p pl e job = Ret (pl', e', ok) \<Longrightarrow>
    pipe_run p pl0 pl' (acc @ [job]) out"
| submit: "pipe_run p pl0 pl acc out \<Longrightarrow> workers pl \<noteq> [] \<Longrightarrow> submit p pl e job = Ret (pl', e', ok) \<Longrightarrow>
    pipe_run p pl0 pl' (acc @ handed pl pl' (batch pl @ [job])) out"
| flush: "pipe_run p pl0 pl acc out \<Longrightarrow> flush pl = Ret (pl', ok) \<Longrightarrow>
    pipe_run p pl0 pl' (acc @ handed pl pl' (batch pl)) out"
| collect_next: "pipe_run p pl0 pl acc out \<Longrightarrow> recv_next pl = Ret (pl', Some ds) \<Longrightarrow>
    pipe_run p pl0 pl' acc (out @ ds)"
| collect_inline: "pipe_run p pl0 pl acc out \<Longrightarrow> workers pl = [] \<Longrightarrow> collect p us pl = Ret (pl', ds) \<Longrightarrow>
    pipe_run p pl0 pl' acc (out @ ds)"


section \<open>Order\<close>

text \<open>What a completion has to do with its job: it is what processing the job returns, for some
  state of the processing thread's generator.\<close>

definition job_done :: "prims \<Rightarrow> Crypto \<Rightarrow> bool \<Rightarrow> Job \<Rightarrow> Done \<Rightarrow> bool" where
  "job_done p c g j d \<longleftrightarrow> (\<exists>e e'. process p c g e j = Ret (d, e'))"

lemma process_batch_done:
  "process_batch p c g e b = Ret (ds, e') \<Longrightarrow> list_all2 (job_done p c g) b ds"
proof (induction b arbitrary: e ds)
  case (Cons j b)
  then obtain d e1 ds' where "process p c g e j = Ret (d, e1)" "process_batch p c g e1 b = Ret (ds', e')"
      "ds = d # ds'"
    by (auto simp: rbind_eq_Ret)
  then show ?case
    using Cons.IH[of e1 ds'] by (auto simp: job_done_def)
qed simp

text \<open>Of the batches \<open>bs\<close> handed over so far, of which \<open>k\<close> were collected, those worker \<open>i\<close> of
  \<open>n\<close> still owes; its channels hold them in order.\<close>

definition share :: "nat \<Rightarrow> nat \<Rightarrow> nat \<Rightarrow> 'a list \<Rightarrow> 'a list" where
  "share n i k bs = map ((!) bs) (filter (\<lambda>j. j mod n = i) [k..<length bs])"

lemma share_snoc:
  assumes "k \<le> length bs"
  shows "share n i k (bs @ [b]) = share n i k bs @ (if length bs mod n = i then [b] else [])"
  using assms by (auto simp: share_def nth_append)

lemma share_Suc:
  assumes "k < length bs"
  shows "share n i k bs = (if k mod n = i then [bs ! k] else []) @ share n i (Suc k) bs"
  using assms by (simp add: share_def upt_conv_Cons)

definition owed :: "Worker \<Rightarrow> Done list list" where
  "owed w = w_dones w @ (case w_hand w of None \<Rightarrow> [] | Some d \<Rightarrow> [d])"

definition worker_ok :: "prims \<Rightarrow> Crypto \<Rightarrow> bool \<Rightarrow> Worker \<Rightarrow> Job list list \<Rightarrow> bool" where
  "worker_ok p c g w bs \<longleftrightarrow> (\<exists>xs ys. bs = xs @ ys \<and> list_all2 (list_all2 (job_done p c g)) xs (owed w) \<and>
     (w_alive w \<longrightarrow> ys = w_jobs w))"

definition pool_inv :: "prims \<Rightarrow> Crypto \<Rightarrow> bool \<Rightarrow> Pipeline \<Rightarrow> Job list list \<Rightarrow> nat \<Rightarrow> bool" where
  "pool_inv p c g pl bs k \<longleftrightarrow> workers pl \<noteq> [] \<and> k \<le> length bs \<and>
     next_dispatch pl = length bs mod length (workers pl) \<and>
     next_collect pl = k mod length (workers pl) \<and> in_flight_batches pl = length bs - k \<and>
     pl_crypto pl = c \<and> pl_fix_gro pl = g \<and>
     (\<forall>i < length (workers pl). worker_ok p c g (workers pl ! i) (share (length (workers pl)) i k bs))"

lemma pool_inv_worker:
  assumes "pool_inv p c g pl bs k" "i < length (workers pl)" "worker_ok p c g w (share (length (workers pl)) i k bs)"
  shows "pool_inv p c g (pl\<lparr> workers := (workers pl)[i := w] \<rparr>) bs k"
  using assms by (auto simp: pool_inv_def nth_list_update)

lemma pool_worker_step:
  assumes "worker_step p pl pl'" "pool_inv p c g pl bs k"
  shows "pool_inv p c g pl' bs k"
  using assms
proof (cases rule: worker_step.cases)
  case (take i w b js ds e')
  then have "worker_ok p c g w (share (length (workers pl)) i k bs)"
    using assms(2) by (simp add: pool_inv_def)
  then obtain xs where xs: "share (length (workers pl)) i k bs = xs @ b # js"
      "list_all2 (list_all2 (job_done p c g)) xs (owed w)"
    using take by (auto simp: worker_ok_def)
  have "list_all2 (job_done p c g) b ds"
    using take assms(2) process_batch_done by (auto simp: pool_inv_def)
  then have "worker_ok p c g (w\<lparr> w_jobs := js, w_hand := Some ds, w_env := e' \<rparr>) (share (length (workers pl)) i k bs)"
    using xs take unfolding worker_ok_def
    by (rule_tac exI[of _ "xs @ [b]"], rule_tac exI[of _ js]) (auto simp: owed_def list_all2_appendI)
  then show ?thesis
    using take pool_inv_worker[OF assms(2)] by simp
next
  case (put i w ds)
  then have "worker_ok p c g (w\<lparr> w_hand := None, w_dones := w_dones w @ [ds] \<rparr>) (share (length (workers pl)) i k bs)"
    using assms(2) by (auto simp: pool_inv_def worker_ok_def owed_def)
  then show ?thesis
    using put pool_inv_worker[OF assms(2)] by simp
next
  case (crash i w b js)
  then have "worker_ok p c g w (share (length (workers pl)) i k bs)"
    using assms(2) by (simp add: pool_inv_def)
  then have "worker_ok p c g (w\<lparr> w_jobs := [], w_alive := False \<rparr>) (share (length (workers pl)) i k bs)"
    unfolding worker_ok_def owed_def by auto
  then show ?thesis
    using crash pool_inv_worker[OF assms(2)] by simp
qed

text \<open>A flush either hands the pending batch to the next worker or discards it.\<close>

lemma flush_cases:
  assumes "pool_inv p c g pl bs k"
  obtains pl' ok where "flush pl = Ret (pl', ok)" "batch pl' = []" "in_flight_batches pl' = in_flight_batches pl"
      "pool_inv p c g pl' bs k"
  | pl' where "flush pl = Ret (pl', True)" "batch pl' = []" "in_flight_batches pl' = Suc (in_flight_batches pl)"
      "pool_inv p c g pl' (bs @ [batch pl]) k"
proof (cases "batch pl = []")
  case True
  then show thesis
    using that(1)[of pl True] assms by (simp add: flush_def)
next
  case False
  let ?n = "length (workers pl)" and ?i = "next_dispatch pl"
  let ?w = "workers pl ! ?i"
  have i: "workers pl \<noteq> []" "?i < ?n" "k \<le> length bs" "?i = length bs mod ?n" "in_flight_batches pl = length bs - k"
    using assms by (auto simp: pool_inv_def)
  consider "\<not> w_alive ?w" | "w_alive ?w" "length (w_jobs ?w) \<ge> QUEUE_DEPTH"
    | "w_alive ?w" "length (w_jobs ?w) < QUEUE_DEPTH"
    by fastforce
  then show thesis
  proof cases
    case 3
    let ?w' = "?w\<lparr> w_jobs := w_jobs ?w @ [batch pl] \<rparr>"
    have "worker_ok p c g ?w (share ?n ?i k bs)"
      using assms i by (simp add: pool_inv_def)
    then have "worker_ok p c g ?w' (share ?n ?i k (bs @ [batch pl]))"
      using 3 i by (auto simp: worker_ok_def share_snoc owed_def)
    moreover have "share ?n j k (bs @ [batch pl]) = share ?n j k bs" if "j \<noteq> ?i" for j
      using that i by (auto simp: share_snoc)
    ultimately have "\<forall>j < ?n. worker_ok p c g ((workers pl)[?i := ?w'] ! j) (share ?n j k (bs @ [batch pl]))"
      using assms i by (auto simp: pool_inv_def nth_list_update)
    then show thesis
      using 3 i False assms that(2) by (auto simp: flush_def idx_def pool_inv_def mod_Suc_eq Suc_diff_le)
  qed (use i False assms that(1) in \<open>auto simp: flush_def idx_def pool_inv_def\<close>)
qed

lemma recv_next_inv:
  assumes "pool_inv p c g pl bs k" "recv_next pl = Ret (pl', Some ds)"
  shows "k < length bs" "list_all2 (job_done p c g) (bs ! k) ds" "pool_inv p c g pl' bs (Suc k)"
proof -
  let ?n = "length (workers pl)" and ?i = "next_collect pl"
  let ?w = "workers pl ! ?i"
  have i: "workers pl \<noteq> []" "?i < ?n" "?i = k mod ?n" "in_flight_batches pl = length bs - k" "k \<le> length bs"
    using assms by (auto simp: pool_inv_def)
  obtain rest where r: "w_dones ?w = ds # rest" "in_flight_batches pl \<noteq> 0"
      "pl' = pl\<lparr> workers := (workers pl)[?i := ?w\<lparr> w_dones := rest \<rparr>],
            next_collect := (?i + 1) mod ?n, in_flight_batches := in_flight_batches pl - 1 \<rparr>"
    using recv_next_Some[OF assms(2)] by metis
  then show k: "k < length bs"
    using i by simp
  have "worker_ok p c g ?w (share ?n ?i k bs)"
    using assms i by (simp add: pool_inv_def)
  then have w: "list_all2 (job_done p c g) (bs ! k) ds" "worker_ok p c g (?w\<lparr> w_dones := rest \<rparr>) (share ?n ?i (Suc k) bs)"
    using i r(1) by (auto simp: share_Suc[OF k] worker_ok_def owed_def Cons_eq_append_conv list_all2_Cons2)
  then show "list_all2 (job_done p c g) (bs ! k) ds"
    by simp
  have "share ?n j (Suc k) bs = share ?n j k bs" if "j \<noteq> ?i" for j
    using that i by (simp add: share_Suc[OF k])
  then have "\<forall>j < ?n. worker_ok p c g ((workers pl)[?i := ?w\<lparr> w_dones := rest \<rparr>] ! j) (share ?n j (Suc k) bs)"
    using assms(1) w(2) by (auto simp: pool_inv_def nth_list_update)
  then show "pool_inv p c g pl' bs (Suc k)"
    using assms(1) i k r by (auto simp: pool_inv_def mod_Suc_eq)
qed

text \<open>The whole run: without workers every accepted job is done or waits in the inline queue;
  with workers the delivered completions are those of the first \<open>k\<close> batches.\<close>

definition run_inv :: "prims \<Rightarrow> Crypto \<Rightarrow> bool \<Rightarrow> nat \<Rightarrow> Pipeline \<Rightarrow> Job list \<Rightarrow> Done list \<Rightarrow> bool" where
  "run_inv p c g n pl acc out \<longleftrightarrow> length (workers pl) = n \<and>
     (if n = 0 then pl_crypto pl = c \<and> pl_fix_gro pl = g \<and> in_flight_batches pl = 0 \<and>
          list_all2 (job_done p c g) acc (out @ inline_done pl)
      else \<exists>bs k. pool_inv p c g pl bs k \<and> acc = concat bs \<and>
          list_all2 (job_done p c g) (concat (take k bs)) out)"

lemma run_inv_pool:
  assumes "run_inv p c g n pl acc out" "workers pl \<noteq> []"
  obtains bs k where "pool_inv p c g pl bs k" "acc = concat bs"
    "list_all2 (job_done p c g) (concat (take k bs)) out" "n \<noteq> 0" "length (workers pl) = n"
  using assms by (auto simp: run_inv_def split: if_splits)

lemma length_workers_worker_step: "worker_step p pl pl' \<Longrightarrow> length (workers pl') = length (workers pl)"
  by (cases rule: worker_step.cases) auto

lemma length_workers_flush:
  assumes "flush pl = Ret (pl', ok)"
  shows "length (workers pl') = length (workers pl)"
proof (cases "idx (workers pl) (next_dispatch pl)")
  case (Ret w)
  then show ?thesis
    using assms by (cases "batch pl = [] \<or> workers pl = []"; cases "w_alive w"; cases "QUEUE_DEPTH \<le> length (w_jobs w)")
      (auto simp: flush_def Let_def)
qed (use assms in \<open>auto simp: flush_def split: if_splits\<close>)

lemma length_workers_recv: "recv_next pl = Ret (pl', r) \<Longrightarrow> length (workers pl') = length (workers pl)"
  by (auto simp: recv_next_def rbind_eq_Ret neq_Nil_conv split: if_splits list.splits)

lemma pool_inv_batch [simp]: "pool_inv p c g (pl\<lparr> batch := b \<rparr>) bs k = pool_inv p c g pl bs k"
  by (simp add: pool_inv_def)

lemma run_inv_flush:
  assumes "run_inv p c g n pl acc out" "flush pl = Ret (pl', ok)"
  shows "run_inv p c g n pl' (acc @ handed pl pl' (batch pl)) out"
proof (cases "workers pl = []")
  case True
  then show ?thesis
    using assms by (simp add: flush_def handed_def)
next
  case False
  obtain bs k where I: "pool_inv p c g pl bs k" "acc = concat bs"
      "list_all2 (job_done p c g) (concat (take k bs)) out" "n \<noteq> 0" "length (workers pl) = n"
    using run_inv_pool[OF assms(1) False] by blast
  note n = length_workers_flush[OF assms(2)]
  show ?thesis
  proof (rule flush_cases[OF I(1)])
    fix pl1 ok1
    assume "flush pl = Ret (pl1, ok1)" "in_flight_batches pl1 = in_flight_batches pl" "pool_inv p c g pl1 bs k"
    then show ?thesis
      using assms(2) I n by (auto simp: run_inv_def handed_def)
  next
    fix pl1
    assume h: "flush pl = Ret (pl1, True)" "in_flight_batches pl1 = Suc (in_flight_batches pl)"
      "pool_inv p c g pl1 (bs @ [batch pl]) k"
    have "k \<le> length bs"
      using I(1) by (simp add: pool_inv_def)
    then have "list_all2 (job_done p c g) (concat (take k (bs @ [batch pl]))) out"
      using I(3) by simp
    with h show ?thesis
      using assms(2) I n by (auto simp: run_inv_def handed_def intro!: exI[of _ "bs @ [batch pl]"] exI[of _ k])
  qed
qed

lemma pipe_run_inv:
  assumes "pipe_run p (Pipeline_new envs c g) pl acc out"
  shows "run_inv p c g (length envs) pl acc out"
  using assms
proof (induction rule: pipe_run.induct)
  case start
  have "worker_ok p c g (workers (Pipeline_new envs c g) ! i) []" if "i < length envs" for i
    using that by (auto simp: worker_ok_def owed_def Pipeline_new_def)
  then have "envs \<noteq> [] \<Longrightarrow> pool_inv p c g (Pipeline_new envs c g) [] 0"
    by (auto simp: pool_inv_def share_def Pipeline_new_def)
  then show ?case
    by (auto simp: run_inv_def Pipeline_new_def intro!: exI[of _ "[]"])
next
  case (step pl acc out pl')
  then have "workers pl \<noteq> []"
    by (auto elim: worker_step.cases)
  from run_inv_pool[OF step(3) this] obtain bs k where "pool_inv p c g pl bs k" "acc = concat bs"
      "list_all2 (job_done p c g) (concat (take k bs)) out" "length envs \<noteq> 0" "length (workers pl) = length envs"
    by blast
  then show ?case
    using pool_worker_step[OF step(2)] length_workers_worker_step[OF step(2)]
    unfolding run_inv_def by (metis (no_types))
next
  case (submit_inline pl acc out e job pl' e' ok)
  then obtain d where d: "process p (pl_crypto pl) (pl_fix_gro pl) e job = Ret (d, e')"
      "pl' = pl\<lparr> inline_done := inline_done pl @ [d] \<rparr>"
    by (auto simp: submit_def rbind_eq_Ret)
  have I: "envs = []" "pl_crypto pl = c" "pl_fix_gro pl = g" "in_flight_batches pl = 0"
      "list_all2 (job_done p c g) acc (out @ inline_done pl)"
    using submit_inline(2,4) by (auto simp: run_inv_def)
  have "job_done p c g job d"
    using d(1) I(2,3) unfolding job_done_def by blast
  then have "list_all2 (job_done p c g) (acc @ [job]) ((out @ inline_done pl) @ [d])"
    using I(5) by (intro list_all2_appendI) simp_all
  then show ?case
    using I d(2) submit_inline(2) by (simp add: run_inv_def)
next
  case (submit pl acc out e job pl' e' ok)
  let ?pl = "pl\<lparr> batch := batch pl @ [job] \<rparr>"
  have I: "run_inv p c g (length envs) ?pl acc out"
    using submit(4,2) by (simp add: run_inv_def)
  show ?case
  proof (cases "length (batch ?pl) \<ge> BATCH_JOBS")
    case True
    then have "flush ?pl = Ret (pl', ok)"
      using submit(2,3) by (auto simp: submit_def rbind_eq_Ret)
    from run_inv_flush[OF I this] show ?thesis
      by (simp add: handed_def)
  next
    case False
    then have "pl' = ?pl"
      using submit(2,3) by (simp add: submit_def)
    then show ?thesis
      using I by (simp add: handed_def)
  qed
next
  case (flush pl acc out pl' ok)
  then show ?case
    using run_inv_flush by blast
next
  case (collect_next pl acc out pl' ds)
  have ne: "workers pl \<noteq> []"
    using collect_next(2) by (auto simp: recv_next_def idx_def split: if_splits)
  from run_inv_pool[OF collect_next(3) ne] obtain bs k where I: "pool_inv p c g pl bs k" "acc = concat bs"
      "list_all2 (job_done p c g) (concat (take k bs)) out" "length envs \<noteq> 0" "length (workers pl) = length envs"
    by blast
  note r = recv_next_inv[OF I(1) collect_next(2)]
  then have "list_all2 (job_done p c g) (concat (take (Suc k) bs)) (out @ ds)"
    using I(3) by (simp add: take_Suc_conv_app_nth list_all2_appendI)
  then show ?case
    using I r(3) length_workers_recv[OF collect_next(2)] by (auto simp: run_inv_def)
next
  case (collect_inline pl acc out pl' ds)
  then show ?case
    by (auto simp: run_inv_def collect_def split: if_splits)
qed

text \<open>What \<open>collect\<close> itself does in terms of single receives, and that it cannot panic.\<close>

lemma pipe_run_work:
  "pipe_run p pl0 pl acc out \<Longrightarrow> pipe_run p pl0 (work p is pl) acc out"
proof (induction "is" arbitrary: pl)
  case (Cons i us)
  then have "pipe_run p pl0 (worker_act p i pl) acc out"
    using worker_act_step[of p i pl] pipe_run.step by metis
  then show ?case
    using Cons.IH by (simp add: work_def)
qed (simp add: work_def)

lemma collect_loop_step:
  assumes "recv_next (work p (turn us) pl) = Ret (pl1, r)"
  shows "collect_loop p us pl = (case r of None \<Rightarrow> Ret (pl1, [])
     | Some d \<Rightarrow> rbind (collect_loop p (tl us) pl1) (\<lambda>(pl2, out). Ret (pl2, d @ out)))"
  by (subst collect_loop.simps) (simp add: assms)

lemma recv_next_None: "recv_next pl = Ret (pl1, None) \<Longrightarrow> pl1 = pl"
  by (auto simp: recv_next_def rbind_eq_Ret neq_Nil_conv split: if_splits list.splits)

lemma collect_loop_run:
  assumes "pipe_run p pl0 pl acc out" "collect_loop p us pl = Ret (pl', ds)"
  shows "pipe_run p pl0 pl' acc (out @ ds) \<and> recv_next pl' = Ret (pl', None)"
  using assms
proof (induction p us pl arbitrary: out ds rule: collect_loop.induct)
  case (1 p us pl)
  obtain pl1 r where r: "recv_next (work p (turn us) pl) = Ret (pl1, r)"
    using 1(3) by (subst (asm) collect_loop.simps) (auto simp: rbind_eq_Ret)
  note eq = 1(3)[unfolded collect_loop_step[OF r]] and run = pipe_run_work[OF 1(2), of "turn us"]
  show ?case
  proof (cases r)
    case None
    then show ?thesis
      using run r eq recv_next_None by auto
  next
    case (Some d)
    then obtain out' where "collect_loop p (tl us) pl1 = Ret (pl', out')" "ds = d @ out'"
      using eq by (auto simp: rbind_eq_Ret)
    then show ?thesis
      using 1(1)[OF r refl Some, of "out @ d" out'] pipe_run.collect_next[OF run r[unfolded Some]] by simp
  qed
qed

text \<open>Workers with nothing to do stay so.\<close>

lemma worker_act_idle:
  "list_all (\<lambda>w. w_alive w \<and> w_jobs w = [] \<and> w_hand w = None) (workers pl) \<Longrightarrow> worker_act p i pl = pl"
  by (auto simp: worker_act_def list_all_length Let_def)

lemma work_idle:
  "list_all (\<lambda>w. w_alive w \<and> w_jobs w = [] \<and> w_hand w = None) (workers pl) \<Longrightarrow> work p is pl = pl"
  by (induction "is") (simp_all add: work_def worker_act_idle)

lemma collect_loop_idle:
  assumes "collect_loop p us pl = Ret (pl', ds)"
    "list_all (\<lambda>w. w_alive w \<and> w_jobs w = [] \<and> w_hand w = None) (workers pl)" "workers pl \<noteq> []"
  shows "list_all (\<lambda>w. w_alive w \<and> w_jobs w = [] \<and> w_hand w = None) (workers pl') \<and> workers pl' \<noteq> []"
  using assms
proof (induction p us pl arbitrary: ds rule: collect_loop.induct)
  case (1 p us pl)
  obtain pl1 r where r: "recv_next (work p (turn us) pl) = Ret (pl1, r)"
    using 1(2) by (subst (asm) collect_loop.simps) (auto simp: rbind_eq_Ret)
  note eq = 1(2)[unfolded collect_loop_step[OF r]] and idle = work_idle[OF 1(3), of p "turn us"]
  show ?case
  proof (cases r)
    case None
    then show ?thesis
      using 1(3,4) r eq idle recv_next_None by auto
  next
    case (Some d)
    then obtain out' where "collect_loop p (tl us) pl1 = Ret (pl', out')"
      using eq by (auto simp: rbind_eq_Ret)
    moreover have "list_all (\<lambda>w. w_alive w \<and> w_jobs w = [] \<and> w_hand w = None) (workers pl1) \<and> workers pl1 \<noteq> []"
      by (rule recv_next_Some[OF r[unfolded Some idle]])
         (use 1(3,4) in \<open>auto simp: list_all_length nth_list_update\<close>)
    ultimately show ?thesis
      using 1(1)[OF r refl Some] by blast
  qed
qed

lemma idle_all_collected:
  assumes "pool_inv p c g pl bs k" "list_all (\<lambda>w. w_alive w \<and> w_jobs w = [] \<and> w_hand w = None) (workers pl)"
    and "recv_next pl = Ret (pl, None)"
  shows "k = length bs"
proof (rule ccontr)
  assume "k \<noteq> length bs"
  then have k: "k < length bs"
    using assms(1) by (auto simp: pool_inv_def)
  let ?i = "next_collect pl" and ?n = "length (workers pl)"
  have i: "?i < ?n" "?i = k mod ?n" "in_flight_batches pl \<noteq> 0"
    using assms(1) k by (auto simp: pool_inv_def)
  have "worker_ok p c g (workers pl ! ?i) (share ?n ?i k bs)"
    using assms(1) i by (simp add: pool_inv_def)
  moreover have "w_alive (workers pl ! ?i)" "w_jobs (workers pl ! ?i) = []" "w_hand (workers pl ! ?i) = None"
    using assms(2) i(1) by (auto simp: list_all_length)
  ultimately have "w_dones (workers pl ! ?i) \<noteq> []"
    using i(2) by (auto simp: worker_ok_def owed_def share_Suc[OF k])
  then show False
    using assms(3) i by (auto simp: recv_next_def idx_def neq_Nil_conv)
qed

lemma pool_inv_work: "pool_inv p c g pl bs k \<Longrightarrow> pool_inv p c g (work p is pl) bs k"
proof (induction "is" arbitrary: pl)
  case (Cons i us)
  then have "pool_inv p c g (worker_act p i pl) bs k"
    using worker_act_step[of p i pl] pool_worker_step by metis
  then show ?case
    using Cons.IH by (simp add: work_def)
qed (simp add: work_def)

lemma collect_loop_total:
  assumes "pool_inv p c g pl bs k"
  shows "\<exists>r. collect_loop p us pl = Ret r"
  using assms
proof (induction "in_flight_batches pl" arbitrary: us pl k rule: less_induct)
  case less
  let ?pl = "work p (turn us) pl"
  note I = pool_inv_work[OF less.prems, of "turn us"]
  have "next_collect ?pl < length (workers ?pl)"
    using I by (auto simp: pool_inv_def)
  then have "\<exists>q. recv_next ?pl = Ret q"
    by (cases "w_dones (workers ?pl ! next_collect ?pl)") (simp_all add: recv_next_def idx_def)
  then obtain pl1 r where r: "recv_next ?pl = Ret (pl1, r)"
    by auto
  show ?case
  proof (cases r)
    case (Some d)
    then have "in_flight_batches pl1 < in_flight_batches pl"
      using recv_next_less[of ?pl pl1 d] r by (simp add: work_in_flight)
    then obtain q where "collect_loop p (tl us) pl1 = Ret q"
      using less.hyps recv_next_inv(3)[OF I] r Some by blast
    then show ?thesis
      using Some by (cases q) (simp add: collect_loop_step[OF r])
  qed (simp add: collect_loop_step[OF r])
qed

lemma run_inv_total:
  assumes "run_inv p c g n pl acc out"
  shows "\<exists>r. flush pl = Ret r" "\<exists>r. collect p us pl = Ret r"
proof -
  have "(\<exists>r. flush pl = Ret r) \<and> (\<exists>r. collect p us pl = Ret r)"
  proof (cases "workers pl = []")
    case False
    obtain bs k where I: "pool_inv p c g pl bs k"
      using run_inv_pool[OF assms False] by blast
    obtain pl1 ok bs1 where f: "flush (work p (turn us) pl) = Ret (pl1, ok)" "pool_inv p c g pl1 bs1 k"
      using flush_cases[OF pool_inv_work[OF I, of "turn us"]] by metis
    obtain q where "collect_loop p (tl us) pl1 = Ret q"
      using collect_loop_total[OF f(2)] by blast
    moreover have "\<exists>r. flush pl = Ret r"
      using flush_cases[OF I] by metis
    ultimately show ?thesis
      using False f by (simp add: collect_def)
  qed (auto simp: flush_def collect_def)
  then show "\<exists>r. flush pl = Ret r" "\<exists>r. collect p us pl = Ret r"
    by simp_all
qed


section \<open>Properties\<close>

definition demo_job :: Job where
  "demo_job = DecryptJob \<lparr> jk_slot = 0, jk_generation = 1 \<rparr> [1, 2] (RecvMeta_from_recv (recv_info demo_raw))"

definition demo_done :: Done where
  "demo_done = Decrypted \<lparr> jk_slot = 0, jk_generation = 1 \<rparr>
     (case decrypt_vec demo_prims demo_hmac [1, 2] of Some plain \<Rightarrow> [plain] | None \<Rightarrow> [])
     (RecvMeta_from_recv (recv_info demo_raw))"

text \<open>One worker, which was given one job and has put the result back.\<close>

definition demo_pipe :: Pipeline where
  "demo_pipe = (Pipeline_new [demo_env] demo_hmac False)\<lparr>
     workers := [\<lparr> w_jobs = [], w_hand = None, w_dones = [[demo_done]], w_env = demo_env, w_alive = True \<rparr>],
     in_flight_batches := 1 \<rparr>"

lemma demo_pipe_run:
  "pipe_run demo_prims (Pipeline_new [demo_env] demo_hmac False) demo_pipe [demo_job] []"
proof -
  let ?p0 = "Pipeline_new [demo_env] demo_hmac False"
  let ?w = "\<lambda>j h d. \<lparr> w_jobs = j, w_hand = h, w_dones = d, w_env = demo_env, w_alive = True \<rparr>"
  let ?p1 = "?p0\<lparr> batch := [demo_job] \<rparr>"
  let ?p2 = "?p0\<lparr> workers := [?w [[demo_job]] None []], in_flight_batches := 1 \<rparr>"
  let ?p3 = "?p0\<lparr> workers := [?w [] (Some [demo_done]) []], in_flight_batches := 1 \<rparr>"
  have "pipe_run demo_prims ?p0 ?p1 ([] @ handed ?p0 ?p1 (batch ?p0 @ [demo_job])) []"
    by (rule pipe_run.submit[where e = demo_env and e' = demo_env and ok = True, OF pipe_run.start])
       (simp_all add: submit_def Pipeline_new_def BATCH_JOBS_def)
  then have 1: "pipe_run demo_prims ?p0 ?p1 [] []"
    by (simp add: handed_def)
  have "flush ?p1 = Ret (?p2, True)"
    by (simp add: flush_def Pipeline_new_def QUEUE_DEPTH_def idx_def)
  from pipe_run.flush[OF 1 this] have 2: "pipe_run demo_prims ?p0 ?p2 [demo_job] []"
    by (simp add: handed_def Pipeline_new_def)
  have "worker_step demo_prims ?p2 (?p2\<lparr> workers := (workers ?p2)[0 :=
      (workers ?p2 ! 0)\<lparr> w_jobs := [], w_hand := Some [demo_done], w_env := demo_env \<rparr>] \<rparr>)"
    by (rule worker_step.take[where b = "[demo_job]"])
       (simp_all add: Pipeline_new_def demo_job_def demo_done_def decrypt_safer_vec_def)
  from pipe_run.step[OF 2 this] have 3: "pipe_run demo_prims ?p0 ?p3 [demo_job] []"
    by (simp add: Pipeline_new_def)
  have "worker_step demo_prims ?p3 (?p3\<lparr> workers := (workers ?p3)[0 :=
      (workers ?p3 ! 0)\<lparr> w_hand := None, w_dones := w_dones (workers ?p3 ! 0) @ [[demo_done]] \<rparr>] \<rparr>)"
    by (rule worker_step.put) (simp_all add: QUEUE_DEPTH_def)
  from pipe_run.step[OF 3 this] show ?thesis
    by (simp add: demo_pipe_def Pipeline_new_def)
qed

lemma demo_pipe_recv:
  "recv_next demo_pipe = Ret (demo_pipe\<lparr> workers := [(hd (workers demo_pipe))\<lparr> w_dones := [] \<rparr>],
     in_flight_batches := 0 \<rparr>, Some [demo_done])"
  by (simp add: recv_next_def demo_pipe_def idx_def Pipeline_new_def)

lemma demo_pipe_collect:
  "collect demo_prims us demo_pipe = Ret (demo_pipe\<lparr> workers := [(hd (workers demo_pipe))\<lparr> w_dones := [] \<rparr>],
     in_flight_batches := 0 \<rparr>, [demo_done])"
proof -
  let ?pl = "demo_pipe\<lparr> workers := [(hd (workers demo_pipe))\<lparr> w_dones := [] \<rparr>], in_flight_batches := 0 \<rparr>"
  have w: "work demo_prims is demo_pipe = demo_pipe" "work demo_prims is ?pl = ?pl" for "is"
    by (rule work_idle, simp add: demo_pipe_def Pipeline_new_def)+
  have "recv_next ?pl = Ret (?pl, None)"
    by (simp add: recv_next_def)
  then have "collect_loop demo_prims vs ?pl = Ret (?pl, [])" for vs
    using collect_loop_step[of demo_prims vs ?pl ?pl None] by (simp only: w option.case)
  then have "collect_loop demo_prims vs demo_pipe = Ret (?pl, [demo_done])" for vs
    using collect_loop_step[of demo_prims vs demo_pipe ?pl "Some [demo_done]"] demo_pipe_recv by (simp only: w) simp
  then show ?thesis
    by (simp add: collect_def w(1)) (simp add: flush_def demo_pipe_def Pipeline_new_def)
qed

text \<open>C39: Completions come in submission order. Whatever the interleaving of the workers, the
  completions delivered so far are, in order, those of the first of the jobs handed to the
  workers (or processed inline): nothing is reordered, duplicated or skipped, and neither
  \<open>flush\<close> nor \<open>collect\<close>, with the workers acting in between in any order, can panic.\<close>

theorem completions_in_submission_order:
  assumes "pipe_run p (Pipeline_new envs c g) pl acc out"
  shows "list_all2 (job_done p c g) (take (length out) acc) out \<and>
    (\<exists>r. flush pl = Ret r) \<and> (\<forall>us. \<exists>r. collect p us pl = Ret r)"
proof -
  note I = pipe_run_inv[OF assms]
  have "\<exists>xs ys. acc = xs @ ys \<and> list_all2 (job_done p c g) xs out"
  proof (cases "workers pl = []")
    case True
    then obtain ds where "list_all2 (job_done p c g) acc (out @ ds)"
      using I by (auto simp: run_inv_def)
    then show ?thesis
      by (auto simp: list_all2_append2)
  next
    case False
    from run_inv_pool[OF I this] obtain bs k where b: "acc = concat bs" "list_all2 (job_done p c g) (concat (take k bs)) out"
      by blast
    have "acc = concat (take k bs) @ concat (drop k bs)"
      unfolding b(1) concat_append[symmetric] append_take_drop_id ..
    then show ?thesis
      using b(2) by blast
  qed
  then show ?thesis
    using run_inv_total[OF I] by (auto simp: list_all2_lengthD)
qed

theorem completions_in_submission_order_witness:
  "\<exists>pl. pipe_run demo_prims (Pipeline_new [demo_env] demo_hmac False) pl [demo_job] [demo_done] \<and>
     list_all2 (job_done demo_prims demo_hmac False) [demo_job] [demo_done]"
  using completions_in_submission_order[OF pipe_run.collect_next[OF demo_pipe_run demo_pipe_recv]]
    pipe_run.collect_next[OF demo_pipe_run demo_pipe_recv] by auto

text \<open>C40: Nothing is held back. Once every worker has put back what it was given, one \<open>collect\<close>
  delivers every job that was handed over and nothing stays in flight.\<close>

theorem collect_drains_idle_workers:
  assumes "pipe_run p (Pipeline_new envs c g) pl acc out"
    and "list_all (\<lambda>w. w_alive w \<and> w_jobs w = [] \<and> w_hand w = None) (workers pl)"
    and "batch pl = []" "collect p us pl = Ret (pl', ds)"
  shows "list_all2 (job_done p c g) acc (out @ ds) \<and> in_flight_batches pl' = 0"
proof (cases "workers pl = []")
  case True
  then show ?thesis
    using pipe_run_inv[OF assms(1)] assms(4) by (auto simp: run_inv_def collect_def)
next
  case False
  then have c: "collect_loop p (tl us) pl = Ret (pl', ds)"
    using assms(3,4) by (auto simp: collect_def flush_def work_idle[OF assms(2)])
  note run = collect_loop_run[OF assms(1) c]
  have idle: "list_all (\<lambda>w. w_alive w \<and> w_jobs w = [] \<and> w_hand w = None) (workers pl')" "workers pl' \<noteq> []"
    using collect_loop_idle[OF c assms(2) False] by simp_all
  from run_inv_pool[OF pipe_run_inv[OF conjunct1[OF run]] idle(2)] obtain bs k where
    I: "pool_inv p c g pl' bs k" "acc = concat bs" "list_all2 (job_done p c g) (concat (take k bs)) (out @ ds)"
    by blast
  have "k = length bs"
    using idle_all_collected[OF I(1) idle(1)] run by simp
  then show ?thesis
    using I by (auto simp: pool_inv_def)
qed

theorem collect_drains_idle_workers_witness:
  "pipe_run demo_prims (Pipeline_new [demo_env] demo_hmac False) demo_pipe [demo_job] [] \<and>
   list_all2 (job_done demo_prims demo_hmac False) [demo_job] [demo_done]"
proof -
  have "list_all (\<lambda>w. w_alive w \<and> w_jobs w = [] \<and> w_hand w = None) (workers demo_pipe)" "batch demo_pipe = []"
    by (simp_all add: demo_pipe_def Pipeline_new_def)
  from collect_drains_idle_workers[OF demo_pipe_run this demo_pipe_collect] demo_pipe_run show ?thesis
    by simp
qed

end
