(* ===== verification/Slots.thy ===== *)
theory Slots
  imports Prelude
begin

text \<open>
  What the event loops are built on: a small logic for evaluations that may panic, checked
  subtraction, and the slot tables of the server (\<open>Vec<Option<T>>\<close> with a stack of free
  indices, \<open>src/src/server.rs\<close>), whose invariant is that the stack lists exactly the empty
  slots.
\<close>


section \<open>Reasoning about evaluations\<close>

text \<open>\<open>sat Q m P\<close>: the evaluation \<open>m\<close> returns a value satisfying \<open>P\<close>, or it panics and \<open>Q\<close> holds.
  With \<open>Q = False\<close> this is total correctness.\<close>

definition sat :: "bool \<Rightarrow> 'a eval \<Rightarrow> ('a \<Rightarrow> bool) \<Rightarrow> bool" where
  "sat Q m P \<longleftrightarrow> (case m of Panic \<Rightarrow> Q | Ret x \<Rightarrow> P x)"

lemma sat_Ret [simp]: "sat Q (Ret x) P = P x"
  by (simp add: sat_def)

lemma sat_Panic [simp]: "sat Q Panic P = Q"
  by (simp add: sat_def)

lemma sat_rbind [simp]: "sat Q (rbind m f) P = sat Q m (\<lambda>x. sat Q (f x) P)"
  by (cases m) simp_all

lemma sat_mono: "sat Q m P \<Longrightarrow> (\<And>x. P x \<Longrightarrow> P' x) \<Longrightarrow> sat Q m P'"
  by (cases m) simp_all

lemma sat_weaken: "sat Q m P \<Longrightarrow> (Q \<Longrightarrow> Q') \<Longrightarrow> (\<And>x. P x \<Longrightarrow> P' x) \<Longrightarrow> sat Q' m P'"
  by (cases m) simp_all

lemma sat_False: "sat False m P \<longleftrightarrow> (\<exists>x. m = Ret x \<and> P x)"
  by (cases m) simp_all

lemma sat_bind: "sat Q m R \<Longrightarrow> (\<And>x. R x \<Longrightarrow> sat Q (f x) P) \<Longrightarrow> sat Q (rbind m f) P"
  by (cases m) simp_all

text \<open>Unsigned subtraction, an underflow counting as a panic (as in a build with overflow checks).\<close>

definition usub :: "nat \<Rightarrow> nat \<Rightarrow> nat eval" where
  "usub a b = (if b \<le> a then Ret (a - b) else Panic)"

text \<open>Iterating a fallible step over a list.\<close>

fun for_each :: "('a \<Rightarrow> 's \<Rightarrow> 's eval) \<Rightarrow> 'a list \<Rightarrow> 's \<Rightarrow> 's eval" where
  "for_each f [] s = Ret s"
| "for_each f (x # xs) s = rbind (f x s) (for_each f xs)"

lemma for_each_sat:
  assumes "I s" "\<And>x s. x \<in> set xs \<Longrightarrow> I s \<Longrightarrow> sat Q (f x s) I"
  shows "sat Q (for_each f xs s) I"
  using assms
proof (induction xs arbitrary: s)
  case (Cons x xs)
  have "sat Q (f x s) I"
    using Cons.prems by simp
  then show ?case
    by (simp, rule sat_mono) (use Cons in simp)
qed simp


section \<open>Slot tables\<close>

definition slot_get :: "'a option list \<Rightarrow> nat \<Rightarrow> 'a option" where
  "slot_get xs i = (if i < length xs then xs ! i else None)"

definition slot_alloc :: "'a option list \<Rightarrow> nat list \<Rightarrow> 'a \<Rightarrow> (nat \<times> 'a option list \<times> nat list) eval" where
  "slot_alloc xs free x =
     (case free of
        i # r \<Rightarrow> if i < length xs then Ret (i, xs[i := Some x], r) else Panic
      | [] \<Rightarrow> Ret (length xs, xs @ [Some x], []))"

definition slots_wf :: "'a option list \<Rightarrow> nat list \<Rightarrow> bool" where
  "slots_wf xs free \<longleftrightarrow> distinct free \<and> set free = {i. i < length xs \<and> xs ! i = None}"

lemma slot_get_update:
  "slot_get (xs[i := v]) j = (if j = i \<and> i < length xs then v else slot_get xs j)"
  by (simp add: slot_get_def)

lemma slot_get_Some: "slot_get xs i = Some x \<Longrightarrow> i < length xs \<and> xs ! i = Some x"
  by (simp add: slot_get_def split: if_splits)

lemma slots_wf_Nil [simp]: "slots_wf [] []"
  by (simp add: slots_wf_def)

lemma slots_wf_put:
  assumes "slots_wf xs free" "slot_get xs i \<noteq> None"
  shows "slots_wf (xs[i := Some y]) free"
proof -
  have "{j. j < length (xs[i := Some y]) \<and> xs[i := Some y] ! j = None} = {j. j < length xs \<and> xs ! j = None}"
    using assms(2) by (auto simp: slot_get_def nth_list_update split: if_splits)
  with assms(1) show ?thesis
    by (simp add: slots_wf_def)
qed

lemma slots_wf_take:
  assumes "slots_wf xs free" "slot_get xs i = Some x"
  shows "slots_wf (xs[i := None]) (i # free)"
proof -
  have "{j. j < length (xs[i := None]) \<and> xs[i := None] ! j = None} = insert i {j. j < length xs \<and> xs ! j = None}"
    using slot_get_Some[OF assms(2)] by (auto simp: nth_list_update)
  moreover have "i \<notin> set free"
    using assms by (auto simp: slots_wf_def slot_get_def split: if_splits)
  ultimately show ?thesis
    using assms(1) by (simp add: slots_wf_def)
qed

lemma slot_alloc_ok:
  assumes "slots_wf xs free"
  obtains i xs' free' where "slot_alloc xs free x = Ret (i, xs', free')" "slot_get xs i = None"
    "slots_wf xs' free'" "\<And>j. slot_get xs' j = (if j = i then Some x else slot_get xs j)"
    "length xs' - length free' = Suc (length xs - length free)" "length free \<le> length xs"
proof (cases free)
  case Nil
  have "{j. j < length (xs @ [Some x]) \<and> (xs @ [Some x]) ! j = None} = {}"
    using assms Nil by (auto simp: slots_wf_def nth_append less_Suc_eq)
  then show thesis
    using Nil that[of "length xs" "xs @ [Some x]" "[]"]
    by (auto simp: slot_alloc_def slots_wf_def slot_get_def nth_append)
next
  case (Cons i r)
  have i: "i < length xs" "xs ! i = None" "i \<notin> set r"
    using assms Cons by (auto simp: slots_wf_def)
  have "{j. j < length xs \<and> xs[i := Some x] ! j = None} = {j. j < length xs \<and> xs ! j = None} - {i}"
    using i by (auto simp: nth_list_update)
  then have wf: "slots_wf (xs[i := Some x]) r"
    using assms Cons i by (auto simp: slots_wf_def)
  have "length free = card (set free)"
    using assms by (metis slots_wf_def distinct_card)
  also have "\<dots> \<le> card {..<length xs}"
    using assms by (intro card_mono) (auto simp: slots_wf_def)
  finally show thesis
    using wf i Cons that[of i "xs[i := Some x]" r]
    by (auto simp: slot_alloc_def slot_get_def nth_list_update)
qed

lemma slots_live:
  assumes "slots_wf xs free"
  shows "length free \<le> length xs"
  by (rule slot_alloc_ok[OF assms])

lemma slots_live_take:
  assumes "slots_wf xs free" "slot_get xs i = Some x"
  shows "length (xs[i := None]) - length (i # free) < length xs - length free"
proof -
  have "length (i # free) \<le> length (xs[i := None])"
    by (rule slots_live[OF slots_wf_take[OF assms]])
  then show ?thesis
    by simp
qed

end
