(* ===== verification/Server.thy ===== *)
theory Server
  imports Conv Pipeline Slots
begin

text \<open>
  The server's event loop (\<open>src/src/server.rs\<close>): connections keyed by client address, the
  handshake and reconnect logic, the conversations of a connection with their UDP sockets, the
  completions of the crypto pipeline and the timers. Every handler is a function from the
  server state to an evaluation of the next state; what the kernel answers (opened sockets,
  registrations, received packets) is part of the state or an argument. The buffer pool only
  recycles memory and is left out, as are log messages; a received packet is given as its
  bytes, \<open>&buf[..len]\<close>.
\<close>


section \<open>State\<close>

definition HUGE_DATA_LEN :: nat where "HUGE_DATA_LEN = 65535 + 100"
definition MAX_HANDSHAKE_CONN_NUM :: nat where "MAX_HANDSHAKE_CONN_NUM = 10000"
definition MAX_READY_CONN_NUM :: nat where "MAX_READY_CONN_NUM = 1000"
definition MAX_CONV_NUM :: nat where "MAX_CONV_NUM = 10000"
definition SERVER_HANDSHAKE_TIMEOUT_MS :: nat where
  "SERVER_HANDSHAKE_TIMEOUT_MS = CLIENT_HANDSHAKE_TIMEOUT_MS + 5000"
definition CONN_CLEAR_RATIO :: nat where "CONN_CLEAR_RATIO = 50"
definition CONN_CLEAR_MIN :: nat where "CONN_CLEAR_MIN = 1"
definition CONN_CLEAR_INTERVAL_MS :: nat where "CONN_CLEAR_INTERVAL_MS = 1000"
definition HEARTBEAT_INTERVAL_MS :: nat where "HEARTBEAT_INTERVAL_MS = 600"
definition SERVER_CONN_TIMEOUT_MS :: nat where "SERVER_CONN_TIMEOUT_MS = CONV_TIMEOUT_MS + 60000"
definition DRAIN_BUDGET :: nat where "DRAIN_BUDGET = 64"
definition RX_BATCH :: nat where "RX_BATCH = 32"

datatype SState = SIdle | SHandshake1 | SReady

text \<open>A socket is identified by the number of the call that opened it.\<close>

record ConvSock =
  cs_sock :: nat
  cs_conn_slot :: nat
  cs_conv :: u32

type_synonym ip_port = "IpAddr \<times> u16"

record ServerConn =
  sc_info :: ConnInfo
  sc_state :: SState
  sc_convs :: "nat ConvManager"
  sc_generation :: nat
  sc_addr :: ip_port

text \<open>\<open>sv_open\<close> and \<open>sv_register\<close> are the results of successive calls of \<open>new_connected_udp\<close> and
  of the registration with the poller, \<open>sv_order\<close> the iteration order of a hash map,
  \<open>sv_udp_sent\<close> the datagrams sent towards \<open>-r\<close>. \<open>sv_sched\<close> is the schedule of the worker threads: which
  of them act before and during the \<open>sv_tick\<close>-th use of the pipeline by the I/O thread.\<close>

record Server =
  sv_cfg :: Config
  sv_crypto :: Crypto
  sv_ctx :: RawCtx
  sv_env :: Env
  sv_pipe :: Pipeline
  conns :: "ServerConn option list"
  free_conns :: "nat list"
  by_addr :: "ip_port \<rightharpoonup> nat"
  by_const_id :: "u32 \<rightharpoonup> nat"
  ready_num :: nat
  socks :: "ConvSock option list"
  free_socks :: "nat list"
  clear_cursor :: nat
  last_conn_clear :: nat
  next_generation :: nat
  sv_const_id :: u32
  manual_ll :: "SockaddrLl option"
  hb_buf :: bytes
  raw_pending :: bool
  socks_pending :: "nat list"
  sv_open :: "nat \<Rightarrow> bool"
  sv_opened :: nat
  sv_register :: "nat \<Rightarrow> bool"
  sv_registered :: nat
  sv_order :: "nat set \<Rightarrow> nat list"
  sv_udp_sent :: "(nat \<times> bytes) list"
  sv_sched :: "nat \<Rightarrow> nat list list"
  sv_tick :: nat

text \<open>\<open>run\<close>, given what opening the sockets produced; \<open>--threads\<close> workers are spawned, the \<open>i\<close>-th with
  the environment \<open>thread_env i\<close>. \<open>ifindex\<close> is the answer of \<open>if_nametoindex\<close>.\<close>

definition server_new ::
  "Config \<Rightarrow> Crypto \<Rightarrow> u32 \<Rightarrow> (nat \<Rightarrow> nat) \<Rightarrow> int \<Rightarrow> (nat \<Rightarrow> Env) \<Rightarrow> (nat \<Rightarrow> nat list list) \<Rightarrow> (nat \<Rightarrow> bool) \<Rightarrow> (nat \<Rightarrow> bool) \<Rightarrow>
   (nat set \<Rightarrow> nat list) \<Rightarrow> Env \<Rightarrow> Server" where
  "server_new cfg crypto const_id accept ifindex thread_env sched open_ok register_ok hash_order e =
     (let (ctx, e1) = RawCtx_new cfg accept e in
      \<lparr> sv_cfg = cfg, sv_crypto = crypto, sv_ctx = set_filter (sa_port (cfg_local_addr cfg)) ctx, sv_env = e1,
        sv_pipe = Pipeline_new (map thread_env [0..<cfg_threads cfg]) crypto (cfg_fix_gro cfg), conns = [], free_conns = [],
        by_addr = Map.empty, by_const_id = Map.empty, ready_num = 0, socks = [], free_socks = [],
        clear_cursor = 0, last_conn_clear = 0, next_generation = 1, sv_const_id = const_id,
        manual_ll = (case cfg_lower_level cfg of
            Some (LLManual if_name dest_mac) \<Rightarrow> Some (make_sockaddr_ll ifindex dest_mac)
          | Some LLAuto \<Rightarrow> None | None \<Rightarrow> None),
        hb_buf = replicate (cfg_hb_len cfg) 0, raw_pending = False, socks_pending = [],
        sv_open = open_ok, sv_opened = 0, sv_register = register_ok, sv_registered = 0,
        sv_order = hash_order, sv_udp_sent = [], sv_sched = sched, sv_tick = 0 \<rparr>)"


section \<open>Slots\<close>

definition conn_at :: "Server \<Rightarrow> nat \<Rightarrow> ServerConn eval" where
  "conn_at s slot = (case slot_get (conns s) slot of Some c \<Rightarrow> Ret c | None \<Rightarrow> Panic)"

definition put_conn :: "nat \<Rightarrow> ServerConn \<Rightarrow> Server \<Rightarrow> Server" where
  "put_conn slot c s = s\<lparr> conns := (conns s)[slot := Some c] \<rparr>"

definition alloc_conn :: "Server \<Rightarrow> ServerConn \<Rightarrow> (nat \<times> Server) eval" where
  "alloc_conn s c = rbind (slot_alloc (conns s) (free_conns s) c) (\<lambda>(i, cs, free).
     Ret (i, s\<lparr> conns := cs, free_conns := free \<rparr>))"

definition live_conns :: "Server \<Rightarrow> nat eval" where
  "live_conns s = usub (length (conns s)) (length (free_conns s))"

definition close_sock :: "nat \<Rightarrow> Server \<Rightarrow> Server eval" where
  "close_sock sidx s = rbind (idx (socks s) sidx) (\<lambda>q.
     case q of
       None \<Rightarrow> Ret s
     | Some cs \<Rightarrow> Ret (s\<lparr> socks := (socks s)[sidx := None], free_socks := sidx # free_socks s \<rparr>))"

definition erase_conn :: "nat \<Rightarrow> Server \<Rightarrow> Server eval" where
  "erase_conn slot s = rbind (idx (conns s) slot) (\<lambda>q.
     case q of
       None \<Rightarrow> Ret s
     | Some c \<Rightarrow>
         let s1 = s\<lparr> conns := (conns s)[slot := None] \<rparr> in
         rbind (if sc_state c = SReady
                then rbind (usub (ready_num s1) 1) (\<lambda>n. Ret (s1\<lparr> ready_num := n,
                  by_const_id := (by_const_id s1)(oppsite_const_id (sc_info c) := None) \<rparr>))
                else Ret s1) (\<lambda>s2.
         rbind (for_each close_sock (sv_order s (fst (cm_clear (sc_convs c)))) s2) (\<lambda>s3.
           Ret (s3\<lparr> by_addr := (by_addr s3)(sc_addr c := None), free_conns := slot # free_conns s3 \<rparr>))))"

definition fill_lower_level :: "Server \<Rightarrow> RawInfo \<Rightarrow> RawInfo" where
  "fill_lower_level s raw =
     (if \<not> rc_lower_level (sv_ctx s) then raw
      else raw\<lparr> send_info := (send_info raw)\<lparr> addr_ll :=
        (case manual_ll s of Some ll \<Rightarrow> ll | None \<Rightarrow> reply_sockaddr_ll (addr_ll (recv_info raw))) \<rparr> \<rparr>)"


section \<open>Sending\<close>

definition submit_job :: "prims \<Rightarrow> Job \<Rightarrow> Server \<Rightarrow> Server eval" where
  "submit_job p job s =
     rbind (submit p (work p (concat (sv_sched s (sv_tick s))) (sv_pipe s)) (sv_env s) job) (\<lambda>(pl, e, ok).
     Ret (s\<lparr> sv_pipe := pl, sv_env := e, sv_tick := sv_tick s + 1 \<rparr>))"

definition send_heartbeat :: "prims \<Rightarrow> nat \<Rightarrow> Server \<Rightarrow> Server eval" where
  "send_heartbeat p slot s =
     (let hb = (if cfg_hb_mode (sv_cfg s) = 0 then [] else hb_buf s) in
      rbind (conn_at s slot) (\<lambda>c.
      let (plain, info) = prepare_safer (sc_info c) TYPE_HEARTBEAT hb;
          key = \<lparr> jk_slot = slot, jk_generation = sc_generation c \<rparr>
      in submit_job p (EncryptJob key plain) (put_conn slot (c\<lparr> sc_info := info \<rparr>) s)))"


section \<open>Handshake\<close>

definition set_idle :: "nat \<Rightarrow> Server \<Rightarrow> Server eval" where
  "set_idle slot s = rbind (conn_at s slot) (\<lambda>c.
     Ret (put_conn slot (c\<lparr> sc_state := SIdle, sc_info := (sc_info c)\<lparr> oppsite_const_id := 0 \<rparr> \<rparr>) s))"

text \<open>The branch of \<open>pre_ready\<close> for an unknown \<open>const_id\<close>.\<close>

definition go_ready :: "prims \<Rightarrow> nat \<Rightarrow> u32 \<Rightarrow> nat \<Rightarrow> Server \<Rightarrow> Server eval" where
  "go_ready p slot const_id now s =
     rbind (conn_at s slot) (\<lambda>c.
     if ready_num s \<ge> MAX_READY_CONN_NUM then Ret (put_conn slot (c\<lparr> sc_state := SIdle \<rparr>) s)
     else
       let c1 = c\<lparr> sc_state := SReady, sc_info := (sc_info c)\<lparr> oppsite_const_id := const_id,
             last_hb_recv_time := now, last_hb_sent_time := now,
             anti_replay := ar_re_init (anti_replay (sc_info c)) \<rparr> \<rparr>;
           s1 = (put_conn slot c1 s)\<lparr> ready_num := ready_num s + 1, by_const_id := (by_const_id s)(const_id \<mapsto> slot) \<rparr>
       in send_heartbeat p slot s1)"

text \<open>The address bindings are swapped: the established connection takes over the new address
  and the raw connection, the fresh one inherits the old address and goes idle.\<close>

definition recover_conn :: "prims \<Rightarrow> nat \<Rightarrow> nat \<Rightarrow> nat \<Rightarrow> Server \<Rightarrow> Server eval" where
  "recover_conn p slot ori_slot now s =
     rbind (conn_at s slot) (\<lambda>c.
     rbind (conn_at s ori_slot) (\<lambda>ori.
     let s1 = s\<lparr> by_addr := (by_addr s)(sc_addr c \<mapsto> ori_slot, sc_addr ori \<mapsto> slot),
                 next_generation := next_generation s + 1 \<rparr>;
         ori1 = ori\<lparr> sc_addr := sc_addr c, sc_info := recover_from (sc_info ori) (sc_info c),
                     sc_generation := next_generation s \<rparr>;
         c1 = c\<lparr> sc_addr := sc_addr ori, sc_state := SIdle, sc_info := (sc_info c)\<lparr> oppsite_const_id := 0 \<rparr> \<rparr>
     in rbind (send_heartbeat p ori_slot (put_conn slot c1 (put_conn ori_slot ori1 s1))) (\<lambda>s2.
        rbind (conn_at s2 ori_slot) (\<lambda>ori2.
          Ret (put_conn ori_slot (ori2\<lparr> sc_info := (sc_info ori2)\<lparr> last_hb_recv_time := now \<rparr> \<rparr>) s2)))))"

definition pre_ready :: "prims \<Rightarrow> nat \<Rightarrow> u32 \<Rightarrow> Server \<Rightarrow> Server eval" where
  "pre_ready p slot const_id sv =
     (let (now, e) = now_ms (sv_env sv); s = sv\<lparr> sv_env := e \<rparr> in
      rbind (conn_at s slot) (\<lambda>c.
      case by_const_id s const_id of
        None \<Rightarrow> go_ready p slot const_id now s
      | Some ori_slot \<Rightarrow>
          if ori_slot = slot then Ret s
          else rbind (conn_at s ori_slot) (\<lambda>ori.
            if sc_state ori \<noteq> SReady then set_idle slot s
            else if last_state_time (sc_info c) < last_state_time (sc_info ori) then set_idle slot s
            else recover_conn p slot ori_slot now s)))"

definition sync_seq :: "RawMode \<Rightarrow> RawInfo \<Rightarrow> RawInfo" where
  "sync_seq raw_mode raw =
     (let r = recv_info raw;
          raw1 = (if raw_mode = FakeTcp then raw\<lparr> send_info := (send_info raw)\<lparr> seq := ack_seq r,
                    ack_seq := seq r + of_nat (data_len r), ts_ack := ts r \<rparr> \<rparr> else raw)
      in if raw_mode = IcmpMode then raw1\<lparr> send_info := (send_info raw1)\<lparr> icmp_seq := icmp_seq r \<rparr> \<rparr> else raw1)"

definition on_handshake1 :: "prims \<Rightarrow> nat \<Rightarrow> bytes \<Rightarrow> Server \<Rightarrow> Server eval" where
  "on_handshake1 p slot payload s =
     (let raw_mode = cfg_raw_mode (sv_cfg s) in
      rbind (conn_at s slot) (\<lambda>c.
      rbind (parse_handshake payload) (\<lambda>h.
      case h of
        None \<Rightarrow> Ret s
      | Some (tmp_oppsite_id, tmp_my_id, tmp_oppsite_const_id) \<Rightarrow>
          let info = sc_info c; raw = sync_seq raw_mode (ci_raw info) in
          if tmp_my_id = 0 then
            rbind (send_handshake p (sv_crypto s) (sv_ctx s) (sv_env s) raw (my_id info) tmp_oppsite_id (sv_const_id s))
              (\<lambda>(ctx, e, raw', ok).
                Ret (put_conn slot (c\<lparr> sc_info := info\<lparr> ci_raw := raw' \<rparr> \<rparr>) (s\<lparr> sv_ctx := ctx, sv_env := e \<rparr>)))
          else if tmp_my_id = my_id info then
            pre_ready p slot tmp_oppsite_const_id
              (put_conn slot (c\<lparr> sc_info := info\<lparr> oppsite_id := tmp_oppsite_id, ci_raw := raw \<rparr> \<rparr>) s)
          else Ret s)))"


section \<open>Packets from clients\<close>

text \<open>A raw connection pointed back at the sender of the packet it just parsed.\<close>

definition reply_raw :: "Server \<Rightarrow> RawInfo \<Rightarrow> RawInfo" where
  "reply_raw s raw = (let r = recv_info raw in
     fill_lower_level s (raw\<lparr> send_info := (send_info raw)\<lparr> src_ip := dst_ip r, src_port := dst_port r,
       dst_port := src_port r, dst_ip := src_ip r \<rparr> \<rparr>))"

text \<open>A SYN before the connection is ready is answered without creating any state.\<close>

definition answer_syn :: "RawInfo \<Rightarrow> bytes \<Rightarrow> Server \<Rightarrow> Server eval" where
  "answer_syn tmp d s =
     (if length d > MAX_DATA_LEN \<or> cfg_easy_faketcp (sv_cfg s) then Ret s
      else let r = recv_info tmp; tmp' = reply_raw s tmp in
        if length d = 0 \<and> syn r \<and> \<not> ack r then
          rbind (send_raw (sv_ctx s) (sv_env s) (tmp'\<lparr> send_info := (send_info tmp')\<lparr> ack_seq := seq r + 1,
              psh := False, syn := True, ack := True, ts_ack := ts r \<rparr> \<rparr>) []) (\<lambda>(ctx, e, _).
            Ret (s\<lparr> sv_ctx := ctx, sv_env := e \<rparr>))
        else Ret s)"

definition on_syn :: "bytes \<Rightarrow> SockaddrLl \<Rightarrow> nat option \<Rightarrow> Server \<Rightarrow> Server eval" where
  "on_syn buf ll slot_opt s =
     rbind (case slot_opt of
              None \<Rightarrow> Ret True
            | Some slot \<Rightarrow> rbind (idx (conns s) slot) (\<lambda>q.
                Ret (case q of None \<Rightarrow> True | Some c \<Rightarrow> sc_state c \<noteq> SReady))) (\<lambda>not_ready.
     if \<not> not_ready then Ret s
     else let (tmp, e) = RawInfo_new (cfg_raw_mode (sv_cfg s)) (rc_is_v6 (sv_ctx s)) (sv_env s);
              s1 = s\<lparr> sv_env := e \<rparr> in
       rbind (parse_recv (sv_ctx s1) tmp buf ll) (\<lambda>(tmp1, data).
         case data of None \<Rightarrow> Ret s1 | Some d \<Rightarrow> answer_syn tmp1 d s1))"

text \<open>A brand-new address must send an initial handshake; only then a connection is created.\<close>

definition admit :: "prims \<Rightarrow> bytes \<Rightarrow> ip_port \<Rightarrow> RawInfo \<Rightarrow> Server \<Rightarrow> Server eval" where
  "admit p payload addr tmp s =
     (let (info, e1) = ConnInfo_new (cfg_raw_mode (sv_cfg s)) (rc_is_v6 (sv_ctx s)) (cfg_disable_anti_replay (sv_cfg s)) (sv_env s);
          raw = reply_raw s tmp;
          (ident, e2) = draw_nz e1; (now, e3) = now_ms e2;
          c = \<lparr> sc_info = info\<lparr> ci_raw := raw, my_id := ident, last_state_time := now \<rparr>,
                sc_state = SHandshake1, sc_convs = cm_new, sc_generation = next_generation s, sc_addr = addr \<rparr>
      in rbind (alloc_conn (s\<lparr> sv_env := e3, next_generation := next_generation s + 1 \<rparr>) c) (\<lambda>(slot, s1).
           on_handshake1 p slot payload (s1\<lparr> by_addr := (by_addr s1)(addr \<mapsto> slot) \<rparr>)))"

definition on_new_addr :: "prims \<Rightarrow> bytes \<Rightarrow> SockaddrLl \<Rightarrow> ip_port \<Rightarrow> Server \<Rightarrow> Server eval" where
  "on_new_addr p buf ll addr s =
     (let raw_mode = cfg_raw_mode (sv_cfg s) in
      rbind (live_conns s) (\<lambda>live.
      if live \<ge> MAX_HANDSHAKE_CONN_NUM then Ret s
      else
        let (tmp, e) = RawInfo_new raw_mode (rc_is_v6 (sv_ctx s)) (sv_env s); s1 = s\<lparr> sv_env := e \<rparr>;
            tmp0 = (if raw_mode = IcmpMode
                    then tmp\<lparr> send_info := (send_info tmp)\<lparr> dst_port := snd addr, src_port := snd addr \<rparr> \<rparr> else tmp) in
        rbind (parse_recv (sv_ctx s1) tmp0 buf ll) (\<lambda>(tmp1, data).
        case data of
          None \<Rightarrow> Ret s1
        | Some d \<Rightarrow>
            let r = recv_info tmp1 in
            if raw_mode = FakeTcp \<and> (syn r \<or> \<not> ack r) then Ret s1
            else rbind (recv_bare p (sv_crypto s1) d) (\<lambda>pl.
              case pl of
                None \<Rightarrow> Ret s1
              | Some payload \<Rightarrow>
                  rbind (parse_handshake payload) (\<lambda>h.
                  case h of
                    None \<Rightarrow> Ret s1
                  | Some (_, zero, _) \<Rightarrow> if zero \<noteq> 0 then Ret s1 else admit p payload addr tmp1 s1)))))"

text \<open>A packet of a known address.\<close>

definition on_known_addr :: "prims \<Rightarrow> bytes \<Rightarrow> SockaddrLl \<Rightarrow> nat \<Rightarrow> Server \<Rightarrow> Server eval" where
  "on_known_addr p buf ll slot s =
     rbind (conn_at s slot) (\<lambda>c.
     case sc_state c of
       SHandshake1 \<Rightarrow>
         rbind (parse_recv (sv_ctx s) (ci_raw (sc_info c)) buf ll) (\<lambda>(raw, data).
         let s1 = put_conn slot (c\<lparr> sc_info := (sc_info c)\<lparr> ci_raw := raw \<rparr> \<rparr>) s in
         case data of
           None \<Rightarrow> Ret s1
         | Some d \<Rightarrow>
             if cfg_raw_mode (sv_cfg s) = FakeTcp \<and> (syn (recv_info raw) \<or> \<not> ack (recv_info raw)) then Ret s1
             else rbind (recv_bare p (sv_crypto s) d) (\<lambda>pl.
               case pl of None \<Rightarrow> Ret s1 | Some payload \<Rightarrow> on_handshake1 p slot payload s1))
     | SReady \<Rightarrow>
         rbind (parse_recv (sv_ctx s) (ci_raw (sc_info c)) buf ll) (\<lambda>(raw, data).
         let s1 = put_conn slot (c\<lparr> sc_info := (sc_info c)\<lparr> ci_raw := raw \<rparr> \<rparr>) s in
         case data of
           None \<Rightarrow> Ret s1
         | Some d \<Rightarrow> submit_job p (DecryptJob \<lparr> jk_slot = slot, jk_generation = sc_generation c \<rparr> d
               (RecvMeta_from_recv (recv_info raw))) s1)
     | SIdle \<Rightarrow> Ret s)"

definition on_raw_packet :: "prims \<Rightarrow> bytes \<times> SockaddrLl \<Rightarrow> Server \<Rightarrow> Server eval" where
  "on_raw_packet p pkt s =
     (let (data, ll) = pkt; fix_gro = cfg_fix_gro (sv_cfg s) in
      if length data = HUGE_DATA_LEN + 1 \<and> \<not> fix_gro then Ret s
      else let len = (if length data = HUGE_DATA_LEN + 1 then HUGE_DATA_LEN else length data) in
      if len > MAX_DATA_LEN \<and> \<not> fix_gro then Ret s
      else let buf = take len data in
      rbind (peek (sv_ctx s) buf) (\<lambda>q.
      case q of
        None \<Rightarrow> Ret s
      | Some pk \<Rightarrow>
          let addr = (pk_src_ip pk, pk_src_port pk); slot_opt = by_addr s addr in
          if cfg_raw_mode (sv_cfg s) = FakeTcp \<and> pk_syn pk then on_syn buf ll slot_opt s
          else case slot_opt of
            None \<Rightarrow> on_new_addr p buf ll addr s
          | Some slot \<Rightarrow> on_known_addr p buf ll slot s))"

text \<open>Batches are what successive \<open>recv_batch\<close> calls deliver; a short batch ends the drain, so
  does the budget.\<close>

fun on_raw_readable ::
  "prims \<Rightarrow> nat \<Rightarrow> (bytes \<times> SockaddrLl) list list \<Rightarrow> Server \<Rightarrow> (bool \<times> Server) eval" where
  "on_raw_readable p rounds [] s = Ret (False, s)"
| "on_raw_readable p rounds (b # batches) s =
     rbind (for_each (on_raw_packet p) b s) (\<lambda>s1.
       if length b < RX_BATCH then Ret (False, s1)
       else if (rounds + 1) * RX_BATCH \<ge> DRAIN_BUDGET then Ret (True, s1)
       else on_raw_readable p (rounds + 1) batches s1)"


section \<open>Completions\<close>

definition valid_ready :: "Server \<Rightarrow> JobKey \<Rightarrow> bool" where
  "valid_ready s key = (case slot_get (conns s) (jk_slot key) of
     Some c \<Rightarrow> sc_generation c = jk_generation key \<and> sc_state c = SReady | None \<Rightarrow> False)"

text \<open>The socket of a conversation, opened on its first datagram; \<open>None\<close> when the datagram is
  dropped.\<close>

definition open_conv :: "nat \<Rightarrow> u32 \<Rightarrow> nat \<Rightarrow> Server \<Rightarrow> (bool \<times> Server) eval" where
  "open_conv slot conv now s =
     rbind (conn_at s slot) (\<lambda>c.
     if is_conv_used (sc_convs c) conv then Ret (True, s)
     else if cm_len (sc_convs c) \<ge> MAX_CONV_NUM then Ret (False, s)
     else
       let s1 = s\<lparr> sv_opened := sv_opened s + 1 \<rparr> in
       if \<not> sv_open s (sv_opened s) then Ret (False, s1)
       else rbind (slot_alloc (socks s1) (free_socks s1)
             \<lparr> cs_sock = sv_opened s, cs_conn_slot = slot, cs_conv = conv \<rparr>) (\<lambda>(sidx, ss, free).
         let s2 = s1\<lparr> socks := ss, free_socks := free, sv_registered := sv_registered s1 + 1 \<rparr> in
         if \<not> sv_register s1 (sv_registered s1)
         then rbind (close_sock sidx s2) (\<lambda>s3. Ret (False, s3))
         else Ret (True, put_conn slot (c\<lparr> sc_convs := cm_insert (sc_convs c) conv sidx now \<rparr>) s2)))"

definition on_ready_packet :: "nat \<Rightarrow> u8 \<Rightarrow> bytes \<Rightarrow> Server \<Rightarrow> Server eval" where
  "on_ready_packet slot ptype payload sv =
     (let (now, e) = now_ms (sv_env sv); s = sv\<lparr> sv_env := e \<rparr> in
      rbind (conn_at s slot) (\<lambda>c.
      if ptype = TYPE_HEARTBEAT
      then Ret (put_conn slot (c\<lparr> sc_info := (sc_info c)\<lparr> last_hb_recv_time := now \<rparr> \<rparr>) s)
      else if ptype \<noteq> TYPE_DATA then Ret s
      else rbind (parse_data_payload payload) (\<lambda>q.
        case q of
          None \<Rightarrow> Ret s
        | Some (conv, d) \<Rightarrow>
            let s1 = (if cfg_hb_mode (sv_cfg s) = 0
                      then put_conn slot (c\<lparr> sc_info := (sc_info c)\<lparr> last_hb_recv_time := now \<rparr> \<rparr>) s else s) in
            rbind (open_conv slot conv now s1) (\<lambda>(opened, s2).
            if \<not> opened then Ret s2
            else rbind (conn_at s2 slot) (\<lambda>c2.
              case find_data_by_conv (sc_convs c2) conv of
                None \<Rightarrow> Panic
              | Some sidx \<Rightarrow>
                  let s3 = put_conn slot (c2\<lparr> sc_convs := update_active_time (sc_convs c2) conv now \<rparr>) s2 in
                  rbind (idx (socks s3) sidx) (\<lambda>cs.
                    Ret (case cs of None \<Rightarrow> s3
                         | Some k \<Rightarrow> s3\<lparr> sv_udp_sent := sv_udp_sent s3 @ [(cs_sock k, d)] \<rparr>)))))))"

definition accept_plain :: "nat \<Rightarrow> bytes \<Rightarrow> bool \<times> Server \<Rightarrow> (bool \<times> Server) eval" where
  "accept_plain slot plain st =
     (let (any, s) = st in
      rbind (conn_at s slot) (\<lambda>c.
      rbind (accept_safer_offset (sv_env s) (sc_info c) plain (cfg_hb_mode (sv_cfg s))) (\<lambda>(e, info, r).
      let s1 = put_conn slot (c\<lparr> sc_info := info \<rparr>) (s\<lparr> sv_env := e \<rparr>) in
      case r of
        None \<Rightarrow> Ret (any, s1)
      | Some (ptype, off) \<Rightarrow>
          rbind (slice_from plain off) (\<lambda>d. rbind (on_ready_packet slot ptype d s1) (\<lambda>s2. Ret (True, s2))))))"

fun on_done :: "Done \<Rightarrow> Server \<Rightarrow> Server eval" where
  "on_done (Encrypted key w) s =
     (case w of
        None \<Rightarrow> Ret s
      | Some wire \<Rightarrow>
          if valid_ready s key then
            rbind (conn_at s (jk_slot key)) (\<lambda>c.
            rbind (transmit_safer (sv_ctx s) (sv_env s) (ci_raw (sc_info c)) wire) (\<lambda>(ctx, e, raw).
              Ret (put_conn (jk_slot key) (c\<lparr> sc_info := (sc_info c)\<lparr> ci_raw := raw \<rparr> \<rparr>)
                (s\<lparr> sv_ctx := ctx, sv_env := e \<rparr>))))
          else Ret s)"
| "on_done (Decrypted key plains meta) s =
     (if \<not> valid_ready s key then Ret s
      else if plains = [] then Ret s
      else rbind (for_each (accept_plain (jk_slot key)) plains (False, s)) (\<lambda>(any, s1).
        if any then
          rbind (conn_at s1 (jk_slot key)) (\<lambda>c.
            Ret (put_conn (jk_slot key) (c\<lparr> sc_info := (sc_info c)\<lparr>
              ci_raw := after_recv (sv_ctx s1) (ci_raw (sc_info c)) meta \<rparr> \<rparr>) s1))
        else Ret s1))"

definition server_collect :: "prims \<Rightarrow> Server \<Rightarrow> Server eval" where
  "server_collect p s = rbind (collect p (sv_sched s (sv_tick s)) (sv_pipe s)) (\<lambda>(pl, dones).
     for_each on_done dones (s\<lparr> sv_pipe := pl, sv_tick := sv_tick s + 1 \<rparr>))"


section \<open>Datagrams from the remote side\<close>

definition on_sock_packet :: "prims \<Rightarrow> nat \<Rightarrow> u32 \<Rightarrow> bytes \<Rightarrow> Server \<Rightarrow> Server eval" where
  "on_sock_packet p slot conv data s =
     (if length data = MAX_DATA_LEN + 1 then Ret s
      else rbind (idx (conns s) slot) (\<lambda>q.
        case q of
          None \<Rightarrow> Ret s
        | Some c \<Rightarrow>
            if sc_state c \<noteq> SReady then Ret s
            else let (plain, info) = prepare_safer_data (sc_info c) conv data in
              submit_job p (EncryptJob \<lparr> jk_slot = slot, jk_generation = sc_generation c \<rparr> plain)
                (put_conn slot (c\<lparr> sc_info := info \<rparr>) s)))"

fun on_sock_readable :: "prims \<Rightarrow> nat \<Rightarrow> nat \<Rightarrow> bytes list list \<Rightarrow> Server \<Rightarrow> (bool \<times> Server) eval" where
  "on_sock_readable p sidx rounds [] s = rbind (idx (socks s) sidx) (\<lambda>q. Ret (False, s))"
| "on_sock_readable p sidx rounds (b # batches) s =
     rbind (idx (socks s) sidx) (\<lambda>q.
     case q of
       None \<Rightarrow> Ret (False, s)
     | Some cs \<Rightarrow>
         rbind (for_each (on_sock_packet p (cs_conn_slot cs) (cs_conv cs)) b s) (\<lambda>s1.
           if length b < RX_BATCH then Ret (False, s1)
           else if (rounds + 1) * RX_BATCH \<ge> DRAIN_BUDGET then Ret (True, s1)
           else on_sock_readable p sidx (rounds + 1) batches s1))"


section \<open>Timers\<close>

text \<open>The loop visits every slot at most once, which bounds it; \<open>left\<close> is
  \<open>conns.len() - visited\<close>, the length being unchanged by \<open>erase_conn\<close>.\<close>

fun clear_conns :: "nat \<Rightarrow> nat \<Rightarrow> nat \<Rightarrow> Server \<Rightarrow> Server eval" where
  "clear_conns 0 todo now s = Ret s"
| "clear_conns (Suc left) todo now s =
     (if todo = 0 then Ret s
      else
        let slot = (if clear_cursor s \<ge> length (conns s) then 0 else clear_cursor s);
            s1 = s\<lparr> clear_cursor := slot + 1 \<rparr> in
        rbind (idx (conns s1) slot) (\<lambda>q.
        case q of
          None \<Rightarrow> clear_conns left todo now s1
        | Some c \<Rightarrow>
            rbind (if sc_state c = SReady
                   then rbind (usub now (last_hb_recv_time (sc_info c))) (\<lambda>d.
                     Ret (d \<le> SERVER_CONN_TIMEOUT_MS \<or> cm_len (sc_convs c) \<noteq> 0))
                   else rbind (usub now (last_state_time (sc_info c))) (\<lambda>d.
                     Ret (d \<le> SERVER_HANDSHAKE_TIMEOUT_MS))) (\<lambda>keep.
            rbind (if keep then Ret s1 else erase_conn slot s1) (clear_conns left (todo - 1) now))))"

definition clear_inactive_conns :: "nat \<Rightarrow> Server \<Rightarrow> Server eval" where
  "clear_inactive_conns now s =
     (if now - last_conn_clear s \<le> CONN_CLEAR_INTERVAL_MS then Ret s
      else
        let s1 = s\<lparr> last_conn_clear := now \<rparr> in
        rbind (live_conns s1) (\<lambda>size.
        if size = 0 then Ret s1
        else clear_conns (length (conns s1)) (min (size div CONN_CLEAR_RATIO + CONN_CLEAR_MIN) size) now s1))"

definition timer_slot :: "prims \<Rightarrow> nat \<Rightarrow> nat \<Rightarrow> Server \<Rightarrow> Server eval" where
  "timer_slot p now slot s =
     rbind (idx (conns s) slot) (\<lambda>q.
     case q of
       None \<Rightarrow> Ret s
     | Some c \<Rightarrow>
         if sc_state c \<noteq> SReady then Ret s
         else let (expired, convs') = clear_inactive (sc_convs c) now in
           rbind (for_each close_sock (map snd expired) (put_conn slot (c\<lparr> sc_convs := convs' \<rparr>) s)) (\<lambda>s1.
           rbind (conn_at s1 slot) (\<lambda>c1.
           rbind (usub now (last_hb_sent_time (sc_info c1))) (\<lambda>d.
           if d < HEARTBEAT_INTERVAL_MS then Ret s1
           else rbind (send_heartbeat p slot s1) (\<lambda>s2.
             rbind (conn_at s2 slot) (\<lambda>c2.
               Ret (put_conn slot (c2\<lparr> sc_info := (sc_info c2)\<lparr> last_hb_sent_time := now \<rparr> \<rparr>) s2)))))))"

definition on_timer :: "prims \<Rightarrow> Server \<Rightarrow> Server eval" where
  "on_timer p sv =
     (let (now, e) = now_ms (sv_env sv); s = sv\<lparr> sv_env := e \<rparr> in
      rbind (clear_inactive_conns now s) (\<lambda>s1.
        for_each (timer_slot p now) [0..<length (conns s1)] s1))"


section \<open>Event loop\<close>

datatype ServerEvent = EvRaw | EvPipe | EvFifo | EvSock nat | EvOther

text \<open>The pending marks a poll leaves behind; a command read from the FIFO is only logged.\<close>

fun mark_event :: "Server \<Rightarrow> ServerEvent \<Rightarrow> Server" where
  "mark_event s EvRaw = s\<lparr> raw_pending := True \<rparr>"
| "mark_event s (EvSock sidx) =
     (if sidx \<in> set (socks_pending s) then s else s\<lparr> socks_pending := socks_pending s @ [sidx] \<rparr>)"
| "mark_event s EvPipe = s"
| "mark_event s EvFifo = s"
| "mark_event s EvOther = s"

definition drain_sock :: "prims \<Rightarrow> (nat \<Rightarrow> bytes list list) \<Rightarrow> nat \<Rightarrow> Server \<Rightarrow> Server eval" where
  "drain_sock p udp sidx s = rbind (on_sock_readable p sidx 0 (udp sidx) s) (\<lambda>(more, s1).
     Ret (if more then s1\<lparr> socks_pending := socks_pending s1 @ [sidx] \<rparr> else s1))"

definition poll_timeout :: "Server \<Rightarrow> nat \<Rightarrow> nat \<Rightarrow> nat" where
  "poll_timeout s now last_timer =
     (if raw_pending s \<or> socks_pending s \<noteq> [] then 0
      else max (TIMER_INTERVAL_MS - (now - last_timer)) 1)"

text \<open>One iteration of the loop after the poll returned \<open>events\<close>: \<open>raw\<close> and \<open>udp\<close> are what the
  raw socket and the UDP sockets deliver.\<close>

definition event_round ::
  "prims \<Rightarrow> ServerEvent list \<Rightarrow> (bytes \<times> SockaddrLl) list list \<Rightarrow> (nat \<Rightarrow> bytes list list) \<Rightarrow> nat \<Rightarrow>
   Server \<Rightarrow> (nat \<times> Server) eval" where
  "event_round p events raw udp last_timer s =
     (let (_, e) = now_ms (sv_env s); s1 = foldl mark_event (s\<lparr> sv_env := e \<rparr>) events in
      rbind (if raw_pending s1
             then rbind (on_raw_readable p 0 raw s1) (\<lambda>(more, s'). Ret (s'\<lparr> raw_pending := more \<rparr>))
             else Ret s1) (\<lambda>s2.
      rbind (for_each (drain_sock p udp) (socks_pending s2) (s2\<lparr> socks_pending := [] \<rparr>)) (\<lambda>s3.
      rbind (server_collect p s3) (\<lambda>s4.
      let (now, e4) = now_ms (sv_env s4); s5 = s4\<lparr> sv_env := e4 \<rparr> in
      rbind (if now - last_timer \<ge> TIMER_INTERVAL_MS
             then rbind (on_timer p s5) (\<lambda>s'. rbind (server_collect p s') (\<lambda>s''. Ret (now, s'')))
             else Ret (last_timer, s5)) (\<lambda>(last', s6).
        Ret (last', s6\<lparr> sv_ctx := flush_tx (sv_ctx s6) \<rparr>))))))"

end
