(* ===== verification/Server_Frame.thy ===== *)
theory Server_Frame
  imports Server
begin

text \<open>
  What the lower layers leave alone, seen from the server (\<open>src/src/server.rs\<close>): sending,
  receiving and the crypto pipeline move the clock and the random sources on, keep the settings
  of the raw socket and the end points of a connection, and do not panic.
\<close>


section \<open>What the lower layers leave alone\<close>

text \<open>The environment moves on: the clock function is fixed and its position does not go back.\<close>

definition env_le :: "Env \<Rightarrow> Env \<Rightarrow> bool" where
  "env_le e e' \<longleftrightarrow> e_clock e' = e_clock e \<and> e_tick e \<le> e_tick e'"

lemma env_le_refl [simp]: "env_le e e"
  by (simp add: env_le_def)

lemma env_le_trans: "env_le a b \<Longrightarrow> env_le b c \<Longrightarrow> env_le a c"
  by (auto simp: env_le_def)

lemma env_le_basic:
  "env_le e (snd (now_ms e))" "env_le e (snd (secure_random_u64 e))" "env_le e (snd (secure_random_u32 e))"
  "env_le e (snd (draw_nz e))" "env_le e (snd (random_nonce e))" "env_le e (snd (fast_random_u32 e))"
  by (simp_all add: env_le_def now_ms_def secure_random_u64_def secure_random_u32_def draw_nz_def
      random_nonce_def fast_random_u32_def split: prod.split)

lemma env_le_eqs:
  "now_ms e = (t, e') \<Longrightarrow> env_le e e'" "secure_random_u64 e = (v, e') \<Longrightarrow> env_le e e'"
  "secure_random_u32 e = (w, e') \<Longrightarrow> env_le e e'" "draw_nz e = (w, e') \<Longrightarrow> env_le e e'"
  "random_nonce e = (n, e') \<Longrightarrow> env_le e e'" "fast_random_u32 e = (w, e') \<Longrightarrow> env_le e e'"
  using env_le_basic[of e] by simp_all

lemma PacketInfo_new_env: "PacketInfo_new m v6 e = (x, e') \<Longrightarrow> env_le e e'"
  by (auto simp: PacketInfo_new_def Let_def split: prod.splits if_splits
      intro: env_le_trans[OF env_le_eqs(3)] env_le_eqs(3))

lemma RawInfo_new_env: "RawInfo_new m v6 e = (x, e') \<Longrightarrow> env_le e e'"
  by (auto simp: RawInfo_new_def split: prod.splits dest!: PacketInfo_new_env intro: env_le_trans)

lemma ConnInfo_new_env: "ConnInfo_new m v6 d e = (x, e') \<Longrightarrow> env_le e e'"
  by (auto simp: ConnInfo_new_def split: prod.splits dest!: RawInfo_new_env env_le_eqs(2) intro: env_le_trans)

lemma encrypt_env: "encrypt p c e d = (r, e') \<Longrightarrow> env_le e e'"
  by (auto simp: encrypt_def split: prod.splits if_splits dest: env_le_eqs(5))

lemma encrypt_safer_vec_env: "encrypt_safer_vec p c e d g = Ret (r, e') \<Longrightarrow> env_le e e'"
  by (auto simp: encrypt_safer_vec_def rbind_eq_Ret split: prod.splits option.splits if_splits dest: encrypt_env)

lemma random_dropped_env: "random_dropped c e = (l, e') \<Longrightarrow> env_le e e'"
  by (auto simp: random_dropped_def split: prod.splits if_splits dest: env_le_eqs(6))

lemma build_segment_env:
  assumes "build_segment c e s payload = Ret (r, e')"
  shows "env_le e e'"
proof (cases "rc_raw_mode c")
  case FakeTcp
  obtain v e1 t e2 where "fast_random_u32 e = (v, e1)" "now_ms e1 = (t, e2)"
    by (meson surj_pair)
  moreover from this have "env_le e e2"
    by (meson env_le_eqs env_le_trans)
  ultimately show ?thesis
    using assms FakeTcp by (auto simp: build_segment_def Let_def rbind_eq_Ret)
qed (use assms in \<open>auto simp: build_segment_def rbind_eq_Ret split: option.splits\<close>)

text \<open>Where a raw connection sends from and to.\<close>

definition ends :: "RawInfo \<Rightarrow> IpAddr \<times> IpAddr \<times> u16" where
  "ends raw = (src_ip (send_info raw), dst_ip (send_info raw), dst_port (send_info raw))"

abbreviation family_ok :: "RawInfo \<Rightarrow> bool" where
  "family_ok raw \<equiv> same_family (src_ip (send_info raw)) (dst_ip (send_info raw))"

lemma ends_family: "ends raw' = ends raw \<Longrightarrow> family_ok raw' = family_ok raw"
  by (simp add: ends_def)

lemma send_raw_env:
  assumes "send_raw c e raw payload = Ret (c', e', raw')"
  shows "env_le e e'"
proof -
  obtain lost e0 where l: "random_dropped c e = (lost, e0)"
    by fastforce
  show ?thesis
  proof (cases "lost \<or> RawInfo.disabled raw")
    case True
    then show ?thesis
      using l assms random_dropped_env[OF l] by (cases lost) (auto simp: send_raw_def)
  next
    case False
    obtain r e1 where b: "build_segment c e0 (send_info raw) payload = Ret (r, e1)"
      using assms False l by (auto simp: send_raw_def Let_def rbind_eq_Ret)
    have "e' = e1"
      using assms False l b by (cases r) (auto simp: send_raw_def Let_def rbind_eq_Ret)
    then show ?thesis
      using env_le_trans[OF random_dropped_env[OF l] build_segment_env[OF b]] by simp
  qed
qed

lemma send_raw_ok:
  assumes "family_ok raw"
  shows "sat False (send_raw c e raw payload) (\<lambda>(c', e', raw').
    same_settings c c' \<and> env_le e e' \<and> ends raw' = ends raw)"
  using send_raw_total[OF assms, of c e payload] send_raw_env[of c e raw payload]
  by (auto simp: ends_def)

lemma ends_set_send_seq [simp]: "ends (set_send_seq v raw) = ends raw"
  by (simp add: ends_def set_send_seq_def)

lemma ends_after_send_real [simp]: "ends (after_send_real m len raw) = ends raw"
  by (simp add: after_send_real_def Let_def) (simp add: ends_def set_send_seq_def)

lemma after_send_ok:
  assumes "after_send c e raw = (e', raw')"
  shows "env_le e e'" "ends raw' = ends raw"
proof -
  have "env_le e e' \<and> ends raw' = ends raw"
  proof (cases "rc_raw_mode c")
    case FakeTcp
    obtain r e1 where r: "fast_random_u32 e = (r, e1)"
      by fastforce
    show ?thesis
      using assms FakeTcp r env_le_eqs(6)[OF r] by (auto simp: after_send_def Let_def split: if_splits)
  qed (use assms in \<open>auto simp: after_send_def ends_def split: if_splits\<close>)
  then show "env_le e e'" "ends raw' = ends raw"
    by simp_all
qed

lemma ends_after_recv [simp]: "ends (after_recv c raw m) = ends raw"
  by (cases "rc_raw_mode c") (simp_all add: after_recv_def ends_def Let_def)

lemma ends_sync_seq [simp]: "ends (sync_seq m raw) = ends raw"
  by (simp add: sync_seq_def ends_def Let_def)

lemma ends_fill_lower_level [simp]: "ends (fill_lower_level s raw) = ends raw"
  by (simp add: fill_lower_level_def ends_def)

lemma transmit_safer_ok:
  assumes "family_ok raw"
  shows "sat False (transmit_safer ctx e raw w) (\<lambda>(c', e', raw').
    same_settings ctx c' \<and> env_le e e' \<and> ends raw' = ends raw)"
  unfolding transmit_safer_def
  by (rule sat_bind[OF send_raw_ok[OF assms]])
     (auto split: prod.split dest: after_send_ok(2) intro: env_le_trans[OF _ after_send_ok(1)])

lemma send_handshake_ok:
  assumes "family_ok raw"
  shows "sat False (send_handshake p c ctx e raw a b d) (\<lambda>(c', e', raw', ok).
    same_settings ctx c' \<and> env_le e e' \<and> ends raw' = ends raw)"
proof -
  obtain iv e1 pad e2 where r: "secure_random_u64 e = (iv, e1)" "secure_random_u64 e1 = (pad, e2)"
    by (meson surj_pair)
  obtain w e3 where w: "encrypt p c e2 (build_bare (e_little e) iv pad (build_handshake a b d)) = (w, e3)"
    by fastforce
  have le: "env_le e e3"
    using r w by (meson env_le_eqs encrypt_env env_le_trans)
  show ?thesis
  proof (cases w)
    case (Some bs)
    have "sat False (send_raw ctx e3 raw bs) (\<lambda>(c', e', raw'). same_settings ctx c' \<and> env_le e e' \<and> ends raw' = ends raw)"
      by (rule sat_mono[OF send_raw_ok[OF assms]]) (use le env_le_trans in blast)
    then show ?thesis
      using Some by (auto simp: send_handshake_def send_bare_def r w elim!: sat_mono)
  qed (use le in \<open>simp add: send_handshake_def send_bare_def r w\<close>)
qed

lemma parse_recv_ok:
  "sat (rc_raw_mode c = FakeTcp) (parse_recv c raw buf ll) (\<lambda>(raw', d). ends raw' = ends raw)"
proof (cases "parse_recv c raw buf ll")
  case (Ret x)
  then show ?thesis
    using parse_recv_send_info[of c raw buf ll] by (cases x) (simp add: ends_def)
qed (simp add: parse_recv_panics)


section \<open>The pipeline never panics\<close>

definition pipe_ok :: "prims \<Rightarrow> Pipeline \<Rightarrow> bool" where
  "pipe_ok p pl \<longleftrightarrow> (\<exists>envs c g acc out. engine p c \<and> pipe_run p (Pipeline_new envs c g) pl acc out)"

lemma pipe_okI: "engine p c \<Longrightarrow> pipe_run p (Pipeline_new envs c g) pl acc out \<Longrightarrow> pipe_ok p pl"
  unfolding pipe_ok_def by blast

lemma process_ok:
  assumes "hash_lengths p" "aes_crate_ok p" "engine p c"
  shows "sat False (process p c g e job) (\<lambda>(d, e'). env_le e e')"
proof (cases job)
  case (EncryptJob key plain)
  then show ?thesis
    using encrypt_safer_vec_total[OF assms, of e plain g] by (auto dest: encrypt_safer_vec_env)
next
  case (DecryptJob key w m)
  then show ?thesis
    using decrypt_safer_vec_total[OF assms, of w g] by auto
qed

lemma pipe_ok_work: "pipe_ok p pl \<Longrightarrow> pipe_ok p (work p is pl)"
  unfolding pipe_ok_def using pipe_run_work by blast

lemma submit_ok:
  assumes "hash_lengths p" "aes_crate_ok p" "pipe_ok p pl"
  shows "sat False (submit p pl e job) (\<lambda>(pl', e', ok). pipe_ok p pl' \<and> env_le e e')"
proof -
  obtain envs c g acc out where r: "engine p c" "pipe_run p (Pipeline_new envs c g) pl acc out"
    using assms(3) by (auto simp: pipe_ok_def)
  note I = pipe_run_inv[OF r(2)]
  show ?thesis
  proof (cases "workers pl = []")
    case True
    then have "pl_crypto pl = c" "pl_fix_gro pl = g"
      using I by (auto simp: run_inv_def)
    then obtain d e' where d: "process p (pl_crypto pl) (pl_fix_gro pl) e job = Ret (d, e')" "env_le e e'"
      using process_ok[OF assms(1,2) r(1), of g e job] by (auto simp: sat_False)
    then have s: "submit p pl e job = Ret (pl\<lparr> inline_done := inline_done pl @ [d] \<rparr>, e', True)"
      using True by (simp add: submit_def)
    show ?thesis
      using pipe_okI[OF r(1) pipe_run.submit_inline[OF r(2) True s]] d(2) by (simp add: s)
  next
    case False
    let ?pl = "pl\<lparr> batch := batch pl @ [job] \<rparr>"
    have "run_inv p c g (length envs) ?pl acc out"
      using I False by (simp add: run_inv_def)
    then obtain f where f: "flush ?pl = Ret f"
      using run_inv_total(1) by blast
    have "\<exists>pl' ok. submit p pl e job = Ret (pl', e, ok)"
      using False f by (cases f) (auto simp: submit_def Let_def)
    then obtain pl' ok where s: "submit p pl e job = Ret (pl', e, ok)"
      by blast
    show ?thesis
      using pipe_okI[OF r(1) pipe_run.submit[OF r(2) False s]] by (simp add: s)
  qed
qed

lemma collect_ok:
  assumes "pipe_ok p pl"
  shows "sat False (collect p us pl) (\<lambda>(pl', ds). pipe_ok p pl')"
proof -
  obtain envs c g acc out where r: "engine p c" "pipe_run p (Pipeline_new envs c g) pl acc out"
    using assms by (auto simp: pipe_ok_def)
  obtain pl' ds where c: "collect p us pl = Ret (pl', ds)"
    using run_inv_total(2)[OF pipe_run_inv[OF r(2)], of us] by auto
  have "\<exists>acc' out'. pipe_run p (Pipeline_new envs c g) pl' acc' out'"
  proof (cases "workers pl = []")
    case True
    then show ?thesis
      using pipe_run.collect_inline[OF r(2) True c] by blast
  next
    case False
    then obtain pl1 ok where f: "flush (work p (turn us) pl) = Ret (pl1, ok)" "collect_loop p (tl us) pl1 = Ret (pl', ds)"
      using c by (auto simp: collect_def rbind_eq_Ret)
    show ?thesis
      using collect_loop_run[OF pipe_run.flush[OF pipe_run_work[OF r(2)] f(1)] f(2)] by blast
  qed
  then show ?thesis
    using pipe_okI[OF r(1)] by (auto simp: c)
qed

end
