(* ===== verification/Server_Tables.thy ===== *)
theory Server_Tables
  imports Server
begin

text \<open>
  The lookup tables of the server (\<open>src/src/server.rs\<close>): when they agree with each other, and that
  the updates the handlers make keep them in agreement. The tables are functions here; the
  theory \<open>Server_Inv\<close> connects them with the state.
\<close>


section \<open>The tables\<close>

text \<open>What the tables see of a connection: its address, its client id once it is ready, its
  conversations and its generation.\<close>

type_synonym 'a entry = "'a \<times> u32 option \<times> nat ConvManager \<times> nat"

definition view :: "ServerConn \<Rightarrow> ip_port entry" where
  "view c = (sc_addr c, (if sc_state c = SReady then Some (oppsite_const_id (sc_info c)) else None), sc_convs c,
     sc_generation c)"

text \<open>Every entry alone: a well-formed conversation table, empty before the connection is ready,
  and a generation of the past that no other entry has.\<close>

fun entry_fine :: "nat \<Rightarrow> 'a entry \<Rightarrow> bool" where
  "entry_fine g (a, r, m, h) \<longleftrightarrow> cm_wf m \<and> (r = None \<longrightarrow> conv_to_data m = Map.empty) \<and> h < g"

fun gen :: "'a entry \<Rightarrow> nat" where
  "gen (a, r, m, h) = h"

definition entries_ok :: "(nat \<rightharpoonup> 'a entry) \<Rightarrow> nat \<Rightarrow> bool" where
  "entries_ok T g \<longleftrightarrow> (\<forall>i x. T i = Some x \<longrightarrow> entry_fine g x) \<and>
     (\<forall>i j x y. T i = Some x \<longrightarrow> T j = Some y \<longrightarrow> gen x = gen y \<longrightarrow> i = j)"

text \<open>The tables agree: addresses and client ids lead to the connection that has them, a socket
  is open exactly for a conversation of a ready connection.\<close>

definition tables_ok ::
  "(nat \<rightharpoonup> 'a entry) \<Rightarrow> ('a \<rightharpoonup> nat) \<Rightarrow> (u32 \<rightharpoonup> nat) \<Rightarrow> (nat \<rightharpoonup> nat \<times> u32) \<Rightarrow> nat \<Rightarrow> bool" where
  "tables_ok T A K S g \<longleftrightarrow> entries_ok T g \<and>
     (\<forall>a i. A a = Some i \<longleftrightarrow> (\<exists>r m h. T i = Some (a, r, m, h))) \<and>
     (\<forall>k i. K k = Some i \<longleftrightarrow> (\<exists>a m h. T i = Some (a, Some k, m, h))) \<and>
     (\<forall>j i v. S j = Some (i, v) \<longleftrightarrow> (\<exists>a r m h. T i = Some (a, r, m, h) \<and> conv_to_data m v = Some j))"

lemma entries_okD:
  assumes "entries_ok T g" "T i = Some x"
  shows "entry_fine g x" "T j = Some y \<Longrightarrow> gen x = gen y \<Longrightarrow> i = j"
  using assms unfolding entries_ok_def by blast+

lemma entry_fine_mono: "entry_fine g x \<Longrightarrow> g \<le> g' \<Longrightarrow> entry_fine g' x"
  by (cases x) simp

lemma entries_put:
  assumes "entries_ok T g" "g \<le> g'" "entry_fine g' x" "\<And>j y. j \<noteq> i \<Longrightarrow> T j = Some y \<Longrightarrow> gen y \<noteq> gen x"
  shows "entries_ok (T(i \<mapsto> x)) g'"
  unfolding entries_ok_def
proof (intro conjI allI impI)
  fix j y assume "(T(i \<mapsto> x)) j = Some y"
  then show "entry_fine g' y"
    using assms(2,3) entry_fine_mono[OF entries_okD(1)[OF assms(1)]] by (cases "j = i") simp_all
next
  fix j l y z assume "(T(i \<mapsto> x)) j = Some y" "(T(i \<mapsto> x)) l = Some z" "gen y = gen z"
  then show "j = l"
    using assms(4)[of j y] assms(4)[of l z] entries_okD(2)[OF assms(1), of j y l z]
    by (cases "j = i"; cases "l = i") simp_all
qed

lemma entries_del: "entries_ok T g \<Longrightarrow> entries_ok (T(i := None)) g"
  by (simp add: entries_ok_def)

lemma entries_same_gen:
  assumes "entries_ok T g" "T i = Some y" "gen x = gen y" "entry_fine g x"
  shows "entries_ok (T(i \<mapsto> x)) g"
  using assms by (intro entries_put) (auto dest: entries_okD(2)[OF assms(1)])

lemma entries_new_gen: "entries_ok T g \<Longrightarrow> T j = Some y \<Longrightarrow> gen y < g"
  by (drule (1) entries_okD(1)) (cases y, simp)

lemma tables_okI:
  assumes "entries_ok T g"
    and "\<And>a i. A a = Some i \<longleftrightarrow> (\<exists>r m h. T i = Some (a, r, m, h))"
    and "\<And>k i. K k = Some i \<longleftrightarrow> (\<exists>a m h. T i = Some (a, Some k, m, h))"
    and "\<And>j i v. S j = Some (i, v) \<longleftrightarrow> (\<exists>a r m h. T i = Some (a, r, m, h) \<and> conv_to_data m v = Some j)"
  shows "tables_ok T A K S g"
  unfolding tables_ok_def using assms by simp

lemma tables_okD:
  assumes "tables_ok T A K S g"
  shows "entries_ok T g"
    and "A a = Some i \<longleftrightarrow> (\<exists>r m h. T i = Some (a, r, m, h))"
    and "K k = Some i \<longleftrightarrow> (\<exists>a m h. T i = Some (a, Some k, m, h))"
    and "S j = Some (i, v) \<longleftrightarrow> (\<exists>a r m h. T i = Some (a, r, m, h) \<and> conv_to_data m v = Some j)"
  using assms unfolding tables_ok_def by simp_all

lemma tables_entry:
  assumes "tables_ok T A K S g" "T i = Some (a, r, m, h)"
  shows "cm_wf m" "r = None \<Longrightarrow> conv_to_data m = Map.empty" "h < g"
  using entries_okD(1)[OF tables_okD(1)[OF assms(1)] assms(2)] by simp_all

lemma tables_unique:
  assumes "tables_ok T A K S g" "T i = Some (a, r, m, h)" "T j = Some (b, q, n, l)"
  shows "a = b \<Longrightarrow> i = j" "r = Some k \<Longrightarrow> q = Some k \<Longrightarrow> i = j"
    "conv_to_data m v = Some x \<Longrightarrow> conv_to_data n w = Some x \<Longrightarrow> i = j \<and> v = w"
proof -
  show "i = j" if "a = b"
  proof -
    have "A a = Some i" "A a = Some j"
      unfolding tables_okD(2)[OF assms(1)] using assms(2,3) that by simp_all
    then show ?thesis
      by simp
  qed
  show "i = j" if "r = Some k" "q = Some k"
  proof -
    have "K k = Some i" "K k = Some j"
      unfolding tables_okD(3)[OF assms(1)] using assms(2,3) that by simp_all
    then show ?thesis
      by simp
  qed
  show "i = j \<and> v = w" if "conv_to_data m v = Some x" "conv_to_data n w = Some x"
  proof -
    have "S x = Some (i, v)" "S x = Some (j, w)"
      unfolding tables_okD(4)[OF assms(1)] using assms(2,3) that by simp_all
    then show ?thesis
      by simp
  qed
qed

text \<open>A new connection in its handshake.\<close>

lemma tables_new:
  assumes ok: "tables_ok T A K S g" and i: "T i = None" and a: "A a = None"
  shows "tables_ok (T(i \<mapsto> (a, None, cm_new, g))) (A(a \<mapsto> i)) K S (Suc g)"
proof (rule tables_okI)
  show "entries_ok (T(i \<mapsto> (a, None, cm_new, g))) (Suc g)"
    by (rule entries_put[OF tables_okD(1)[OF ok]])
       (auto simp: cm_new_wf dest: entries_new_gen[OF tables_okD(1)[OF ok]], simp add: cm_new_def)
  fix b j l v
  show "(A(a \<mapsto> i)) b = Some j \<longleftrightarrow> (\<exists>r m h. (T(i \<mapsto> (a, None, cm_new, g))) j = Some (b, r, m, h))"
    using tables_okD(2)[OF ok, of b j] tables_okD(2)[OF ok, of a j] i a by (cases "j = i"; cases "b = a") auto
  show "K k = Some j \<longleftrightarrow> (\<exists>b m h. (T(i \<mapsto> (a, None, cm_new, g))) j = Some (b, Some k, m, h))" for k
    using tables_okD(3)[OF ok, of k j] i by (cases "j = i") simp_all
  show "S j = Some (l, v) \<longleftrightarrow>
      (\<exists>b r m h. (T(i \<mapsto> (a, None, cm_new, g))) l = Some (b, r, m, h) \<and> conv_to_data m v = Some j)"
    using tables_okD(4)[OF ok, of j l v] i by (cases "l = i") (simp_all add: cm_new_def)
qed

text \<open>The handshake completes.\<close>

lemma tables_ready:
  assumes ok: "tables_ok T A K S g" and i: "T i = Some (a, None, m, h)" and k: "K k = None"
  shows "tables_ok (T(i \<mapsto> (a, Some k, m, h))) A (K(k \<mapsto> i)) S g"
proof (rule tables_okI)
  show "entries_ok (T(i \<mapsto> (a, Some k, m, h))) g"
    by (rule entries_same_gen[OF tables_okD(1)[OF ok] i]) (use tables_entry[OF ok i] in simp_all)
  fix b j l v q
  show "A b = Some j \<longleftrightarrow> (\<exists>r n h'. (T(i \<mapsto> (a, Some k, m, h))) j = Some (b, r, n, h'))"
    using tables_okD(2)[OF ok, of b j] i by (cases "j = i") auto
  show "(K(k \<mapsto> i)) q = Some j \<longleftrightarrow> (\<exists>b n h'. (T(i \<mapsto> (a, Some k, m, h))) j = Some (b, Some q, n, h'))"
    using tables_okD(3)[OF ok, of q j] tables_okD(3)[OF ok, of k j] i k by (cases "j = i"; cases "q = k") auto
  show "S j = Some (l, v) \<longleftrightarrow>
      (\<exists>b r n h'. (T(i \<mapsto> (a, Some k, m, h))) l = Some (b, r, n, h') \<and> conv_to_data n v = Some j)"
    using tables_okD(4)[OF ok, of j l v] i by (cases "l = i") simp_all
qed

text \<open>A returning client: its new address goes to the established connection, the fresh
  connection keeps the old address.\<close>

lemma tables_swap:
  assumes ok: "tables_ok T A K S g" and i: "T i = Some (a, None, m, h)" and j: "T j = Some (b, Some k, n, l)"
  shows "tables_ok (T(j \<mapsto> (a, Some k, n, g), i \<mapsto> (b, None, m, h))) (A(a \<mapsto> j, b \<mapsto> i)) K S (Suc g)"
proof (rule tables_okI)
  have ij: "i \<noteq> j"
    using i j by auto
  have ab: "a \<noteq> b"
    using tables_unique(1)[OF ok i j] ij by blast
  have "entries_ok (T(j \<mapsto> (a, Some k, n, g))) (Suc g)"
    by (rule entries_put[OF tables_okD(1)[OF ok]])
       (use tables_entry[OF ok j] in \<open>auto dest: entries_new_gen[OF tables_okD(1)[OF ok]]\<close>)
  then show "entries_ok (T(j \<mapsto> (a, Some k, n, g), i \<mapsto> (b, None, m, h))) (Suc g)"
    by (rule entries_same_gen[of _ _ i "(a, None, m, h)"]) (use ij i tables_entry[OF ok i] in simp_all)
  have addr: "T x = Some (a, r, w, h') \<longleftrightarrow> x = i \<and> r = None \<and> w = m \<and> h' = h"
      "T x = Some (b, r, w, h') \<longleftrightarrow> x = j \<and> r = Some k \<and> w = n \<and> h' = l" for x r w h'
    using tables_unique(1)[OF ok i, of x a] tables_unique(1)[OF ok j, of x b] i j by auto
  fix c x q y v
  show "(A(a \<mapsto> j, b \<mapsto> i)) c = Some x \<longleftrightarrow>
      (\<exists>r w h'. (T(j \<mapsto> (a, Some k, n, g), i \<mapsto> (b, None, m, h))) x = Some (c, r, w, h'))"
    using tables_okD(2)[OF ok, of c x] i j ij ab addr by (cases "x = i"; cases "x = j"; cases "c = a"; cases "c = b") simp_all
  show "K q = Some x \<longleftrightarrow>
      (\<exists>c w h'. (T(j \<mapsto> (a, Some k, n, g), i \<mapsto> (b, None, m, h))) x = Some (c, Some q, w, h'))"
    using tables_okD(3)[OF ok, of q x] i j ij by (cases "x = i"; cases "x = j") simp_all
  show "S x = Some (y, v) \<longleftrightarrow>
      (\<exists>c r w h'. (T(j \<mapsto> (a, Some k, n, g), i \<mapsto> (b, None, m, h))) y = Some (c, r, w, h') \<and> conv_to_data w v = Some x)"
    using tables_okD(4)[OF ok, of x y v] tables_entry(2)[OF ok i] i j ij by (cases "y = i"; cases "y = j") simp_all
qed

text \<open>A connection is erased together with its sockets.\<close>

lemma tables_erase:
  assumes ok: "tables_ok T A K S g" and i: "T i = Some (a, r, m, h)"
    and K': "\<And>q. K' q = (if r = Some q then None else K q)"
    and S': "\<And>j. S' j = (if j \<in> ran (conv_to_data m) then None else S j)"
  shows "tables_ok (T(i := None)) (A(a := None)) K' S' g"
proof (rule tables_okI)
  show "entries_ok (T(i := None)) g"
    by (rule entries_del[OF tables_okD(1)[OF ok]])
  have addr: "T x = Some (a, q, w, h') \<longleftrightarrow> x = i \<and> q = r \<and> w = m \<and> h' = h" for x q w h'
    using tables_unique(1)[OF ok i, of x a] i by auto
  fix c x q y v
  show "(A(a := None)) c = Some x \<longleftrightarrow> (\<exists>r m h. (T(i := None)) x = Some (c, r, m, h))"
    using tables_okD(2)[OF ok, of c x] i addr by (cases "x = i"; cases "c = a") simp_all
  have ids: "r = Some q \<Longrightarrow> x \<noteq> i \<Longrightarrow> \<not> (\<exists>c m h. T x = Some (c, Some q, m, h))"
    using tables_unique(2)[OF ok i, of x _ _ _ _ q] by blast
  show "K' q = Some x \<longleftrightarrow> (\<exists>c m h. (T(i := None)) x = Some (c, Some q, m, h))"
    using tables_okD(3)[OF ok, of q x] i ids by (cases "x = i"; cases "r = Some q") (simp_all add: K')
  have socks: "x \<in> ran (conv_to_data m) \<Longrightarrow> y \<noteq> i \<Longrightarrow> \<not> (\<exists>c r n h. T y = Some (c, r, n, h) \<and> conv_to_data n v = Some x)"
    unfolding ran_def using tables_unique(3)[OF ok i] by blast
  show "S' x = Some (y, v) \<longleftrightarrow> (\<exists>c r m h. (T(i := None)) y = Some (c, r, m, h) \<and> conv_to_data m v = Some x)"
    using tables_okD(4)[OF ok, of x y v] i socks
    by (cases "y = i"; cases "x \<in> ran (conv_to_data m)") (auto simp: S' ran_def)
qed

text \<open>The conversations of a ready connection change, and the sockets with them.\<close>

lemma tables_convs:
  assumes ok: "tables_ok T A K S g" and i: "T i = Some (a, Some k, m, h)" and wf: "cm_wf n"
    and S': "\<And>x y v. S' x = Some (y, v) \<longleftrightarrow>
      (if y = i then conv_to_data n v = Some x else S x = Some (y, v))"
  shows "tables_ok (T(i \<mapsto> (a, Some k, n, h))) A K S' g"
proof (rule tables_okI)
  show "entries_ok (T(i \<mapsto> (a, Some k, n, h))) g"
    by (rule entries_same_gen[OF tables_okD(1)[OF ok] i]) (use tables_entry[OF ok i] wf in simp_all)
  fix c x q y v
  show "A c = Some x \<longleftrightarrow> (\<exists>r w h'. (T(i \<mapsto> (a, Some k, n, h))) x = Some (c, r, w, h'))"
    using tables_okD(2)[OF ok, of c x] i by (cases "x = i") auto
  show "K q = Some x \<longleftrightarrow> (\<exists>c w h'. (T(i \<mapsto> (a, Some k, n, h))) x = Some (c, Some q, w, h'))"
    using tables_okD(3)[OF ok, of q x] i by (cases "x = i") auto
  show "S' x = Some (y, v) \<longleftrightarrow>
      (\<exists>c r w h'. (T(i \<mapsto> (a, Some k, n, h))) y = Some (c, r, w, h') \<and> conv_to_data w v = Some x)"
    using tables_okD(4)[OF ok, of x y v] i by (cases "y = i") (simp_all add: S')
qed

lemma tables_open:
  assumes ok: "tables_ok T A K S g" and i: "T i = Some (a, Some k, m, h)" and j: "S j = None"
    and v: "conv_to_data m v = None"
  shows "tables_ok (T(i \<mapsto> (a, Some k, cm_insert m v j now, h))) A K (S(j \<mapsto> (i, v))) g"
proof (rule tables_convs[OF ok i])
  have wf: "cm_wf m"
    by (rule tables_entry(1)[OF ok i])
  have own: "S x = Some (i, w) \<longleftrightarrow> conv_to_data m w = Some x" for x w
    using tables_okD(4)[OF ok, of x i w] i by simp
  have "conv_to_data m w \<noteq> Some j" for w
    using own[of j w] j by simp
  then have "data_to_conv m j = None"
    using cm_wf_bij[OF wf, of j] by (metis not_None_eq)
  then show "cm_wf (cm_insert m v j now)"
    using v by (intro cm_insert_wf[OF wf]) (simp_all add: is_conv_used_def is_data_used_def)
  show "(S(j \<mapsto> (i, v))) x = Some (y, w) \<longleftrightarrow>
      (if y = i then conv_to_data (cm_insert m v j now) w = Some x else S x = Some (y, w))" for x y w
    using own[of x w] own[of j w] v j by (cases "x = j"; cases "w = v") (auto simp: cm_insert_def)
qed

lemma tables_touch:
  assumes ok: "tables_ok T A K S g" and i: "T i = Some (a, Some k, m, h)"
    and "cm_wf n" "conv_to_data n = conv_to_data m"
  shows "tables_ok (T(i \<mapsto> (a, Some k, n, h))) A K S g"
  by (rule tables_convs[OF ok i]) (use assms tables_okD(4)[OF ok] in auto)

lemma tables_expire:
  assumes ok: "tables_ok T A K S g" and i: "T i = Some (a, Some k, m, h)"
    and n: "cm_wf n" "conv_to_data n = conv_to_data m |` (- fst ` set out)"
    and out: "\<And>v d. (v, d) \<in> set out \<Longrightarrow> conv_to_data m v = Some d"
    and S': "\<And>j. S' j = (if j \<in> snd ` set out then None else S j)"
  shows "tables_ok (T(i \<mapsto> (a, Some k, n, h))) A K S' g"
proof (rule tables_convs[OF ok i n(1)])
  have own: "S x = Some (i, w) \<longleftrightarrow> conv_to_data m w = Some x" for x w
    using tables_okD(4)[OF ok, of x i w] i by simp
  fix x y v
  have closed: "x \<in> snd ` set out \<longleftrightarrow> (\<exists>w \<in> fst ` set out. conv_to_data m w = Some x)"
    using out by force
  show "S' x = Some (y, v) \<longleftrightarrow> (if y = i then conv_to_data n v = Some x else S x = Some (y, v))"
  proof (cases "x \<in> snd ` set out")
    case True
    then obtain w where w: "w \<in> fst ` set out" "conv_to_data m w = Some x"
      using closed by blast
    then have "S x = Some (i, w)"
      using own by simp
    then show ?thesis
      using True w own[of x v] by (auto simp: S' n(2) restrict_map_def)
  next
    case False
    then show ?thesis
      using own[of x v] closed by (auto simp: S' n(2) restrict_map_def)
  qed
qed

end
