(* ===== verification/Server_Inv.thy ===== *)
theory Server_Inv
  imports Server_Frame Server_Tables
begin

text \<open>
  The invariant of the server (\<open>src/src/server.rs\<close>) and its preservation by the handlers of
  packets from clients; the other handlers follow in \<open>Server_Loop\<close>. The four lookup structures (slots, addresses, client ids, conversation sockets) describe the same
  connections, a connection sends to the address it is registered under, no stored time is in
  the future; from this follows that no index, \<open>unwrap\<close>, \<open>expect\<close> or subtraction of the event
  loop can panic, other than in the TCP header parser.
\<close>


section \<open>The invariant\<close>

abbreviation conn :: "Server \<Rightarrow> nat \<Rightarrow> ServerConn option" where
  "conn s \<equiv> slot_get (conns s)"

definition tab :: "Server \<Rightarrow> nat \<Rightarrow> ip_port entry option" where
  "tab s i = map_option view (conn s i)"

definition owner :: "ConvSock option list \<Rightarrow> nat \<Rightarrow> (nat \<times> u32) option" where
  "owner ss j = map_option (\<lambda>k. (cs_conn_slot k, cs_conv k)) (slot_get ss j)"

definition ready_slots :: "(nat \<rightharpoonup> 'a entry) \<Rightarrow> nat set" where
  "ready_slots T = {i. \<exists>a k m h. T i = Some (a, Some k, m, h)}"

text \<open>One connection at time \<open>t\<close>: it sends to the address it is registered under.\<close>

definition conn_ok :: "nat \<Rightarrow> ServerConn \<Rightarrow> bool" where
  "conn_ok t c \<longleftrightarrow> family_ok (ci_raw (sc_info c)) \<and> ar_wf (anti_replay (sc_info c)) \<and>
     (sc_state c \<noteq> SIdle \<longrightarrow> (dst_ip (send_info (ci_raw (sc_info c))), dst_port (send_info (ci_raw (sc_info c)))) = sc_addr c) \<and>
     last_state_time (sc_info c) \<le> t \<and> last_hb_recv_time (sc_info c) \<le> t \<and> last_hb_sent_time (sc_info c) \<le> t"

definition clk :: "Server \<Rightarrow> nat" where
  "clk s = e_clock (sv_env s) (e_tick (sv_env s))"

definition order_ok :: "(nat set \<Rightarrow> nat list) \<Rightarrow> bool" where
  "order_ok f \<longleftrightarrow> (\<forall>A. finite A \<longrightarrow> distinct (f A) \<and> set (f A) = A)"

definition tables_inv :: "Server \<Rightarrow> bool" where
  "tables_inv s \<longleftrightarrow> slots_wf (conns s) (free_conns s) \<and> slots_wf (socks s) (free_socks s) \<and>
     tables_ok (tab s) (by_addr s) (by_const_id s) (owner (socks s)) (next_generation s) \<and>
     ready_num s = card (ready_slots (tab s)) \<and> ready_num s \<le> MAX_READY_CONN_NUM \<and>
     length (conns s) - length (free_conns s) \<le> MAX_HANDSHAKE_CONN_NUM"

definition rest_inv :: "prims \<Rightarrow> Config \<Rightarrow> Server \<Rightarrow> bool" where
  "rest_inv p cfg s \<longleftrightarrow> (\<forall>i c. conn s i = Some c \<longrightarrow> conn_ok (clk s) c) \<and> mono (e_clock (sv_env s)) \<and>
     sv_cfg s = cfg \<and> rc_raw_mode (sv_ctx s) = cfg_raw_mode cfg \<and> engine p (sv_crypto s) \<and>
     pipe_ok p (sv_pipe s) \<and> order_ok (sv_order s) \<and> (\<forall>j \<in> set (socks_pending s). j < length (socks s))"

definition server_inv :: "prims \<Rightarrow> Config \<Rightarrow> Server \<Rightarrow> bool" where
  "server_inv p cfg s \<longleftrightarrow> tables_inv s \<and> rest_inv p cfg s"

lemma server_invD:
  assumes "server_inv p cfg s"
  shows "slots_wf (conns s) (free_conns s)" "slots_wf (socks s) (free_socks s)"
    "tables_ok (tab s) (by_addr s) (by_const_id s) (owner (socks s)) (next_generation s)"
    "ready_num s = card (ready_slots (tab s))" "ready_num s \<le> MAX_READY_CONN_NUM"
    "mono (e_clock (sv_env s))" "sv_cfg s = cfg" "rc_raw_mode (sv_ctx s) = cfg_raw_mode cfg" "engine p (sv_crypto s)"
    "pipe_ok p (sv_pipe s)" "order_ok (sv_order s)" "conn s i = Some c \<Longrightarrow> conn_ok (clk s) c"
  using assms by (simp_all add: server_inv_def tables_inv_def rest_inv_def)

lemma conn_ok_mono: "conn_ok t c \<Longrightarrow> t \<le> t' \<Longrightarrow> conn_ok t' c"
  by (auto simp: conn_ok_def)

lemma finite_ready: "finite (ready_slots (tab s))"
proof (rule finite_subset)
  show "ready_slots (tab s) \<subseteq> {..<length (conns s)}"
    by (auto simp: ready_slots_def tab_def slot_get_def split: if_splits)
qed simp

text \<open>The relevant fields of a state determine the invariant, given the time.\<close>

lemma inv_cong:
  assumes "server_inv p cfg s" "conns s' = conns s" "free_conns s' = free_conns s" "socks s' = socks s"
    "free_socks s' = free_socks s" "by_addr s' = by_addr s" "by_const_id s' = by_const_id s"
    "ready_num s' = ready_num s" "next_generation s' = next_generation s" "sv_order s' = sv_order s"
    "sv_cfg s' = sv_cfg s" "sv_crypto s' = sv_crypto s"
    "\<forall>j \<in> set (socks_pending s'). j < length (socks s)"
    "same_settings (sv_ctx s) (sv_ctx s')" "env_le (sv_env s) (sv_env s')" "pipe_ok p (sv_pipe s')"
  shows "server_inv p cfg s'" "clk s \<le> clk s'"
proof -
  show clk: "clk s \<le> clk s'"
    using assms(1,15) by (auto simp: clk_def env_le_def server_inv_def rest_inv_def monoD)
  have "tab s' = tab s"
    by (rule ext) (simp add: tab_def assms)
  then have "tables_inv s'"
    using assms(1) by (simp add: server_inv_def tables_inv_def assms(2-12))
  moreover have "conn s i = Some c \<Longrightarrow> conn_ok (clk s') c" for i c
    using assms(1) clk by (auto simp: server_inv_def rest_inv_def intro: conn_ok_mono)
  moreover have "mono (e_clock (sv_env s'))" "rc_raw_mode (sv_ctx s') = cfg_raw_mode cfg"
    using assms(1,14,15) by (simp_all add: server_inv_def rest_inv_def env_le_def same_settings_def)
  ultimately show "server_inv p cfg s'"
    using assms(1,13,16) by (simp add: server_inv_def rest_inv_def assms(2-12))
qed

text \<open>Two states between which the tables did not change, and time went on.\<close>

definition quiet :: "prims \<Rightarrow> Config \<Rightarrow> Server \<Rightarrow> Server \<Rightarrow> bool" where
  "quiet p cfg s s' \<longleftrightarrow> server_inv p cfg s' \<and> tab s' = tab s \<and> socks s' = socks s \<and> clk s \<le> clk s' \<and>
     length (conns s') = length (conns s) \<and> (\<forall>i c. conn s i = Some c \<longrightarrow>
       (\<exists>c'. conn s' i = Some c' \<and> sc_state c' = sc_state c))"

lemma quiet_refl [simp]: "quiet p cfg s s = server_inv p cfg s"
  by (auto simp: quiet_def)

lemma quiet_trans: "quiet p cfg a b \<Longrightarrow> quiet p cfg b c \<Longrightarrow> quiet p cfg a c"
  unfolding quiet_def by fastforce

lemma quiet_inv: "quiet p cfg s s' \<Longrightarrow> server_inv p cfg s'"
  by (simp add: quiet_def)

lemma quiet_conn:
  assumes "quiet p cfg s s'" "conn s i = Some c"
  obtains c' where "conn s' i = Some c'" "view c' = view c" "sc_state c' = sc_state c"
proof -
  obtain c' where "conn s' i = Some c'" "sc_state c' = sc_state c"
    using assms unfolding quiet_def by blast
  moreover have "tab s' i = tab s i"
    using assms(1) by (simp add: quiet_def)
  ultimately show thesis
    using assms(2) that by (simp add: tab_def)
qed

lemma quiet_io:
  assumes "server_inv p cfg s" "same_settings (sv_ctx s) c" "env_le (sv_env s) e" "pipe_ok p pl"
  shows "quiet p cfg s (s\<lparr> sv_ctx := c, sv_env := e, sv_pipe := pl, sv_tick := t \<rparr>)"
proof -
  have "server_inv p cfg (s\<lparr> sv_ctx := c, sv_env := e, sv_pipe := pl, sv_tick := t \<rparr>) \<and>
      clk s \<le> clk (s\<lparr> sv_ctx := c, sv_env := e, sv_pipe := pl, sv_tick := t \<rparr>)"
    by (intro conjI inv_cong[OF assms(1)]) (use assms in \<open>simp_all add: server_inv_def rest_inv_def\<close>)
  then show ?thesis
    by (auto simp: quiet_def tab_def)
qed

lemma quiet_env: "server_inv p cfg s \<Longrightarrow> env_le (sv_env s) e \<Longrightarrow> quiet p cfg s (s\<lparr> sv_env := e \<rparr>)"
  using quiet_io[of p cfg s "sv_ctx s" e "sv_pipe s" "sv_tick s"] server_invD(10)[of p cfg s] by (cases s) simp

lemma quiet_send:
  "server_inv p cfg s \<Longrightarrow> same_settings (sv_ctx s) c \<Longrightarrow> env_le (sv_env s) e \<Longrightarrow>
   quiet p cfg s (s\<lparr> sv_ctx := c, sv_env := e \<rparr>)"
  using quiet_io[of p cfg s c e "sv_pipe s" "sv_tick s"] server_invD(10)[of p cfg s] by (cases s) simp

lemma quiet_pipe:
  "server_inv p cfg s \<Longrightarrow> pipe_ok p pl \<Longrightarrow> env_le (sv_env s) e \<Longrightarrow>
   quiet p cfg s (s\<lparr> sv_pipe := pl, sv_env := e, sv_tick := t \<rparr>)"
  using quiet_io[of p cfg s "sv_ctx s" e pl t] by (cases s) simp

lemma conn_put: "conn s i \<noteq> None \<Longrightarrow> conn (put_conn i c s) j = (if j = i then Some c else conn s j)"
  by (auto simp: put_conn_def slot_get_update slot_get_def split: if_splits)

lemma tab_put: "conn s i \<noteq> None \<Longrightarrow> tab (put_conn i c s) = (tab s)(i \<mapsto> view c)"
  by (rule ext) (simp add: tab_def conn_put)

lemma put_conn_simps [simp]:
  "sv_cfg (put_conn i c s) = sv_cfg s" "sv_crypto (put_conn i c s) = sv_crypto s" "sv_ctx (put_conn i c s) = sv_ctx s"
  "sv_env (put_conn i c s) = sv_env s" "sv_pipe (put_conn i c s) = sv_pipe s"
  "free_conns (put_conn i c s) = free_conns s" "by_addr (put_conn i c s) = by_addr s"
  "by_const_id (put_conn i c s) = by_const_id s" "ready_num (put_conn i c s) = ready_num s"
  "socks (put_conn i c s) = socks s" "free_socks (put_conn i c s) = free_socks s"
  "next_generation (put_conn i c s) = next_generation s" "sv_order (put_conn i c s) = sv_order s"
  "socks_pending (put_conn i c s) = socks_pending s" "length (conns (put_conn i c s)) = length (conns s)"
  "hb_buf (put_conn i c s) = hb_buf s" "clk (put_conn i c s) = clk s"
  by (simp_all add: put_conn_def clk_def)

lemma slots_put: "server_inv p cfg s \<Longrightarrow> conn s i \<noteq> None \<Longrightarrow> slots_wf (conns (put_conn i c s)) (free_conns s)"
  using slots_wf_put[of "conns s" "free_conns s" i c] by (simp add: server_invD(1) put_conn_def)

lemma tab_cong: "conns s' = conns s \<Longrightarrow> tab s' = tab s"
  by (rule ext) (simp add: tab_def)

lemma tab_Some: "tab s i = Some e \<longleftrightarrow> (\<exists>c. conn s i = Some c \<and> view c = e)"
  by (auto simp: tab_def)

lemma inv_put:
  assumes "server_inv p cfg s" "conn s i = Some c" "view c' = view c" "conn_ok (clk s) c'"
  shows "server_inv p cfg (put_conn i c' s)"
proof -
  have "tab (put_conn i c' s) = tab s"
    using assms(2,3) tab_put[of s i c'] by (auto simp: tab_def)
  then have "tables_inv (put_conn i c' s)"
    using assms(1,2) slots_put[OF assms(1), of i c'] by (simp add: server_inv_def tables_inv_def)
  then show ?thesis
    using assms(1,2,4) by (auto simp: server_inv_def rest_inv_def conn_put split: if_splits)
qed

lemma quiet_put:
  assumes "server_inv p cfg s" "conn s i = Some c" "view c' = view c" "conn_ok (clk s) c'" "sc_state c' = sc_state c"
  shows "quiet p cfg s (put_conn i c' s)"
  using inv_put[OF assms(1-4)] assms(2,3,5) tab_put[of s i c']
  by (auto simp: quiet_def conn_put tab_def split: if_splits)

text \<open>Reading the clock.\<close>

lemma now_ms_ok:
  assumes "server_inv p cfg s" "now_ms (sv_env s) = (now, e)"
  shows "quiet p cfg s (s\<lparr> sv_env := e \<rparr>)" "now \<le> clk (s\<lparr> sv_env := e \<rparr>)" "clk s = now"
proof -
  show q: "quiet p cfg s (s\<lparr> sv_env := e \<rparr>)"
    using assms env_le_eqs(1) quiet_env by blast
  show "clk s = now"
    using assms(2) by (auto simp: now_ms_def clk_def)
  then show "now \<le> clk (s\<lparr> sv_env := e \<rparr>)"
    using q by (simp add: quiet_def)
qed


section \<open>Sending\<close>

lemma conn_at_Some [simp]: "conn s i = Some c \<Longrightarrow> conn_at s i = Ret c"
  by (simp add: conn_at_def)

lemma next_seq_wf: "next_seq_for_send ar = (v, ar') \<Longrightarrow> ar_wf ar' = ar_wf ar"
  by (auto simp: next_seq_for_send_def inv_simps)

text \<open>What a change of the session data of a connection must keep.\<close>

definition info_step :: "nat \<Rightarrow> ConnInfo \<Rightarrow> ConnInfo \<Rightarrow> bool" where
  "info_step t i i' \<longleftrightarrow> ends (ci_raw i') = ends (ci_raw i) \<and> (ar_wf (anti_replay i) \<longrightarrow> ar_wf (anti_replay i')) \<and>
     oppsite_const_id i' = oppsite_const_id i \<and>
     (\<forall>f \<in> {last_state_time, last_hb_recv_time, last_hb_sent_time}. f i' = f i \<or> f i' \<le> t)"

lemma info_step_ok:
  assumes "info_step t (sc_info c) i'" "conn_ok t c"
  shows "conn_ok t (c\<lparr> sc_info := i' \<rparr>)" "view (c\<lparr> sc_info := i' \<rparr>) = view c"
  using assms by (auto simp: info_step_def conn_ok_def view_def ends_def)

lemma quiet_info:
  assumes "server_inv p cfg s" "conn s i = Some c" "info_step (clk s) (sc_info c) i'"
  shows "quiet p cfg s (put_conn i (c\<lparr> sc_info := i' \<rparr>) s)"
  using quiet_put[OF assms(1,2)] info_step_ok[OF assms(3) server_invD(12)[OF assms(1,2)]] by simp

lemma prepare_safer_step:
  "prepare_safer i t d = (plain, i') \<Longrightarrow> info_step k i i'"
  "prepare_safer_data i conv d = (plain, i') \<Longrightarrow> info_step k i i'"
  by (auto simp: info_step_def prepare_safer_def prepare_safer_data_def next_seq_wf split: prod.splits)

lemma submit_job_ok:
  assumes "hash_lengths p" "aes_crate_ok p" "server_inv p cfg s"
  shows "sat False (submit_job p job s) (quiet p cfg s)"
proof -
  let ?pl = "work p (concat (sv_sched s (sv_tick s))) (sv_pipe s)"
  obtain pl e ok where "submit p ?pl (sv_env s) job = Ret (pl, e, ok)" "pipe_ok p pl" "env_le (sv_env s) e"
    using submit_ok[OF assms(1,2) pipe_ok_work[OF server_invD(10)[OF assms(3)]], of "concat (sv_sched s (sv_tick s))" "sv_env s" job]
    by (auto simp: sat_False)
  then show ?thesis
    using quiet_pipe[OF assms(3)] by (simp add: submit_job_def)
qed

lemma submit_job_after:
  assumes "hash_lengths p" "aes_crate_ok p" "quiet p cfg s s'"
  shows "sat False (submit_job p job s') (quiet p cfg s)"
  using sat_mono[OF submit_job_ok[OF assms(1,2) quiet_inv[OF assms(3)]]] quiet_trans[OF assms(3)] by blast

lemma send_heartbeat_ok:
  assumes "hash_lengths p" "aes_crate_ok p" "server_inv p cfg s" "conn s slot = Some c"
  shows "sat False (send_heartbeat p slot s) (quiet p cfg s)"
proof -
  obtain plain i' where pr: "prepare_safer (sc_info c) TYPE_HEARTBEAT (if cfg_hb_mode (sv_cfg s) = 0 then [] else hb_buf s) = (plain, i')"
    by fastforce
  have "quiet p cfg s (put_conn slot (c\<lparr> sc_info := i' \<rparr>) s)"
    by (rule quiet_info[OF assms(3,4) prepare_safer_step(1)[OF pr]])
  then show ?thesis
    using submit_job_after[OF assms(1,2)] by (simp add: send_heartbeat_def assms(4) pr Let_def)
qed


section \<open>Handshake\<close>

lemma ready_slots_put:
  "ready_slots (T(i \<mapsto> (a, Some k, m, h))) = insert i (ready_slots T)"
  "ready_slots (T(i \<mapsto> (a, None, m, h))) = ready_slots T - {i}"
  "ready_slots (T(i := None)) = ready_slots T - {i}"
  by (auto simp: ready_slots_def split: if_splits)

lemma view_not_ready: "sc_state c \<noteq> SReady \<Longrightarrow> view c = (sc_addr c, None, sc_convs c, sc_generation c)"
  by (simp add: view_def)

lemma view_ready:
  "sc_state c = SReady \<Longrightarrow> view c = (sc_addr c, Some (oppsite_const_id (sc_info c)), sc_convs c, sc_generation c)"
  by (simp add: view_def)

lemma tab_conn: "conn s i = Some c \<Longrightarrow> tab s i = Some (view c)"
  by (simp add: tab_def)

lemma inv_idle:
  assumes "server_inv p cfg s" "conn s i = Some c" "sc_state c = SHandshake1"
    "c' = c\<lparr> sc_state := SIdle, sc_info := (sc_info c)\<lparr> oppsite_const_id := k \<rparr> \<rparr>"
  shows "server_inv p cfg (put_conn i c' s)"
  using server_invD(12)[OF assms(1,2)] assms(3,4)
  by (intro inv_put[OF assms(1,2)]) (simp_all add: view_def conn_ok_def)

lemma set_idle_ok:
  assumes "server_inv p cfg s" "conn s i = Some c" "sc_state c = SHandshake1"
  shows "sat False (set_idle i s) (server_inv p cfg)"
  using inv_idle[OF assms refl] assms(2) by (simp add: set_idle_def)

lemma inv_ready:
  assumes inv: "server_inv p cfg s" and c: "conn s i = Some c" "sc_state c \<noteq> SReady"
    and k: "by_const_id s k = None" "ready_num s < MAX_READY_CONN_NUM"
    and c': "view c' = (sc_addr c, Some k, sc_convs c, sc_generation c)" "conn_ok (clk s) c'"
  shows "server_inv p cfg ((put_conn i c' s)\<lparr> ready_num := ready_num s + 1, by_const_id := (by_const_id s)(k \<mapsto> i) \<rparr>)"
    (is "server_inv p cfg ?s")
proof -
  have tab: "tab ?s = (tab s)(i \<mapsto> (sc_addr c, Some k, sc_convs c, sc_generation c))"
    using tab_put[of s i c'] tab_cong[of ?s "put_conn i c' s"] c(1) c'(1) by simp
  have ti: "tab s i = Some (sc_addr c, None, sc_convs c, sc_generation c)"
    using tab_conn[OF c(1)] view_not_ready[OF c(2)] by simp
  have "i \<notin> ready_slots (tab s)"
    using ti by (simp add: ready_slots_def)
  then have num: "ready_num s + 1 = card (ready_slots (tab ?s))"
    unfolding tab using server_invD(4)[OF inv] finite_ready[of s] by (simp add: ready_slots_put)
  have "tables_ok (tab ?s) (by_addr s) ((by_const_id s)(k \<mapsto> i)) (owner (socks s)) (next_generation s)"
    unfolding tab by (rule tables_ready[OF server_invD(3)[OF inv] ti k(1)])
  then have "tables_inv ?s"
    using inv num k(2) slots_put[OF inv, of i c'] c(1) by (simp add: server_inv_def tables_inv_def)
  moreover have "rest_inv p cfg ?s"
    using inv c(1) c'(2) by (auto simp: server_inv_def rest_inv_def clk_def conn_put split: if_splits)
  ultimately show ?thesis
    by (simp add: server_inv_def)
qed

lemma go_ready_ok:
  assumes pr: "hash_lengths p" "aes_crate_ok p" and inv: "server_inv p cfg s"
    and c: "conn s i = Some c" "sc_state c = SHandshake1" and k: "by_const_id s k = None" and now: "now \<le> clk s"
  shows "sat False (go_ready p i k now s) (server_inv p cfg)"
proof (cases "ready_num s \<ge> MAX_READY_CONN_NUM")
  case True
  have "server_inv p cfg (put_conn i (c\<lparr> sc_state := SIdle \<rparr>) s)"
    using inv_idle[OF inv c, of _ "oppsite_const_id (sc_info c)"] by simp
  then show ?thesis
    using True c by (simp add: go_ready_def)
next
  case False
  let ?c = "c\<lparr> sc_state := SReady, sc_info := (sc_info c)\<lparr> oppsite_const_id := k, last_hb_recv_time := now,
      last_hb_sent_time := now, anti_replay := ar_re_init (anti_replay (sc_info c)) \<rparr> \<rparr>"
  let ?s = "(put_conn i ?c s)\<lparr> ready_num := ready_num s + 1, by_const_id := (by_const_id s)(k \<mapsto> i) \<rparr>"
  have "server_inv p cfg ?s"
    using server_invD(12)[OF inv c(1)] c(2) k now False
    by (intro inv_ready[OF inv c(1)]) (auto simp: view_def conn_ok_def)
  moreover have "conn ?s i = Some ?c"
    using c(1) by (simp add: conn_put)
  ultimately have "sat False (send_heartbeat p i ?s) (quiet p cfg ?s)"
    by (rule send_heartbeat_ok[OF pr])
  then show ?thesis
    using False c(1) by (simp add: go_ready_def Let_def) (erule sat_mono, erule quiet_inv)
qed

lemma inv_swap:
  assumes inv: "server_inv p cfg s" and c: "conn s i = Some c" "sc_state c \<noteq> SReady"
    and o: "conn s j = Some d" "sc_state d = SReady"
    and c': "view c' = (sc_addr d, None, sc_convs c, sc_generation c)" "conn_ok (clk s) c'"
    and d': "view d' = (sc_addr c, Some (oppsite_const_id (sc_info d)), sc_convs d, next_generation s)" "conn_ok (clk s) d'"
  shows "server_inv p cfg (put_conn i c' (put_conn j d' (s\<lparr> by_addr := (by_addr s)(sc_addr c \<mapsto> j, sc_addr d \<mapsto> i),
      next_generation := next_generation s + 1 \<rparr>)))" (is "server_inv p cfg (put_conn i c' (put_conn j d' ?s))")
proof -
  let ?t = "put_conn i c' (put_conn j d' ?s)"
  have ij: "i \<noteq> j"
    using c o by auto
  have some: "conn ?s j \<noteq> None" "conn (put_conn j d' ?s) i \<noteq> None"
    using c(1) o(1) ij by (simp_all add: conn_put)
  have tab: "tab ?t = (tab s)(j \<mapsto> view d', i \<mapsto> view c')"
    using some tab_cong[of ?s s] by (simp add: tab_put)
  have ti: "tab s i = Some (sc_addr c, None, sc_convs c, sc_generation c)"
    "tab s j = Some (sc_addr d, Some (oppsite_const_id (sc_info d)), sc_convs d, sc_generation d)"
    using tab_conn[OF c(1)] view_not_ready[OF c(2)] tab_conn[OF o(1)] view_ready[OF o(2)] by simp_all
  have "i \<notin> ready_slots (tab s)" "j \<in> ready_slots (tab s)"
    using ti by (auto simp: ready_slots_def)
  then have num: "ready_slots (tab ?t) = ready_slots (tab s)"
    unfolding tab by (auto simp: c'(1) d'(1) ready_slots_put)
  have wf: "slots_wf (conns ?t) (free_conns s)"
    using slots_wf_put[OF slots_put[OF inv, of j d'], of i c'] c(1) o(1) ij by (simp add: put_conn_def slot_get_update)
  have "tables_ok (tab ?t) (by_addr ?s) (by_const_id s) (owner (socks s)) (Suc (next_generation s))"
    unfolding tab c'(1) d'(1) using tables_swap[OF server_invD(3)[OF inv] ti] by simp
  then have "tables_inv ?t"
    using inv wf num by (simp add: server_inv_def tables_inv_def)
  moreover have "rest_inv p cfg ?t"
    using inv c'(2) d'(2) some
    by (auto simp: server_inv_def rest_inv_def clk_def conn_put split: if_splits)
  ultimately show ?thesis
    by (simp add: server_inv_def)
qed

lemma recover_conn_ok:
  assumes pr: "hash_lengths p" "aes_crate_ok p" and inv: "server_inv p cfg s"
    and c: "conn s i = Some c" "sc_state c = SHandshake1" and o: "conn s j = Some d" "sc_state d = SReady"
    and now: "now \<le> clk s"
  shows "sat False (recover_conn p i j now s) (server_inv p cfg)"
proof -
  let ?s = "s\<lparr> by_addr := (by_addr s)(sc_addr c \<mapsto> j, sc_addr d \<mapsto> i), next_generation := next_generation s + 1 \<rparr>"
  let ?d = "d\<lparr> sc_addr := sc_addr c, sc_info := recover_from (sc_info d) (sc_info c), sc_generation := next_generation s \<rparr>"
  let ?c = "c\<lparr> sc_addr := sc_addr d, sc_state := SIdle, sc_info := (sc_info c)\<lparr> oppsite_const_id := 0 \<rparr> \<rparr>"
  let ?t = "put_conn i ?c (put_conn j ?d ?s)"
  note ok = server_invD(12)[OF inv c(1)] server_invD(12)[OF inv o(1)]
  have t: "server_inv p cfg ?t"
    using ok c(2) o(2) by (intro inv_swap[OF inv c(1) _ o]) (simp_all add: view_def conn_ok_def recover_from_def)
  have ij: "i \<noteq> j"
    using c o by auto
  have j: "conn ?t j = Some ?d"
    using c(1) o(1) ij by (simp add: conn_put)
  have "sat False (send_heartbeat p j ?t) (quiet p cfg ?t)"
    by (rule send_heartbeat_ok[OF pr t j])
  then obtain s2 where s2: "send_heartbeat p j ?t = Ret s2" "quiet p cfg ?t s2"
    by (auto simp: sat_False)
  obtain d2 where d2: "conn s2 j = Some d2"
    using quiet_conn[OF s2(2) j] by blast
  have "now \<le> clk s2"
    using now s2(2) by (simp add: quiet_def clk_def)
  then have "server_inv p cfg (put_conn j (d2\<lparr> sc_info := (sc_info d2)\<lparr> last_hb_recv_time := now \<rparr> \<rparr>) s2)"
    by (intro quiet_inv[OF quiet_info[OF quiet_inv[OF s2(2)] d2]]) (simp add: info_step_def ends_def)
  then show ?thesis
    using s2(1) d2 c(1) o(1) by (simp add: recover_conn_def Let_def)
qed

lemma pre_ready_ok:
  assumes pr: "hash_lengths p" "aes_crate_ok p" and inv: "server_inv p cfg s"
    and c: "conn s i = Some c" "sc_state c = SHandshake1"
  shows "sat False (pre_ready p i k s) (server_inv p cfg)"
proof -
  obtain now e where ne: "now_ms (sv_env s) = (now, e)"
    by fastforce
  let ?s = "s\<lparr> sv_env := e \<rparr>"
  have inv': "server_inv p cfg ?s" and now: "now \<le> clk ?s"
    using now_ms_ok[OF inv ne] quiet_inv by blast+
  have c': "conn ?s i = Some c"
    using c by simp
  show ?thesis
  proof (cases "by_const_id s k")
    case None
    then show ?thesis
      using go_ready_ok[OF pr inv' c' c(2) _ now, of k] c by (simp add: pre_ready_def ne)
  next
    case (Some j)
    then obtain a m h where "tab s j = Some (a, Some k, m, h)"
      using tables_okD(3)[OF server_invD(3)[OF inv], of k j] by auto
    then obtain d where d: "conn s j = Some d" "sc_state d = SReady"
      by (auto simp: tab_Some view_def split: if_splits)
    have d': "conn ?s j = Some d"
      using d by simp
    show ?thesis
      using set_idle_ok[OF inv' c' c(2)] recover_conn_ok[OF pr inv' c' c(2) d' d(2) now] Some c d inv'
      by (simp add: pre_ready_def ne Let_def)
  qed
qed

lemma on_handshake1_ok:
  assumes pr: "hash_lengths p" "aes_crate_ok p" and inv: "server_inv p cfg s"
    and c: "conn s i = Some c" "sc_state c = SHandshake1"
  shows "sat False (on_handshake1 p i payload s) (server_inv p cfg)"
proof -
  obtain h where h: "parse_handshake payload = Ret h"
    using parse_handshake_total by blast
  let ?raw = "sync_seq (cfg_raw_mode (sv_cfg s)) (ci_raw (sc_info c))"
  have fam: "family_ok ?raw"
    using ends_family[OF ends_sync_seq] server_invD(12)[OF inv c(1)] by (simp add: conn_ok_def)
  show ?thesis
  proof (cases h)
    case None
    then show ?thesis
      using h c inv by (simp add: on_handshake1_def)
  next
    case (Some t)
    obtain oid mid cid where t: "t = (oid, mid, cid)"
      by (cases t)
    show ?thesis
    proof (cases "mid = 0")
      case True
      obtain ctx e raw' ok where sh: "send_handshake p (sv_crypto s) (sv_ctx s) (sv_env s) ?raw (my_id (sc_info c)) oid (sv_const_id s)
          = Ret (ctx, e, raw', ok)" "same_settings (sv_ctx s) ctx" "env_le (sv_env s) e" "ends raw' = ends ?raw"
        using send_handshake_ok[OF fam, of p "sv_crypto s" "sv_ctx s" "sv_env s" "my_id (sc_info c)" oid "sv_const_id s"]
        by (auto simp: sat_False)
      have q: "server_inv p cfg (s\<lparr> sv_ctx := ctx, sv_env := e \<rparr>)"
        using quiet_inv[OF quiet_send[OF inv sh(2,3)]] .
      have "server_inv p cfg (put_conn i (c\<lparr> sc_info := (sc_info c)\<lparr> ci_raw := raw' \<rparr> \<rparr>) (s\<lparr> sv_ctx := ctx, sv_env := e \<rparr>))"
        by (rule quiet_inv[OF quiet_info[OF q]]) (use c sh(4) in \<open>simp_all add: info_step_def\<close>)
      then show ?thesis
        using True Some t h c sh(1) by (simp add: on_handshake1_def Let_def)
    next
      case False
      let ?c = "c\<lparr> sc_info := (sc_info c)\<lparr> oppsite_id := oid, ci_raw := ?raw \<rparr> \<rparr>"
      have "server_inv p cfg (put_conn i ?c s)"
        by (rule quiet_inv[OF quiet_info[OF inv c(1)]]) (simp add: info_step_def)
      moreover have "conn (put_conn i ?c s) i = Some ?c"
        using c(1) by (simp add: conn_put)
      ultimately have "sat False (pre_ready p i cid (put_conn i ?c s)) (server_inv p cfg)"
        by (rule pre_ready_ok[OF pr]) (simp add: c(2))
      then show ?thesis
        using False Some t h c inv by (simp add: on_handshake1_def Let_def)
    qed
  qed
qed


section \<open>Packets from clients\<close>

text \<open>A panic is left over only for FakeTCP, in the parser of the TCP header.\<close>

abbreviation may_abort :: "Config \<Rightarrow> bool" where
  "may_abort cfg \<equiv> cfg_raw_mode cfg = FakeTcp"

lemma sat_any: "sat False m P \<Longrightarrow> sat Q m P"
  by (erule sat_weaken) simp_all

lemma inv_alloc:
  assumes inv: "server_inv p cfg s" and live: "length (conns s) - length (free_conns s) < MAX_HANDSHAKE_CONN_NUM"
    and addr: "by_addr s (sc_addr c) = None"
    and c: "view c = (sc_addr c, None, cm_new, next_generation s)" "conn_ok (clk s) c"
  obtains i s' where "alloc_conn (s\<lparr> next_generation := next_generation s + 1 \<rparr>) c = Ret (i, s')"
    "server_inv p cfg (s'\<lparr> by_addr := (by_addr s')(sc_addr c \<mapsto> i) \<rparr>)" "conn s' i = Some c"
proof -
  obtain i cs free where al: "slot_alloc (conns s) (free_conns s) c = Ret (i, cs, free)" "conn s i = None"
      "slots_wf cs free" "\<And>j. slot_get cs j = (if j = i then Some c else conn s j)"
      "length cs - length free = Suc (length (conns s) - length (free_conns s))"
    by (rule slot_alloc_ok[OF server_invD(1)[OF inv], of c]) blast
  let ?s' = "s\<lparr> next_generation := next_generation s + 1, conns := cs, free_conns := free \<rparr>"
  let ?t = "?s'\<lparr> by_addr := (by_addr s)(sc_addr c \<mapsto> i) \<rparr>"
  have tab: "tab ?t = (tab s)(i \<mapsto> (sc_addr c, None, cm_new, next_generation s))"
    by (rule ext) (simp add: tab_def al(4) c(1))
  have ti: "tab s i = None"
    using al(2) by (simp add: tab_def)
  then have "ready_slots (tab ?t) = ready_slots (tab s)"
    unfolding tab by (auto simp: ready_slots_def)
  moreover have "tables_ok (tab ?t) (by_addr ?t) (by_const_id s) (owner (socks s)) (next_generation ?t)"
    unfolding tab using tables_new[OF server_invD(3)[OF inv] ti addr] by simp
  ultimately have "tables_inv ?t"
    using inv al(3,5) live by (simp add: server_inv_def tables_inv_def)
  moreover have "rest_inv p cfg ?t"
    using inv c(2) al(4) by (auto simp: server_inv_def rest_inv_def clk_def split: if_splits)
  ultimately have "server_inv p cfg ?t"
    by (simp add: server_inv_def)
  then show thesis
    using that[of i ?s'] al(1,4) by (simp add: alloc_conn_def)
qed

lemma by_addr_conn:
  assumes "server_inv p cfg s" "by_addr s a = Some i"
  obtains c where "conn s i = Some c" "sc_addr c = a"
  using tables_okD(2)[OF server_invD(3)[OF assms(1)], of a i] assms(2) that by (auto simp: tab_Some view_def)

lemma idx_conns: "conn s i = Some c \<Longrightarrow> idx (conns s) i = Ret (Some c)"
  by (auto simp: idx_def dest: slot_get_Some)

lemma ends_reply: "ends (reply_raw s raw) = (dst_ip (recv_info raw), src_ip (recv_info raw), src_port (recv_info raw))"
  by (simp add: reply_raw_def Let_def) (simp add: ends_def)

lemma reply_family:
  assumes "parse_recv c raw buf ll = Ret (raw', Some d)"
  shows "same_family (dst_ip (recv_info raw')) (src_ip (recv_info raw'))"
  using parse_recv_family[OF assms] by simp

text \<open>Receiving a packet, then continuing with what was received.\<close>

lemma parse_recv_then:
  assumes "server_inv p cfg s" "\<And>raw' data. parse_recv (sv_ctx s) raw buf ll = Ret (raw', data) \<Longrightarrow> sat (may_abort cfg) (f (raw', data)) P"
  shows "sat (may_abort cfg) (rbind (parse_recv (sv_ctx s) raw buf ll) f) P"
proof (cases "parse_recv (sv_ctx s) raw buf ll")
  case Panic
  then show ?thesis
    using parse_recv_panics[OF Panic] server_invD(8)[OF assms(1)] by simp
next
  case (Ret x)
  then show ?thesis
    using assms(2)[of "fst x" "snd x"] by simp
qed

lemma answer_syn_ok:
  assumes inv: "server_inv p cfg s" and fam: "same_family (dst_ip (recv_info raw)) (src_ip (recv_info raw))"
  shows "sat False (answer_syn raw d s) (server_inv p cfg)"
proof -
  let ?raw = "(reply_raw s raw)\<lparr> send_info := (send_info (reply_raw s raw))\<lparr> ack_seq := seq (recv_info raw) + 1,
      psh := False, syn := True, ack := True, ts_ack := ts (recv_info raw) \<rparr> \<rparr>"
  have "ends ?raw = ends (reply_raw s raw)"
    by (simp add: ends_def)
  then have "family_ok ?raw"
    using fam ends_reply[of s raw] by (simp add: ends_def)
  from send_raw_ok[OF this, of "sv_ctx s" "sv_env s" "[]"]
  have "sat False (rbind (send_raw (sv_ctx s) (sv_env s) ?raw []) (\<lambda>(ctx, e, _). Ret (s\<lparr> sv_ctx := ctx, sv_env := e \<rparr>)))
      (server_inv p cfg)"
    by (rule sat_bind) (use quiet_inv[OF quiet_send[OF inv]] in auto)
  then show ?thesis
    using inv unfolding answer_syn_def Let_def by (simp del: sat_rbind)
qed

lemma on_syn_ok:
  assumes inv: "server_inv p cfg s" and slot: "slot_opt = by_addr s a"
  shows "sat (may_abort cfg) (on_syn buf ll slot_opt s) (server_inv p cfg)"
proof -
  obtain tmp e where n: "RawInfo_new (cfg_raw_mode (sv_cfg s)) (rc_is_v6 (sv_ctx s)) (sv_env s) = (tmp, e)"
    by fastforce
  let ?s = "s\<lparr> sv_env := e \<rparr>"
  have inv': "server_inv p cfg ?s"
    by (rule quiet_inv[OF quiet_env[OF inv RawInfo_new_env[OF n]]])
  have "sat (may_abort cfg) (rbind (parse_recv (sv_ctx ?s) tmp buf ll) (\<lambda>(tmp1, data).
      case data of None \<Rightarrow> Ret ?s | Some d \<Rightarrow> answer_syn tmp1 d ?s)) (server_inv p cfg)"
  proof (rule parse_recv_then[OF inv'])
    fix raw data
    assume r: "parse_recv (sv_ctx ?s) tmp buf ll = Ret (raw, data)"
    show "sat (may_abort cfg) (case (raw, data) of (tmp1, data) \<Rightarrow>
        case data of None \<Rightarrow> Ret ?s | Some d \<Rightarrow> answer_syn tmp1 d ?s) (server_inv p cfg)"
      using r inv' sat_any[OF answer_syn_ok[OF inv' reply_family]] by (cases data) simp_all
  qed
  moreover have "slot_opt = Some i \<Longrightarrow> \<exists>q. idx (conns s) i = Ret q" for i
    using by_addr_conn[OF inv, of a i] idx_conns slot by metis
  ultimately show ?thesis
    using inv unfolding on_syn_def n by (cases slot_opt) (auto simp: Let_def)
qed

lemma admit_ok:
  assumes pr: "hash_lengths p" "aes_crate_ok p" and inv: "server_inv p cfg s"
    and live: "length (conns s) - length (free_conns s) < MAX_HANDSHAKE_CONN_NUM" and addr: "by_addr s a = None"
    and raw: "same_family (dst_ip (recv_info raw)) (src_ip (recv_info raw))"
      "(src_ip (recv_info raw), src_port (recv_info raw)) = a"
  shows "sat False (admit p payload a raw s) (server_inv p cfg)"
proof -
  obtain info e1 ident e2 now e3 where en: "ConnInfo_new (cfg_raw_mode (sv_cfg s)) (rc_is_v6 (sv_ctx s))
        (cfg_disable_anti_replay (sv_cfg s)) (sv_env s) = (info, e1)" "draw_nz e1 = (ident, e2)" "now_ms e2 = (now, e3)"
    by (meson surj_pair)
  let ?e2 = "s\<lparr> sv_env := e2 \<rparr>" let ?s = "s\<lparr> sv_env := e3 \<rparr>"
  have i2: "server_inv p cfg ?e2"
    using en by (intro quiet_inv[OF quiet_env[OF inv]]) (meson ConnInfo_new_env env_le_eqs env_le_trans)
  have i3: "server_inv p cfg ?s" and now: "now \<le> clk ?s"
    using now_ms_ok[OF i2, of now e3] en(3) quiet_inv by auto
  let ?c = "\<lparr> sc_info = info\<lparr> ci_raw := reply_raw s raw, my_id := ident, last_state_time := now \<rparr>,
      sc_state = SHandshake1, sc_convs = cm_new, sc_generation = next_generation s, sc_addr = a \<rparr>"
  have "conn_ok (clk ?s) ?c"
    using raw now ends_reply[of s raw] en(1)
    by (auto simp: conn_ok_def ends_def ConnInfo_new_def split: prod.splits)
  then obtain i s' where al: "alloc_conn (?s\<lparr> next_generation := next_generation ?s + 1 \<rparr>) ?c = Ret (i, s')"
      "server_inv p cfg (s'\<lparr> by_addr := (by_addr s')(a \<mapsto> i) \<rparr>)" "conn s' i = Some ?c"
    using inv_alloc[OF i3, of ?c] live addr by (auto simp: view_def)
  have "sat False (on_handshake1 p i payload (s'\<lparr> by_addr := (by_addr s')(a \<mapsto> i) \<rparr>)) (server_inv p cfg)"
    by (rule on_handshake1_ok[OF pr al(2), of _ ?c]) (use al(3) in simp_all)
  then show ?thesis
    using al(1) unfolding admit_def en by (simp add: en)
qed

lemma on_new_addr_ok:
  assumes pr: "hash_lengths p" "aes_crate_ok p" and inv: "server_inv p cfg s"
    and pk: "peek (sv_ctx s) buf = Ret (Some pk)" and a: "a = (pk_src_ip pk, pk_src_port pk)" "by_addr s a = None"
  shows "sat (may_abort cfg) (on_new_addr p buf ll a s) (server_inv p cfg)"
proof -
  obtain tmp e where n: "RawInfo_new (cfg_raw_mode (sv_cfg s)) (rc_is_v6 (sv_ctx s)) (sv_env s) = (tmp, e)"
    by fastforce
  let ?s = "s\<lparr> sv_env := e \<rparr>"
  have inv': "server_inv p cfg ?s"
    by (rule quiet_inv[OF quiet_env[OF inv RawInfo_new_env[OF n]]])
  have live: "live_conns s = Ret (length (conns s) - length (free_conns s))"
    using slots_live[OF server_invD(1)[OF inv]] by (simp add: live_conns_def usub_def)
  define rest where "rest = (\<lambda>(tmp1, data). case data of None \<Rightarrow> Ret ?s | Some d \<Rightarrow>
      if cfg_raw_mode (sv_cfg s) = FakeTcp \<and> (syn (recv_info tmp1) \<or> \<not> ack (recv_info tmp1)) then Ret ?s
      else rbind (recv_bare p (sv_crypto ?s) d) (\<lambda>pl. case pl of None \<Rightarrow> Ret ?s | Some payload \<Rightarrow>
        rbind (parse_handshake payload) (\<lambda>h. case h of None \<Rightarrow> Ret ?s
          | Some (_, zero, _) \<Rightarrow> if zero \<noteq> 0 then Ret ?s else admit p payload a tmp1 ?s)))"
  have "sat (may_abort cfg) (rbind (parse_recv (sv_ctx ?s) raw0 buf ll) rest) (server_inv p cfg)"
    if room: "\<not> length (conns s) - length (free_conns s) \<ge> MAX_HANDSHAKE_CONN_NUM" for raw0
  proof (rule parse_recv_then[OF inv'])
    fix raw data
    assume r: "parse_recv (sv_ctx ?s) raw0 buf ll = Ret (raw, data)"
    show "sat (may_abort cfg) (rest (raw, data)) (server_inv p cfg)"
    proof (cases data)
      case (Some d)
      have src: "(src_ip (recv_info raw), src_port (recv_info raw)) = a"
        using peek_agrees[of "sv_ctx s" buf pk raw0 ll raw d] pk r Some a(1) by simp
      have adm: "sat (may_abort cfg) (admit p payload a raw ?s) (server_inv p cfg)" for payload
        using admit_ok[OF pr inv' _ _ reply_family[OF r[unfolded Some]] src] room a(2) by (auto intro: sat_any)
      obtain pl where pl: "recv_bare p (sv_crypto s) d = Ret pl"
        using recv_bare_total by blast
      show ?thesis
      proof (cases pl)
        case (Some payload)
        obtain h where h: "parse_handshake payload = Ret h"
          using parse_handshake_total by blast
        show ?thesis
          using adm inv' by (cases h) (auto simp: rest_def \<open>data = Some d\<close> Some h pl split: prod.split)
      qed (use inv' in \<open>simp add: rest_def Some pl\<close>)
    qed (use inv' in \<open>simp add: rest_def\<close>)
  qed
  then show ?thesis
    using inv unfolding on_new_addr_def live rest_def by (simp add: n Let_def)
qed

lemma on_known_addr_ok:
  assumes pr: "hash_lengths p" "aes_crate_ok p" and inv: "server_inv p cfg s" and c: "conn s i = Some c"
  shows "sat (may_abort cfg) (on_known_addr p buf ll i s) (server_inv p cfg)"
proof -
  define next_s where "next_s = (\<lambda>raw. put_conn i (c\<lparr> sc_info := (sc_info c)\<lparr> ci_raw := raw \<rparr> \<rparr>) s)"
  have nx: "server_inv p cfg (next_s raw)" "\<exists>c'. conn (next_s raw) i = Some c' \<and> sc_state c' = sc_state c"
    if "parse_recv (sv_ctx s) (ci_raw (sc_info c)) buf ll = Ret (raw, data)" for raw data
  proof -
    have "ends raw = ends (ci_raw (sc_info c))"
      using parse_recv_send_info[OF that] by (simp add: ends_def)
    then have "quiet p cfg s (next_s raw)"
      unfolding next_s_def by (intro quiet_info[OF inv c]) (simp add: info_step_def)
    then show "server_inv p cfg (next_s raw)" "\<exists>c'. conn (next_s raw) i = Some c' \<and> sc_state c' = sc_state c"
      using c by (auto simp: quiet_def)
  qed
  show ?thesis
  proof (cases "sc_state c")
    case SIdle
    then show ?thesis
      using inv c by (simp add: on_known_addr_def)
  next
    case SHandshake1
    have hs: "sat (may_abort cfg) (case pl of None \<Rightarrow> Ret (next_s raw) | Some payload \<Rightarrow> on_handshake1 p i payload (next_s raw))
        (server_inv p cfg)" if "parse_recv (sv_ctx s) (ci_raw (sc_info c)) buf ll = Ret (raw, data)" for raw data pl
      using nx[OF that] SHandshake1 on_handshake1_ok[OF pr nx(1)[OF that]] by (cases pl) (auto intro: sat_any)
    have "sat (may_abort cfg) (rbind (parse_recv (sv_ctx s) (ci_raw (sc_info c)) buf ll) (\<lambda>(raw, data).
        case data of None \<Rightarrow> Ret (next_s raw) | Some d \<Rightarrow>
          if cfg_raw_mode (sv_cfg s) = FakeTcp \<and> (syn (recv_info raw) \<or> \<not> ack (recv_info raw)) then Ret (next_s raw)
          else rbind (recv_bare p (sv_crypto s) d) (\<lambda>pl. case pl of None \<Rightarrow> Ret (next_s raw)
            | Some payload \<Rightarrow> on_handshake1 p i payload (next_s raw)))) (server_inv p cfg)"
    proof (rule parse_recv_then[OF inv], unfold prod.case)
      fix raw data
      assume r: "parse_recv (sv_ctx s) (ci_raw (sc_info c)) buf ll = Ret (raw, data)"
      show "sat (may_abort cfg) (case data of None \<Rightarrow> Ret (next_s raw) | Some d \<Rightarrow>
          if cfg_raw_mode (sv_cfg s) = FakeTcp \<and> (syn (recv_info raw) \<or> \<not> ack (recv_info raw)) then Ret (next_s raw)
          else rbind (recv_bare p (sv_crypto s) d) (\<lambda>pl. case pl of None \<Rightarrow> Ret (next_s raw)
            | Some payload \<Rightarrow> on_handshake1 p i payload (next_s raw))) (server_inv p cfg)"
      proof (cases data)
        case (Some d)
        obtain pl where "recv_bare p (sv_crypto s) d = Ret pl"
          using recv_bare_total by blast
        then show ?thesis
          using nx(1)[OF r] hs[OF r, of pl] Some by simp
      qed (use nx(1)[OF r] in simp)
    qed
    then show ?thesis
      using c SHandshake1 unfolding on_known_addr_def next_s_def Let_def by simp
  next
    case SReady
    have "sat (may_abort cfg) (rbind (parse_recv (sv_ctx s) (ci_raw (sc_info c)) buf ll) (\<lambda>(raw, data).
        case data of None \<Rightarrow> Ret (next_s raw) | Some d \<Rightarrow>
          submit_job p (DecryptJob \<lparr> jk_slot = i, jk_generation = sc_generation c \<rparr> d (RecvMeta_from_recv (recv_info raw)))
            (next_s raw))) (server_inv p cfg)"
    proof (rule parse_recv_then[OF inv], unfold prod.case)
      fix raw data
      assume r: "parse_recv (sv_ctx s) (ci_raw (sc_info c)) buf ll = Ret (raw, data)"
      show "sat (may_abort cfg) (case data of None \<Rightarrow> Ret (next_s raw) | Some d \<Rightarrow>
          submit_job p (DecryptJob \<lparr> jk_slot = i, jk_generation = sc_generation c \<rparr> d (RecvMeta_from_recv (recv_info raw)))
            (next_s raw)) (server_inv p cfg)"
        using nx(1)[OF r] sat_weaken[OF submit_job_ok[OF pr nx(1)[OF r]]] quiet_inv by (cases data) (simp, fastforce)
    qed
    then show ?thesis
      using c SReady unfolding on_known_addr_def next_s_def Let_def by simp
  qed
qed

lemma on_raw_packet_ok:
  assumes pr: "hash_lengths p" "aes_crate_ok p" and inv: "server_inv p cfg s"
  shows "sat (may_abort cfg) (on_raw_packet p pkt s) (server_inv p cfg)"
proof -
  obtain data ll where pkt: "pkt = (data, ll)"
    by fastforce
  define buf where "buf = take (if length data = HUGE_DATA_LEN + 1 then HUGE_DATA_LEN else length data) data"
  obtain q where q: "peek (sv_ctx s) buf = Ret q"
    using peek_total by blast
  have "sat (may_abort cfg) (case q of None \<Rightarrow> Ret s | Some pk \<Rightarrow>
          let addr = (pk_src_ip pk, pk_src_port pk); slot_opt = by_addr s addr in
          if cfg_raw_mode (sv_cfg s) = FakeTcp \<and> pk_syn pk then on_syn buf ll slot_opt s
          else case slot_opt of None \<Rightarrow> on_new_addr p buf ll addr s
          | Some slot \<Rightarrow> on_known_addr p buf ll slot s) (server_inv p cfg)"
  proof (cases q)
    case (Some pk)
    let ?a = "(pk_src_ip pk, pk_src_port pk)"
    have "sat (may_abort cfg) (case by_addr s ?a of None \<Rightarrow> on_new_addr p buf ll ?a s
          | Some slot \<Rightarrow> on_known_addr p buf ll slot s) (server_inv p cfg)"
    proof (cases "by_addr s ?a")
      case None
      then show ?thesis
        using on_new_addr_ok[OF pr inv q[unfolded Some] refl] by simp
    next
      case (Some slot)
      then show ?thesis
        using on_known_addr_ok[OF pr inv] by (auto elim: by_addr_conn[OF inv])
    qed
    then show ?thesis
      using on_syn_ok[OF inv refl] by (simp add: Some Let_def)
  qed (use inv in simp)
  then show ?thesis
    using inv unfolding on_raw_packet_def pkt Let_def prod.case buf_def[symmetric] by (simp add: q)
qed

lemma on_raw_readable_ok:
  assumes pr: "hash_lengths p" "aes_crate_ok p"
  shows "server_inv p cfg s \<Longrightarrow> sat (may_abort cfg) (on_raw_readable p n bs s) (\<lambda>(more, s'). server_inv p cfg s')"
proof (induction bs arbitrary: n s)
  case (Cons b bs)
  have "sat (may_abort cfg) (for_each (on_raw_packet p) b s) (server_inv p cfg)"
    by (rule for_each_sat[where I = "server_inv p cfg", OF Cons.prems]) (rule on_raw_packet_ok[OF pr])
  then show ?case
    by (simp, elim sat_mono) (simp add: Cons.IH)
qed simp

end
