(* ===== verification/Server_Loop.thy ===== *)
theory Server_Loop
  imports Server_Inv
begin

text \<open>
  The rest of the event loop of the server (\<open>src/src/server.rs\<close>): closing sockets, timers, completions
  of the crypto pipeline, datagrams from the remote side. Every handler keeps the invariant, so
  a round of the loop does, from which the properties of reachable states follow.
\<close>


section \<open>Closing sockets\<close>

lemma close_socks_ok:
  assumes "slots_wf (socks s) (free_socks s)" "distinct js" "\<forall>j \<in> set js. slot_get (socks s) j \<noteq> None"
  obtains X F where "for_each close_sock js s = Ret (s\<lparr> socks := X, free_socks := F \<rparr>)" "slots_wf X F"
    "\<And>j. slot_get X j = (if j \<in> set js then None else slot_get (socks s) j)" "length X = length (socks s)"
proof -
  have "\<exists>X F. for_each close_sock js s = Ret (s\<lparr> socks := X, free_socks := F \<rparr>) \<and> slots_wf X F \<and>
      (\<forall>j. slot_get X j = (if j \<in> set js then None else slot_get (socks s) j)) \<and> length X = length (socks s)"
    using assms
  proof (induction js arbitrary: s)
    case Nil
    then show ?case
      by (intro exI[of _ "socks s"] exI[of _ "free_socks s"]) simp
  next
    case (Cons j js)
    obtain k where k: "slot_get (socks s) j = Some k"
      using Cons.prems(3) by auto
    let ?s = "s\<lparr> socks := (socks s)[j := None], free_socks := j # free_socks s \<rparr>"
    have cl: "close_sock j s = Ret ?s"
      using slot_get_Some[OF k] by (simp add: close_sock_def idx_def)
    have get: "slot_get (socks ?s) l = (if l = j then None else slot_get (socks s) l)" for l
      using slot_get_Some[OF k] by (simp add: slot_get_update)
    have "\<exists>X F. for_each close_sock js ?s = Ret (?s\<lparr> socks := X, free_socks := F \<rparr>) \<and> slots_wf X F \<and>
        (\<forall>l. slot_get X l = (if l \<in> set js then None else slot_get (socks ?s) l)) \<and> length X = length (socks ?s)"
      by (rule Cons.IH) (use slots_wf_take[OF Cons.prems(1) k] Cons.prems(2,3) get in auto)
    then obtain X F where "for_each close_sock js ?s = Ret (?s\<lparr> socks := X, free_socks := F \<rparr>)" "slots_wf X F"
        "\<And>l. slot_get X l = (if l \<in> set js then None else slot_get (socks ?s) l)" "length X = length (socks ?s)"
      by blast
    then show ?case
      using cl get by (intro exI[of _ X] exI[of _ F]) simp
  qed
  then show thesis
    using that by blast
qed

lemma owner_closed:
  "(\<And>j. slot_get X j = (if j \<in> J then None else slot_get ss j)) \<Longrightarrow> owner X j = (if j \<in> J then None else owner ss j)"
  by (simp add: owner_def)

lemma owner_None: "owner ss j = None \<longleftrightarrow> slot_get ss j = None"
  by (simp add: owner_def)

lemma conv_sock_open:
  assumes "server_inv p cfg s" "conn s i = Some c" "conv_to_data (sc_convs c) v = Some j"
  shows "slot_get (socks s) j \<noteq> None"
proof -
  have "owner (socks s) j = Some (i, v)"
    using tables_okD(4)[OF server_invD(3)[OF assms(1)], of j i v] tab_conn[OF assms(2)] assms(3)
    by (simp add: view_def)
  then show ?thesis
    by (auto simp: owner_def)
qed

lemma conn_convs_wf:
  assumes "server_inv p cfg s" "conn s i = Some c"
  shows "cm_wf (sc_convs c)" "sc_state c \<noteq> SReady \<Longrightarrow> conv_to_data (sc_convs c) = Map.empty"
  using tables_entry(1,2)[OF server_invD(3)[OF assms(1)], of i] tab_conn[OF assms(2)] by (simp_all add: view_def)

lemma conn_conv_ready:
  assumes "server_inv p cfg s" "conn s i = Some c" "conv_to_data (sc_convs c) v = Some j"
  shows "sc_state c = SReady"
proof (rule ccontr)
  assume "sc_state c \<noteq> SReady"
  then show False
    using conn_convs_wf(2)[OF assms(1,2)] assms(3) by simp
qed

text \<open>Erasing a connection: it disappears from every table, its sockets are closed.\<close>

lemma erase_conn_ok:
  assumes inv: "server_inv p cfg s" and c: "conn s i = Some c"
  shows "sat False (erase_conn i s) (\<lambda>s'. server_inv p cfg s' \<and> length (conns s') = length (conns s) \<and> clk s' = clk s \<and>
    conn s' i = None \<and> by_addr s' (sc_addr c) = None)"
proof -
  let ?js = "sv_order s (ran (conv_to_data (sc_convs c)))"
  have "finite (ran (conv_to_data (sc_convs c)))"
    using conn_convs_wf(1)[OF inv c] by (simp add: inv_simps finite_ran)
  then have js: "distinct ?js" "set ?js = ran (conv_to_data (sc_convs c))"
    using server_invD(11)[OF inv] by (auto simp: order_ok_def)
  have opened: "\<forall>j \<in> set ?js. slot_get (socks s) j \<noteq> None"
    unfolding js(2) using conv_sock_open[OF inv c] by (auto simp: ran_def)
  have ti: "tab s i = Some (view c)" and i: "idx (conns s) i = Ret (Some c)" "i < length (conns s)"
    using tab_conn[OF c] idx_conns[OF c] slot_get_Some[OF c] by simp_all
  define n where "n = (if sc_state c = SReady then ready_num s - 1 else ready_num s)"
  define K where "K = (if sc_state c = SReady then (by_const_id s)(oppsite_const_id (sc_info c) := None) else by_const_id s)"
  let ?s2 = "s\<lparr> conns := (conns s)[i := None], ready_num := n, by_const_id := K \<rparr>"
  have rdy: "i \<in> ready_slots (tab s) \<longleftrightarrow> sc_state c = SReady"
    using ti by (simp add: ready_slots_def view_def)
  have pos: "sc_state c = SReady \<Longrightarrow> 1 \<le> ready_num s"
    using rdy finite_ready[of s] server_invD(4)[OF inv] by (cases "ready_num s") auto
  obtain X F where X: "for_each close_sock ?js ?s2 = Ret (?s2\<lparr> socks := X, free_socks := F \<rparr>)" "slots_wf X F"
      "\<And>j. slot_get X j = (if j \<in> set ?js then None else slot_get (socks s) j)" "length X = length (socks s)"
    by (rule close_socks_ok[of ?s2 ?js]) (use server_invD(2)[OF inv] js(1) opened in auto)
  let ?t = "?s2\<lparr> socks := X, free_socks := F, by_addr := (by_addr s)(sc_addr c := None), free_conns := i # free_conns s \<rparr>"
  have run: "erase_conn i s = Ret ?t"
  proof (cases "sc_state c = SReady")
    case True
    then show ?thesis
      using i(1) X(1) pos by (simp add: erase_conn_def cm_clear_def usub_def n_def K_def Let_def)
  next
    case False
    then have "?s2 = s\<lparr> conns := (conns s)[i := None] \<rparr>"
      by (cases s) (simp add: n_def K_def)
    then show ?thesis
      using False i(1) X(1) by (simp add: erase_conn_def cm_clear_def Let_def)
  qed
  have tab: "tab ?t = (tab s)(i := None)"
    using i(2) by (intro ext) (simp add: tab_def slot_get_update)
  have num: "n = card (ready_slots (tab ?t))"
    unfolding tab unfolding ready_slots_put n_def using rdy server_invD(4)[OF inv] finite_ready[of s] by (simp add: card_Diff_singleton)
  have "tables_ok (tab ?t) ((by_addr s)(sc_addr c := None)) K (owner X) (next_generation s)"
    unfolding tab
    by (rule tables_erase[OF server_invD(3)[OF inv]]) (use ti owner_closed[OF X(3)] in \<open>auto simp: view_def K_def js(2) split: if_splits\<close>)
  moreover have "n \<le> MAX_READY_CONN_NUM" "length (conns s) - length (i # free_conns s) \<le> MAX_HANDSHAKE_CONN_NUM"
    using inv by (auto simp: n_def server_inv_def tables_inv_def)
  ultimately have "tables_inv ?t"
    using num X(2) slots_wf_take[OF server_invD(1)[OF inv] c] by (simp add: tables_inv_def)
  moreover have get: "conn ?t j = (if j = i then None else conn s j)" for j
    using i(2) by (simp add: slot_get_update)
  have "rest_inv p cfg ?t"
    using inv X(4) get by (simp add: server_inv_def rest_inv_def clk_def)
  ultimately have "server_inv p cfg ?t"
    by (simp add: server_inv_def)
  moreover have "clk ?t = clk s" "length (conns ?t) = length (conns s)" "by_addr ?t (sc_addr c) = None"
    by (simp_all add: clk_def)
  ultimately show ?thesis
    using run get[of i] by simp
qed


section \<open>Timers\<close>

text \<open>While a timer tick runs, no stored time is after the time the tick read.\<close>

definition times_le :: "nat \<Rightarrow> Server \<Rightarrow> bool" where
  "times_le t s \<longleftrightarrow> (\<forall>i c. conn s i = Some c \<longrightarrow>
     last_state_time (sc_info c) \<le> t \<and> last_hb_recv_time (sc_info c) \<le> t \<and> last_hb_sent_time (sc_info c) \<le> t)"

lemma times_leD: "times_le t s \<Longrightarrow> conn s i = Some c \<Longrightarrow>
    last_state_time (sc_info c) \<le> t \<and> last_hb_recv_time (sc_info c) \<le> t \<and> last_hb_sent_time (sc_info c) \<le> t"
  by (simp add: times_le_def)

lemma times_le_clk: "server_inv p cfg s \<Longrightarrow> times_le (clk s) s"
  using server_invD(12) unfolding times_le_def conn_ok_def by blast

definition timer_inv :: "prims \<Rightarrow> Config \<Rightarrow> nat \<Rightarrow> nat \<Rightarrow> Server \<Rightarrow> bool" where
  "timer_inv p cfg now n s \<longleftrightarrow> server_inv p cfg s \<and> times_le now s \<and> now \<le> clk s \<and> length (conns s) = n"

lemma times_le_sub: "times_le t s \<Longrightarrow> (\<And>i c. conn s' i = Some c \<Longrightarrow> conn s i = Some c) \<Longrightarrow> times_le t s'"
  unfolding times_le_def by blast

lemma erase_conn_timer:
  assumes "timer_inv p cfg now n s" "conn s i = Some c"
  shows "sat False (erase_conn i s) (timer_inv p cfg now n)"
proof -
  have inv: "server_inv p cfg s"
    using assms(1) by (simp add: timer_inv_def)
  obtain s' where s': "erase_conn i s = Ret s'" "server_inv p cfg s'" "length (conns s') = length (conns s)" "clk s' = clk s"
    using erase_conn_ok[OF inv assms(2)] by (auto simp: sat_False)
  have loop: "conns s3 = conns s2" if "for_each close_sock js s2 = Ret s3" for js s2 s3
    using that by (induction js arbitrary: s2) (auto simp: close_sock_def rbind_eq_Ret split: option.splits)
  have "conns s' = (conns s)[i := None]"
    using s'(1) idx_conns[OF assms(2)] by (auto simp: erase_conn_def Let_def rbind_eq_Ret dest!: loop split: if_splits)
  then have "times_le now s'"
    using assms(1) by (intro times_le_sub[of now s s']) (auto simp: timer_inv_def slot_get_update split: if_splits)
  then show ?thesis
    using s' assms(1) by (simp add: timer_inv_def)
qed

lemma timer_inv_cursor [simp]: "timer_inv p cfg now n (s\<lparr> clear_cursor := k \<rparr>) = timer_inv p cfg now n s"
  by (simp add: timer_inv_def server_inv_def tables_inv_def rest_inv_def times_le_def clk_def tab_def[abs_def])

lemma clear_conns_ok:
  "timer_inv p cfg now n s \<Longrightarrow> left \<le> n \<Longrightarrow> sat False (clear_conns left todo now s) (timer_inv p cfg now n)"
proof (induction left arbitrary: todo s)
  case (Suc left)
  define slot where "slot = (if clear_cursor s \<ge> length (conns s) then 0 else clear_cursor s)"
  let ?s = "s\<lparr> clear_cursor := slot + 1 \<rparr>"
  have ti: "timer_inv p cfg now n ?s"
    using Suc.prems(1) by simp
  have "slot < length (conns s)"
    using Suc.prems by (auto simp: slot_def timer_inv_def)
  then obtain q where q: "idx (conns s) slot = Ret q" "q = slot_get (conns s) slot"
    by (simp add: idx_def slot_get_def)
  show ?case
  proof (cases "todo = 0 \<or> q = None")
    case True
    then show ?thesis
      using Suc.IH Suc.prems ti q(1) by (auto simp: slot_def[symmetric] Let_def)
  next
    case False
    then obtain c where c: "q = Some c" "conn ?s slot = Some c" "todo \<noteq> 0"
      using q by auto
    have tm: "last_state_time (sc_info c) \<le> now" "last_hb_recv_time (sc_info c) \<le> now"
      using times_leD[of now ?s slot c] ti c(2) by (auto simp: timer_inv_def)
    have step: "sat False (if keep then Ret ?s else erase_conn slot ?s) (timer_inv p cfg now n)" for keep
      using ti erase_conn_timer[OF ti c(2)] by simp
    have fin: "sat False (rbind (if keep then Ret ?s else erase_conn slot ?s) (clear_conns left (todo - 1) now)) (timer_inv p cfg now n)" for keep
      by (rule sat_bind[OF step]) (use Suc.IH Suc.prems(2) c in auto)
    show ?thesis
      using fin[of True] fin[of False] q(1) c(1,3) tm by (auto simp: slot_def[symmetric] Let_def usub_def)
  qed
qed simp

lemma timer_inv_last_clear [simp]: "timer_inv p cfg now n (s\<lparr> last_conn_clear := k \<rparr>) = timer_inv p cfg now n s"
  by (simp add: timer_inv_def server_inv_def tables_inv_def rest_inv_def times_le_def clk_def tab_def[abs_def])

lemma clear_inactive_conns_ok:
  assumes "timer_inv p cfg now n s"
  shows "sat False (clear_inactive_conns now s) (timer_inv p cfg now n)"
proof -
  have n: "length (conns s) = n" "length (free_conns s) \<le> length (conns s)"
    using assms slots_live[OF server_invD(1)] by (auto simp: timer_inv_def)
  have "timer_inv p cfg now n (s\<lparr> last_conn_clear := now \<rparr>)"
    using assms by simp
  from clear_conns_ok[OF this, of n] show ?thesis
    using assms n by (auto simp: clear_inactive_conns_def live_conns_def usub_def Let_def)
qed

text \<open>The expired conversations of a connection lose their sockets.\<close>

lemma clear_inactive_facts:
  assumes wf: "cm_wf cm" and run: "clear_inactive cm now = (out, cm')"
  shows "cm_wf cm'" "\<And>v d. (v, d) \<in> set out \<Longrightarrow> conv_to_data cm v = Some d"
    "conv_to_data cm' = conv_to_data cm |` (- fst ` set out)" "distinct (map snd out)"
proof -
  show "cm_wf cm'"
    using clear_inactive_wf[OF wf, of now] run by simp
  let ?cm = "cm\<lparr> last_clear_time := now \<rparr>"
  have or: "out = [] \<and> cm' = cm \<or> expire_loop (num_to_clean (card (lru ?cm))) now ?cm = (out, cm')"
    using run by (auto simp: clear_inactive_def Let_def split: if_splits)
  have wf': "cm_wf ?cm"
    using wf by simp
  have "(\<forall>(c, d) \<in> set out. conv_to_data cm c = Some d) \<and> conv_to_data cm' = conv_to_data cm |` (- fst ` set out)"
    using or expire_loop_table[OF wf'] by (fastforce simp: restrict_map_def)
  then show tab: "\<And>v d. (v, d) \<in> set out \<Longrightarrow> conv_to_data cm v = Some d"
    "conv_to_data cm' = conv_to_data cm |` (- fst ` set out)"
    by auto
  have "distinct (map fst out)"
  proof (cases "out = []")
    case False
    then have "map fst out = map snd (take (num_to_clean (card (lru ?cm))) (filter (idle now) (sorted_list_of_set (lru ?cm))))"
      using or expire_loop_removes[OF wf'] by (metis fst_conv)
    moreover have "inj_on snd (set (sorted_list_of_set (lru ?cm)))"
      using cm_wf_finite_lru[OF wf'] cm_wf_lru[OF wf'] by (auto intro!: inj_onI)
    then have "distinct (map snd (sorted_list_of_set (lru ?cm)))"
      by (simp add: distinct_map)
    ultimately show ?thesis
      by (simp add: distinct_map_filter distinct_take flip: take_map)
  qed simp
  moreover have "inj_on snd (set out)"
    using tab(1) cm_wf_inj[OF wf] by (fastforce intro!: inj_onI)
  ultimately show "distinct (map snd out)"
    by (auto simp: distinct_map)
qed

lemma inv_expire:
  assumes inv: "server_inv p cfg s" and c: "conn s i = Some c" "sc_state c = SReady"
    and run: "clear_inactive (sc_convs c) now = (out, cm)"
  obtains X F where "for_each close_sock (map snd out) (put_conn i (c\<lparr> sc_convs := cm \<rparr>) s) =
      Ret ((put_conn i (c\<lparr> sc_convs := cm \<rparr>) s)\<lparr> socks := X, free_socks := F \<rparr>)"
    "server_inv p cfg ((put_conn i (c\<lparr> sc_convs := cm \<rparr>) s)\<lparr> socks := X, free_socks := F \<rparr>)"
proof -
  note cm = clear_inactive_facts[OF conn_convs_wf(1)[OF inv c(1)] run]
  let ?s = "put_conn i (c\<lparr> sc_convs := cm \<rparr>) s"
  have opened: "\<forall>j \<in> set (map snd out). slot_get (socks ?s) j \<noteq> None"
    using cm(2) conv_sock_open[OF inv c(1)] by fastforce
  obtain X F where X: "for_each close_sock (map snd out) ?s = Ret (?s\<lparr> socks := X, free_socks := F \<rparr>)" "slots_wf X F"
      "\<And>j. slot_get X j = (if j \<in> set (map snd out) then None else slot_get (socks s) j)" "length X = length (socks s)"
    by (rule close_socks_ok[of ?s "map snd out"]) (use server_invD(2)[OF inv] cm(4) opened in auto)
  let ?t = "?s\<lparr> socks := X, free_socks := F \<rparr>"
  have tab: "tab ?t = (tab s)(i \<mapsto> (sc_addr c, Some (oppsite_const_id (sc_info c)), cm, sc_generation c))"
    using tab_put[of s i "c\<lparr> sc_convs := cm \<rparr>"] tab_cong[of ?t ?s] c by (simp add: view_def)
  have ti: "tab s i = Some (sc_addr c, Some (oppsite_const_id (sc_info c)), sc_convs c, sc_generation c)"
    using tab_conn[OF c(1)] view_ready[OF c(2)] by simp
  have "tables_ok (tab ?t) (by_addr s) (by_const_id s) (owner X) (next_generation s)"
    unfolding tab by (rule tables_expire[OF server_invD(3)[OF inv] ti cm(1,3,2)]) (use owner_closed[OF X(3)] in simp_all)
  moreover have "ready_slots (tab ?t) = ready_slots (tab s)"
    unfolding tab using ti by (auto simp: ready_slots_def)
  ultimately have "tables_inv ?t"
    using inv X(2) slots_put[OF inv, of i] c(1) by (simp add: server_inv_def tables_inv_def)
  moreover have "rest_inv p cfg ?t"
    using inv X(4) c server_invD(12)[OF inv c(1)]
    by (auto simp: server_inv_def rest_inv_def clk_def conn_put conn_ok_def split: if_splits)
  ultimately show thesis
    using that X(1) by (simp add: server_inv_def)
qed

lemma send_heartbeat_conns:
  assumes "send_heartbeat p i s = Ret s'" "conn s i = Some c"
  obtains ar where "conns s' = conns (put_conn i (c\<lparr> sc_info := (sc_info c)\<lparr> anti_replay := ar \<rparr> \<rparr>) s)"
  using assms that
  by (auto simp: send_heartbeat_def submit_job_def Let_def rbind_eq_Ret prepare_safer_def split: prod.splits)

lemma times_le_put:
  assumes "times_le t s" "conn s i \<noteq> None" "conns s' = conns (put_conn i c s)"
    "last_state_time (sc_info c) \<le> t" "last_hb_recv_time (sc_info c) \<le> t" "last_hb_sent_time (sc_info c) \<le> t"
  shows "times_le t s'"
  using assms by (auto simp: times_le_def conn_put split: if_splits)

lemma timer_slot_ok:
  assumes pr: "hash_lengths p" "aes_crate_ok p" and ti: "timer_inv p cfg now n s" and i: "i < n"
  shows "sat False (timer_slot p now i s) (timer_inv p cfg now n)"
proof (cases "\<exists>c. conn s i = Some c \<and> sc_state c = SReady")
  case False
  then show ?thesis
    using ti i by (auto simp: timer_slot_def idx_def timer_inv_def slot_get_def split: option.split)
next
  case True
  then obtain c where c: "conn s i = Some c" "sc_state c = SReady"
    by blast
  have inv: "server_inv p cfg s" and tm: "times_le now s" and clk: "now \<le> clk s" and n: "length (conns s) = n"
    using ti by (simp_all add: timer_inv_def)
  obtain out cm where ex: "clear_inactive (sc_convs c) now = (out, cm)"
    by fastforce
  let ?c = "c\<lparr> sc_convs := cm \<rparr>"
  obtain X F where X: "for_each close_sock (map snd out) (put_conn i ?c s) = Ret ((put_conn i ?c s)\<lparr> socks := X, free_socks := F \<rparr>)"
      "server_inv p cfg ((put_conn i ?c s)\<lparr> socks := X, free_socks := F \<rparr>)"
    by (rule inv_expire[OF inv c ex])
  let ?t = "(put_conn i ?c s)\<lparr> socks := X, free_socks := F \<rparr>"
  have t: "conn ?t i = Some ?c" "times_le now ?t" "now \<le> clk ?t" "length (conns ?t) = n"
    using c(1) clk n times_leD[OF tm c(1)] by (auto simp: conn_put clk_def intro!: times_le_put[OF tm, of i _ ?c])
  have hb: "last_hb_sent_time (sc_info c) \<le> now"
    using times_leD[OF tm c(1)] by simp
  obtain s2 where s2: "send_heartbeat p i ?t = Ret s2" "quiet p cfg ?t s2"
    using send_heartbeat_ok[OF pr X(2) t(1)] by (auto simp: sat_False)
  obtain ar where cs: "conns s2 = conns (put_conn i (?c\<lparr> sc_info := (sc_info ?c)\<lparr> anti_replay := ar \<rparr> \<rparr>) ?t)"
    by (rule send_heartbeat_conns[OF s2(1) t(1)])
  have tm2: "times_le now s2"
    by (rule times_le_put[OF t(2) _ cs]) (use times_leD[OF tm c(1)] t(1) in simp_all)
  obtain c2 where c2: "conn s2 i = Some c2"
    using quiet_conn[OF s2(2) t(1)] by blast
  let ?c2 = "c2\<lparr> sc_info := (sc_info c2)\<lparr> last_hb_sent_time := now \<rparr> \<rparr>"
  have clk2: "now \<le> clk s2" "length (conns s2) = n"
    using s2(2) t(3,4) by (simp_all add: quiet_def)
  have "server_inv p cfg (put_conn i ?c2 s2)"
    by (rule quiet_inv[OF quiet_info[OF quiet_inv[OF s2(2)] c2]]) (use clk2 in \<open>simp add: info_step_def\<close>)
  moreover have "times_le now (put_conn i ?c2 s2)"
    by (rule times_le_put[OF tm2 _ refl]) (use times_leD[OF tm2 c2] c2 in simp_all)
  ultimately show ?thesis
    using X t hb s2(1) c c2 clk2 idx_conns[OF c(1)] ex by (simp add: timer_slot_def usub_def timer_inv_def Let_def)
qed

lemma on_timer_ok:
  assumes pr: "hash_lengths p" "aes_crate_ok p" and inv: "server_inv p cfg s"
  shows "sat False (on_timer p s) (server_inv p cfg)"
proof -
  obtain now e where ne: "now_ms (sv_env s) = (now, e)"
    by fastforce
  let ?s = "s\<lparr> sv_env := e \<rparr>" let ?n = "length (conns s)"
  have "times_le now s"
    using times_le_clk[OF inv] now_ms_ok(3)[OF inv ne] by simp
  then have "timer_inv p cfg now ?n ?s"
    using now_ms_ok[OF inv ne] quiet_inv by (auto simp: timer_inv_def times_le_def)
  then have "sat False (clear_inactive_conns now ?s) (timer_inv p cfg now ?n)"
    by (rule clear_inactive_conns_ok)
  moreover have "sat False (for_each (timer_slot p now) [0..<length (conns s1)] s1) (server_inv p cfg)"
    if s1: "timer_inv p cfg now ?n s1" for s1
  proof -
    have "sat False (for_each (timer_slot p now) [0..<length (conns s1)] s1) (timer_inv p cfg now ?n)"
      by (rule for_each_sat[where I = "timer_inv p cfg now ?n", OF s1])
         (use s1 timer_slot_ok[OF pr] in \<open>simp add: timer_inv_def[of p cfg now ?n s1]\<close>)
    then show ?thesis
      by (rule sat_mono) (simp add: timer_inv_def)
  qed
  ultimately show ?thesis
    unfolding on_timer_def ne prod.case Let_def by (rule sat_bind)
qed


section \<open>Completions\<close>

lemma valid_ready_conn:
  assumes "valid_ready s key"
  obtains c where "conn s (jk_slot key) = Some c" "sc_state c = SReady" "sc_generation c = jk_generation key"
  using assms that by (auto simp: valid_ready_def split: option.splits)

text \<open>Within one completion the connection stays the same one: same slot, same generation, ready.\<close>

definition serving :: "prims \<Rightarrow> Config \<Rightarrow> nat \<Rightarrow> Server \<Rightarrow> bool" where
  "serving p cfg i s \<longleftrightarrow> server_inv p cfg s \<and> (\<exists>c. conn s i = Some c \<and> sc_state c = SReady)"

lemma serving_quiet: "quiet p cfg s s' \<Longrightarrow> conn s i = Some c \<Longrightarrow> sc_state c = SReady \<Longrightarrow> serving p cfg i s'"
  unfolding serving_def quiet_def by fastforce

lemma inv_convs:
  assumes inv: "server_inv p cfg s" and c: "conn s i = Some c" "sc_state c = SReady"
    and tabs: "tables_ok ((tab s)(i \<mapsto> (sc_addr c, Some (oppsite_const_id (sc_info c)), cm, sc_generation c)))
      (by_addr s) (by_const_id s) (owner X) (next_generation s)"
    and X: "slots_wf X F" "length (socks s) \<le> length X"
  shows "server_inv p cfg (put_conn i (c\<lparr> sc_convs := cm \<rparr>)
    (s\<lparr> sv_opened := k, socks := X, free_socks := F, sv_registered := r \<rparr>))" (is "server_inv p cfg ?t")
proof -
  let ?s = "s\<lparr> sv_opened := k, socks := X, free_socks := F, sv_registered := r \<rparr>"
  have some: "conn ?s i \<noteq> None"
    using c by simp
  have tab: "tab ?t = (tab s)(i \<mapsto> (sc_addr c, Some (oppsite_const_id (sc_info c)), cm, sc_generation c))"
    using tab_put[OF some] tab_cong[of ?s s] c by (simp add: view_def)
  have ti: "tab s i = Some (sc_addr c, Some (oppsite_const_id (sc_info c)), sc_convs c, sc_generation c)"
    using tab_conn[OF c(1)] view_ready[OF c(2)] by simp
  have "ready_slots (tab ?t) = ready_slots (tab s)"
    unfolding tab using ti by (auto simp: ready_slots_def)
  moreover have "slots_wf (conns ?t) (free_conns s)"
    using slots_put[OF inv, of i "c\<lparr> sc_convs := cm \<rparr>"] c by (simp add: put_conn_def)
  ultimately have "tables_inv ?t"
    using inv X(1) tabs[folded tab] by (simp add: server_inv_def tables_inv_def)
  moreover have "rest_inv p cfg ?t"
    using inv X(2) some server_invD(12)[OF inv c(1)]
    by (auto simp: server_inv_def rest_inv_def clk_def conn_put conn_ok_def split: if_splits)
  ultimately show ?thesis
    by (simp add: server_inv_def)
qed

lemma open_conv_ok:
  assumes inv: "server_inv p cfg s" and c: "conn s i = Some c" "sc_state c = SReady"
  shows "sat False (open_conv i v now s) (\<lambda>(opened, s'). server_inv p cfg s' \<and> clk s' = clk s \<and>
    (\<exists>c'. conn s' i = Some c' \<and> sc_state c' = SReady \<and> (opened \<longrightarrow> is_conv_used (sc_convs c') v)))"
proof (cases "is_conv_used (sc_convs c) v \<or> cm_len (sc_convs c) \<ge> MAX_CONV_NUM")
  case True
  then show ?thesis
    using inv c by (auto simp: open_conv_def)
next
  case False
  let ?k = "\<lparr> cs_sock = sv_opened s, cs_conn_slot = i, cs_conv = v \<rparr>"
  obtain j X F where al: "slot_alloc (socks s) (free_socks s) ?k = Ret (j, X, F)" "slot_get (socks s) j = None"
      "slots_wf X F" "\<And>l. slot_get X l = (if l = j then Some ?k else slot_get (socks s) l)"
    by (rule slot_alloc_ok[OF server_invD(2)[OF inv], of ?k]) blast
  have len: "length (socks s) \<le> length X" "j < length X" "X ! j = Some ?k"
    using al(1) al(4)[of j] slot_get_Some[of X j ?k] by (auto simp: slot_alloc_def split: list.splits if_splits)
  have ti: "tab s i = Some (sc_addr c, Some (oppsite_const_id (sc_info c)), sc_convs c, sc_generation c)"
    using tab_conn[OF c(1)] view_ready[OF c(2)] by simp
  have own: "owner X = (owner (socks s))(j \<mapsto> (i, v))"
    by (rule ext) (simp add: owner_def al(4))
  have opened: "server_inv p cfg (put_conn i (c\<lparr> sc_convs := cm_insert (sc_convs c) v j now \<rparr>)
      (s\<lparr> sv_opened := sv_opened s + 1, socks := X, free_socks := F, sv_registered := sv_registered s + 1 \<rparr>))"
    by (rule inv_convs[OF inv c _ al(3) len(1)], unfold own,
        rule tables_open[OF server_invD(3)[OF inv] ti]) (use al(2) False in \<open>simp_all add: owner_None is_conv_used_def\<close>)
  have "slots_wf (X[j := None]) (j # F)"
    by (rule slots_wf_take[OF al(3)]) (simp add: al(4))
  moreover have "owner (X[j := None]) = owner (socks s)"
    using len(2) al(2,4) by (intro ext) (simp add: owner_def slot_get_update)
  ultimately have closed: "server_inv p cfg (s\<lparr> sv_opened := sv_opened s + 1,
      sv_registered := sv_registered s + 1, socks := X[j := None], free_socks := j # F \<rparr>)" "server_inv p cfg (s\<lparr> sv_opened := sv_opened s + 1 \<rparr>)"
    using inv len(1)
    by (auto simp: server_inv_def tables_inv_def rest_inv_def clk_def tab_def[abs_def])
  show ?thesis
    using False inv c al(1) len opened closed
    by (auto simp: open_conv_def Let_def close_sock_def idx_def conn_put clk_def cm_insert_def is_conv_used_def)
qed

lemma inv_touch:
  assumes inv: "server_inv p cfg s" and c: "conn s i = Some c" "sc_state c = SReady"
  shows "server_inv p cfg (put_conn i (c\<lparr> sc_convs := update_active_time (sc_convs c) v now \<rparr>) s)"
proof -
  let ?m = "update_active_time (sc_convs c) v now"
  have ti: "tab s i = Some (sc_addr c, Some (oppsite_const_id (sc_info c)), sc_convs c, sc_generation c)"
    using tab_conn[OF c(1)] view_ready[OF c(2)] by simp
  have "cm_wf ?m" "conv_to_data ?m = conv_to_data (sc_convs c)"
    using update_active_time_wf[OF conn_convs_wf(1)[OF inv c(1)]] by (auto simp: update_active_time_def split: option.split)
  from inv_convs[OF inv c tables_touch[OF server_invD(3)[OF inv] ti this] server_invD(2)[OF inv] order.refl,
      where k = "sv_opened s" and r = "sv_registered s"]
  show ?thesis
    by (cases s) simp
qed

lemma heard_ok:
  assumes "server_inv p cfg s" "conn s i = Some c" "sc_state c = SReady" "now \<le> clk s"
  shows "serving p cfg i (put_conn i (c\<lparr> sc_info := (sc_info c)\<lparr> last_hb_recv_time := now \<rparr> \<rparr>) s)"
  by (rule serving_quiet[OF quiet_info[OF assms(1,2)] assms(2,3)]) (use assms(4) in \<open>simp add: info_step_def\<close>)

lemma on_ready_packet_ok:
  assumes sv: "serving p cfg i s"
  shows "sat False (on_ready_packet i t payload s) (serving p cfg i)"
proof -
  obtain c where inv: "server_inv p cfg s" and c: "conn s i = Some c" "sc_state c = SReady"
    using sv by (auto simp: serving_def)
  obtain now e where ne: "now_ms (sv_env s) = (now, e)"
    by fastforce
  let ?s = "s\<lparr> sv_env := e \<rparr>"
  have inv': "server_inv p cfg ?s" and now: "now \<le> clk ?s"
    using now_ms_ok[OF inv ne] quiet_inv by blast+
  have sv': "serving p cfg i ?s" and heard: "serving p cfg i (put_conn i (c\<lparr> sc_info := (sc_info c)\<lparr> last_hb_recv_time := now \<rparr> \<rparr>) ?s)"
    using heard_ok[OF inv' _ c(2) now] inv' c by (auto simp: serving_def)
  have data: "sat False (rbind (open_conv i v now s1) (\<lambda>(opened, s2).
      if \<not> opened then Ret s2
      else rbind (conn_at s2 i) (\<lambda>c2. case find_data_by_conv (sc_convs c2) v of None \<Rightarrow> Panic
        | Some j \<Rightarrow> let s3 = put_conn i (c2\<lparr> sc_convs := update_active_time (sc_convs c2) v now \<rparr>) s2 in
            rbind (idx (socks s3) j) (\<lambda>cs. Ret (case cs of None \<Rightarrow> s3
              | Some k \<Rightarrow> s3\<lparr> sv_udp_sent := sv_udp_sent s3 @ [(cs_sock k, d)] \<rparr>))))) (serving p cfg i)"
    if s1: "serving p cfg i s1" for s1 v d
  proof -
    obtain c1 where i1: "server_inv p cfg s1" and c1: "conn s1 i = Some c1" "sc_state c1 = SReady"
      using s1 by (auto simp: serving_def)
    obtain opened s2 c2 where o: "open_conv i v now s1 = Ret (opened, s2)" "server_inv p cfg s2" "conn s2 i = Some c2"
        "sc_state c2 = SReady" "opened \<longrightarrow> is_conv_used (sc_convs c2) v"
      using open_conv_ok[OF i1 c1, of v now] by (auto simp: sat_False)
    show ?thesis
    proof (cases "opened")
      case True
      then obtain j where j: "conv_to_data (sc_convs c2) v = Some j"
        using o(5) by (auto simp: is_conv_used_def)
      obtain k where k: "slot_get (socks s2) j = Some k"
        using conv_sock_open[OF o(2,3) j] by blast
      let ?s3 = "put_conn i (c2\<lparr> sc_convs := update_active_time (sc_convs c2) v now \<rparr>) s2"
      have "serving p cfg i (?s3\<lparr> sv_udp_sent := u \<rparr>)" for u
        using inv_touch[OF o(2,3,4), of v now] o(3,4)
        by (auto simp: serving_def conn_put server_inv_def tables_inv_def rest_inv_def clk_def tab_def[abs_def])
      then show ?thesis
        using True o(1,3) j slot_get_Some[OF k] by (simp add: find_data_by_conv_def idx_def Let_def)
    qed (use o in \<open>simp add: serving_def\<close>)
  qed
  obtain q where q: "parse_data_payload payload = Ret q"
    using parse_data_payload_total by blast
  show ?thesis
  proof (cases q)
    case None
    then show ?thesis
      using c sv' heard q by (simp add: on_ready_packet_def ne Let_def)
  next
    case (Some vd)
    obtain v d where vd: "vd = (v, d)"
      by fastforce
    show ?thesis
      using c sv' heard q data[OF sv', of v d] data[OF heard, of v d]
      unfolding on_ready_packet_def ne prod.case Let_def Some vd
      by (simp add: Some vd del: sat_rbind)
  qed
qed

lemma accept_plain_ok:
  assumes "serving p cfg i (snd st)"
  shows "sat False (accept_plain i plain st) (\<lambda>st'. serving p cfg i (snd st'))"
proof -
  obtain any s where st: "st = (any, s)"
    by fastforce
  obtain c where inv: "server_inv p cfg s" and c: "conn s i = Some c" "sc_state c = SReady"
    using assms by (auto simp: serving_def st)
  obtain e' info' r where a: "accept_safer_offset (sv_env s) (sc_info c) plain (cfg_hb_mode (sv_cfg s)) = Ret (e', info', r)"
      "same_session (sc_info c) info'" "r \<noteq> None \<Longrightarrow> 18 \<le> length plain \<and> snd (the r) = 18 \<and> fst (the r) \<in> {TYPE_HEARTBEAT, TYPE_DATA}"
      "anti_replay info' = (case addressed (sc_info c) plain of None \<Rightarrow> anti_replay (sc_info c)
         | Some n \<Rightarrow> snd (is_valid (anti_replay (sc_info c)) n))" "e' = sv_env s \<or> e' = snd (now_ms (sv_env s))"
    by (rule accept_safer_offset_result[of "sv_env s" "sc_info c" plain "cfg_hb_mode (sv_cfg s)"]) blast
  have "env_le (sv_env s) e'"
    using a(5) env_le_basic(1) by auto
  then have i1: "server_inv p cfg (s\<lparr> sv_env := e' \<rparr>)"
    using quiet_inv[OF quiet_env[OF inv]] by blast
  let ?s = "put_conn i (c\<lparr> sc_info := info' \<rparr>) (s\<lparr> sv_env := e' \<rparr>)"
  have "info_step (clk (s\<lparr> sv_env := e' \<rparr>)) (sc_info c) info'"
    using a(2,4) by (auto simp: info_step_def same_sessionD split: option.splits)
  then have "quiet p cfg (s\<lparr> sv_env := e' \<rparr>) ?s"
    by (intro quiet_info[OF i1]) (simp_all add: c(1))
  then have s1: "serving p cfg i ?s"
    by (rule serving_quiet) (use c in simp_all)
  show ?thesis
  proof (cases r)
    case None
    then show ?thesis
      using s1 c a(1) by (simp add: accept_plain_def st Let_def)
  next
    case (Some x)
    then obtain t where x: "x = (t, 18)" "18 \<le> length plain"
      using a(3) by (cases x) simp
    have "sat False (on_ready_packet i t (drop 18 plain) ?s) (serving p cfg i)"
      by (rule on_ready_packet_ok[OF s1])
    then show ?thesis
      using Some x c a(1) by (simp add: accept_plain_def st Let_def slice_from_def)
  qed
qed

lemma on_done_ok:
  assumes inv: "server_inv p cfg s"
  shows "sat False (on_done d s) (server_inv p cfg)"
proof (cases d)
  case (Encrypted key w)
  show ?thesis
  proof (cases "w = None \<or> \<not> valid_ready s key")
    case False
    then obtain wire where w: "w = Some wire" "valid_ready s key"
      by auto
    obtain c where c: "conn s (jk_slot key) = Some c"
      by (rule valid_ready_conn[OF w(2)])
    have "family_ok (ci_raw (sc_info c))"
      using server_invD(12)[OF inv c] by (simp add: conn_ok_def)
    from transmit_safer_ok[OF this, of "sv_ctx s" "sv_env s" wire]
    obtain ctx e raw where t: "transmit_safer (sv_ctx s) (sv_env s) (ci_raw (sc_info c)) wire = Ret (ctx, e, raw)"
        "same_settings (sv_ctx s) ctx" "env_le (sv_env s) e" "ends raw = ends (ci_raw (sc_info c))"
      by (auto simp: sat_False)
    have "server_inv p cfg (put_conn (jk_slot key) (c\<lparr> sc_info := (sc_info c)\<lparr> ci_raw := raw \<rparr> \<rparr>) (s\<lparr> sv_ctx := ctx, sv_env := e \<rparr>))"
      by (rule quiet_inv[OF quiet_info[OF quiet_inv[OF quiet_send[OF inv t(2,3)]]]])
         (use c t(4) in \<open>simp_all add: info_step_def\<close>)
    then show ?thesis
      using c w t(1) by (simp add: Encrypted)
  qed (use inv in \<open>auto simp: Encrypted split: option.split\<close>)
next
  case (Decrypted key plains meta)
  show ?thesis
  proof (cases "plains = [] \<or> \<not> valid_ready s key")
    case False
    then have "valid_ready s key"
      by simp
    then have "serving p cfg (jk_slot key) (snd (False, s))"
      by (rule valid_ready_conn) (simp add: serving_def inv)
    then have "sat False (for_each (accept_plain (jk_slot key)) plains (False, s)) (\<lambda>st. serving p cfg (jk_slot key) (snd st))"
      by (rule for_each_sat[where I = "\<lambda>st. serving p cfg (jk_slot key) (snd st)"]) (rule accept_plain_ok)
    then obtain any s1 c1 where f: "for_each (accept_plain (jk_slot key)) plains (False, s) = Ret (any, s1)"
        "server_inv p cfg s1" "conn s1 (jk_slot key) = Some c1"
      by (auto simp: sat_False serving_def)
    have "server_inv p cfg (put_conn (jk_slot key) (c1\<lparr> sc_info := (sc_info c1)\<lparr>
        ci_raw := after_recv (sv_ctx s1) (ci_raw (sc_info c1)) meta \<rparr> \<rparr>) s1)"
      by (rule quiet_inv[OF quiet_info[OF f(2,3)]]) (simp add: info_step_def)
    then show ?thesis
      using False f by (simp add: Decrypted)
  qed (use inv in \<open>auto simp: Decrypted\<close>)
qed

lemma server_collect_ok:
  assumes inv: "server_inv p cfg s"
  shows "sat False (server_collect p s) (server_inv p cfg)"
proof -
  obtain pl ds where c: "collect p (sv_sched s (sv_tick s)) (sv_pipe s) = Ret (pl, ds)" "pipe_ok p pl"
    using collect_ok[OF server_invD(10)[OF inv], of "sv_sched s (sv_tick s)"] by (auto simp: sat_False)
  let ?s = "s\<lparr> sv_pipe := pl, sv_tick := sv_tick s + 1 \<rparr>"
  have "s\<lparr> sv_pipe := pl, sv_env := sv_env s, sv_tick := sv_tick s + 1 \<rparr> = ?s"
    by (cases s) simp
  then have "server_inv p cfg ?s"
    using quiet_inv[OF quiet_pipe[OF inv c(2) env_le_refl]] by metis
  then have "sat False (for_each on_done ds ?s) (server_inv p cfg)"
    by (rule for_each_sat[where I = "server_inv p cfg"]) (rule on_done_ok)
  then show ?thesis
    by (simp add: server_collect_def c(1))
qed


section \<open>Datagrams from the remote side\<close>

lemma on_sock_packet_ok:
  assumes pr: "hash_lengths p" "aes_crate_ok p" and inv: "server_inv p cfg s" and i: "i < length (conns s)"
  shows "sat False (on_sock_packet p i v d s) (quiet p cfg s)"
proof (cases "\<exists>c. conn s i = Some c \<and> sc_state c = SReady")
  case True
  then obtain c where c: "conn s i = Some c" "sc_state c = SReady"
    by blast
  obtain plain info where pp: "prepare_safer_data (sc_info c) v d = (plain, info)"
    by fastforce
  have "quiet p cfg s (put_conn i (c\<lparr> sc_info := info \<rparr>) s)"
    by (rule quiet_info[OF inv c(1) prepare_safer_step(2)[OF pp]])
  then show ?thesis
    using submit_job_after[OF pr] c inv idx_conns[OF c(1)] by (simp add: on_sock_packet_def pp Let_def)
next
  case False
  then show ?thesis
    using inv i by (auto simp: on_sock_packet_def idx_def slot_get_def split: option.split)
qed

lemma quiet_socks: "quiet p cfg s s' \<Longrightarrow> socks s' = socks s \<and> length (conns s') = length (conns s)"
  by (simp add: quiet_def)

lemma sock_slot:
  assumes inv: "server_inv p cfg s" and k: "slot_get (socks s) j = Some k"
  shows "cs_conn_slot k < length (conns s)"
proof -
  have "owner (socks s) j = Some (cs_conn_slot k, cs_conv k)"
    using k by (simp add: owner_def)
  then obtain c where "conn s (cs_conn_slot k) = Some c"
    using tables_okD(4)[OF server_invD(3)[OF inv], of j] by (auto simp: tab_Some)
  then show ?thesis
    using slot_get_Some by fast
qed

lemma on_sock_readable_ok:
  assumes pr: "hash_lengths p" "aes_crate_ok p"
  shows "server_inv p cfg s \<Longrightarrow> j < length (socks s) \<Longrightarrow> sat False (on_sock_readable p j n bs s) (\<lambda>(more, s'). quiet p cfg s s')"
proof (induction bs arbitrary: n s)
  case Nil
  then show ?case
    by (simp add: idx_def)
next
  case (Cons b bs)
  show ?case
  proof (cases "socks s ! j")
    case None
    then show ?thesis
      using Cons.prems by (simp add: idx_def)
  next
    case (Some k)
    then have k: "slot_get (socks s) j = Some k"
      using Cons.prems(2) by (simp add: slot_get_def)
    have "quiet p cfg s s"
      using Cons.prems(1) by simp
    then have "sat False (for_each (on_sock_packet p (cs_conn_slot k) (cs_conv k)) b s) (quiet p cfg s)"
    proof (rule for_each_sat[where I = "quiet p cfg s"])
      fix d s' assume q: "quiet p cfg s s'"
      have "cs_conn_slot k < length (conns s')"
        using sock_slot[OF Cons.prems(1) k] quiet_socks[OF q] by simp
      from on_sock_packet_ok[OF pr quiet_inv[OF q] this]
      show "sat False (on_sock_packet p (cs_conn_slot k) (cs_conv k) d s') (quiet p cfg s)"
        by (rule sat_mono) (rule quiet_trans[OF q])
    qed
    then obtain s1 where s1: "for_each (on_sock_packet p (cs_conn_slot k) (cs_conv k)) b s = Ret s1" "quiet p cfg s s1"
      by (auto simp: sat_False)
    have "sat False (on_sock_readable p j (n + 1) bs s1) (\<lambda>(more, s'). quiet p cfg s s')"
      by (rule sat_mono[OF Cons.IH[OF quiet_inv[OF s1(2)]]])
         (use quiet_socks[OF s1(2)] Cons.prems(2) quiet_trans[OF s1(2)] in auto)
    then show ?thesis
      using s1 Cons.prems(2) Some by (simp add: idx_def)
  qed
qed

lemma inv_pending:
  assumes "server_inv p cfg s" "\<forall>j \<in> set js. j < length (socks s)"
  shows "server_inv p cfg (s\<lparr> socks_pending := js \<rparr>)"
  using assms by (simp add: server_inv_def tables_inv_def rest_inv_def clk_def tab_def[abs_def])

lemma inv_pendingD: "server_inv p cfg s \<Longrightarrow> j \<in> set (socks_pending s) \<Longrightarrow> j < length (socks s)"
  by (simp add: server_inv_def rest_inv_def)

lemma inv_raw_pending [simp]: "server_inv p cfg (s\<lparr> raw_pending := b \<rparr>) = server_inv p cfg s"
  by (simp add: server_inv_def tables_inv_def rest_inv_def clk_def tab_def[abs_def])

lemma drain_sock_ok:
  assumes pr: "hash_lengths p" "aes_crate_ok p" and inv: "server_inv p cfg s" and j: "j < length (socks s)"
  shows "sat False (drain_sock p udp j s) (\<lambda>s'. server_inv p cfg s' \<and> length (socks s') = length (socks s))"
proof -
  obtain more s1 where s1: "on_sock_readable p j 0 (udp j) s = Ret (more, s1)" "quiet p cfg s s1"
    using on_sock_readable_ok[OF pr inv j, of 0 "udp j"] by (auto simp: sat_False)
  have "\<forall>l \<in> set (socks_pending s1 @ [j]). l < length (socks s1)"
    using quiet_inv[OF s1(2)] quiet_socks[OF s1(2)] j by (auto simp: server_inv_def rest_inv_def)
  then show ?thesis
    using inv_pending[OF quiet_inv[OF s1(2)]] quiet_inv[OF s1(2)] quiet_socks[OF s1(2)]
    by (simp add: drain_sock_def s1(1))
qed


section \<open>Event loop\<close>

text \<open>The poller reports only sockets that were registered with it.\<close>

definition known_event :: "Server \<Rightarrow> ServerEvent \<Rightarrow> bool" where
  "known_event s ev \<longleftrightarrow> (case ev of EvSock j \<Rightarrow> j < length (socks s) | _ \<Rightarrow> True)"

lemma mark_events_ok:
  "server_inv p cfg s \<Longrightarrow> list_all (known_event s) evs \<Longrightarrow> server_inv p cfg (foldl mark_event s evs)"
proof (induction evs arbitrary: s)
  case (Cons ev evs)
  have "server_inv p cfg (mark_event s ev) \<and> socks (mark_event s ev) = socks s"
    using Cons.prems inv_pendingD[of p cfg s] by (cases ev) (auto simp: known_event_def intro!: inv_pending)
  moreover from this have "known_event (mark_event s ev) = known_event s"
    by (auto simp: known_event_def fun_eq_iff split: ServerEvent.split)
  ultimately show ?case
    using Cons by simp
qed simp

lemma flush_keeps: "server_inv p cfg s \<Longrightarrow> server_inv p cfg (s\<lparr> sv_ctx := flush_tx (sv_ctx s) \<rparr>)"
  by (simp add: server_inv_def tables_inv_def rest_inv_def clk_def tab_def[abs_def] flush_tx_def Let_def split: prod.split)

lemma event_round_ok:
  assumes pr: "hash_lengths p" "aes_crate_ok p" and inv: "server_inv p cfg s" and evs: "list_all (known_event s) evs"
  shows "sat (may_abort cfg) (event_round p evs raw udp lt s) (\<lambda>(lt', s'). server_inv p cfg s')"
proof -
  obtain t e where ne: "now_ms (sv_env s) = (t, e)"
    by fastforce
  let ?s = "s\<lparr> sv_env := e \<rparr>" let ?s1 = "foldl mark_event ?s evs"
  have "server_inv p cfg ?s"
    using now_ms_ok(1)[OF inv ne] by (rule quiet_inv)
  then have i1: "server_inv p cfg ?s1"
    by (rule mark_events_ok) (use evs in \<open>simp add: known_event_def[abs_def]\<close>)
  have r: "sat (may_abort cfg) (if raw_pending ?s1
      then rbind (on_raw_readable p 0 raw ?s1) (\<lambda>(more, s'). Ret (s'\<lparr> raw_pending := more \<rparr>)) else Ret ?s1) (server_inv p cfg)"
  proof -
    have "sat (may_abort cfg) (rbind (on_raw_readable p 0 raw ?s1) (\<lambda>(more, s'). Ret (s'\<lparr> raw_pending := more \<rparr>))) (server_inv p cfg)"
      by (rule sat_bind[OF on_raw_readable_ok[OF pr i1]]) auto
    then show ?thesis
      using i1 by (simp del: sat_rbind)
  qed
  have u: "sat (may_abort cfg) (for_each (drain_sock p udp) (socks_pending s2) (s2\<lparr> socks_pending := [] \<rparr>)) (server_inv p cfg)"
    if i2: "server_inv p cfg s2" for s2
  proof -
    let ?I = "\<lambda>s'. server_inv p cfg s' \<and> length (socks s') = length (socks s2)"
    have "?I (s2\<lparr> socks_pending := [] \<rparr>)"
      using inv_pending[OF i2, of "[]"] by simp
    then have "sat False (for_each (drain_sock p udp) (socks_pending s2) (s2\<lparr> socks_pending := [] \<rparr>)) ?I"
      by (rule for_each_sat[where I = ?I]) (use drain_sock_ok[OF pr] inv_pendingD[OF i2] in force)
    then show ?thesis
      by (rule sat_weaken) simp_all
  qed
  have c: "sat (may_abort cfg) (server_collect p s3) (server_inv p cfg)" if "server_inv p cfg s3" for s3
    using sat_any[OF server_collect_ok[OF that]] .
  have k: "sat (may_abort cfg) (let (now, e4) = now_ms (sv_env s4); s5 = s4\<lparr> sv_env := e4 \<rparr> in
      rbind (if now - lt \<ge> TIMER_INTERVAL_MS
             then rbind (on_timer p s5) (\<lambda>s'. rbind (server_collect p s') (\<lambda>s''. Ret (now, s'')))
             else Ret (lt, s5)) (\<lambda>(last', s6). Ret (last', s6\<lparr> sv_ctx := flush_tx (sv_ctx s6) \<rparr>)))
      (\<lambda>(lt', s'). server_inv p cfg s')" if i4: "server_inv p cfg s4" for s4
  proof -
    obtain now e4 where n4: "now_ms (sv_env s4) = (now, e4)"
      by fastforce
    let ?s5 = "s4\<lparr> sv_env := e4 \<rparr>"
    have i5: "server_inv p cfg ?s5"
      using now_ms_ok(1)[OF i4 n4] by (rule quiet_inv)
    have "sat (may_abort cfg) (rbind (on_timer p ?s5) (server_collect p)) (server_inv p cfg)"
      by (rule sat_bind[OF sat_any[OF on_timer_ok[OF pr i5]] c])
    then have "sat (may_abort cfg) (if now - lt \<ge> TIMER_INTERVAL_MS
        then rbind (on_timer p ?s5) (\<lambda>s'. rbind (server_collect p s') (\<lambda>s''. Ret (now, s''))) else Ret (lt, ?s5))
        (\<lambda>(lt', s'). server_inv p cfg s')"
      using i5 by simp
    then show ?thesis
      unfolding n4 prod.case Let_def
      by (rule sat_bind) (use flush_keeps in auto)
  qed
  show ?thesis
    unfolding event_round_def ne Let_def prod.case
    by (rule sat_bind[OF r], rule sat_bind[OF u], assumption, rule sat_bind[OF c], assumption, rule k[unfolded Let_def])
qed


section \<open>Properties\<close>

text \<open>The states the server can reach: set up by \<open>run\<close>, then any number of rounds of the event
  loop on any packets, with the poller reporting registered sockets only. Outside the program,
  the clock does not go back and a hash map iterates over every entry once.\<close>

inductive server_run :: "prims \<Rightarrow> Config \<Rightarrow> Server \<Rightarrow> bool" for p cfg where
  server_start: "engine p crypto \<Longrightarrow> mono (e_clock e) \<Longrightarrow> order_ok hash_order \<Longrightarrow>
     server_run p cfg (server_new cfg crypto const_id accept ifindex thread_env sched open_ok register_ok hash_order e)"
| server_round: "server_run p cfg s \<Longrightarrow> list_all (known_event s) events \<Longrightarrow>
     event_round p events raw udp last_timer s = Ret (last', s') \<Longrightarrow> server_run p cfg s'"

lemma server_new_inv:
  assumes "engine p crypto" "mono (e_clock e)" "order_ok hash_order"
  shows "server_inv p cfg (server_new cfg crypto const_id accept ifindex thread_env sched open_ok register_ok hash_order e)"
proof -
  obtain ctx e1 where c: "RawCtx_new cfg accept e = (ctx, e1)"
    by fastforce
  let ?pl = "Pipeline_new (map thread_env [0..<cfg_threads cfg]) crypto (cfg_fix_gro cfg)"
  have "pipe_run p ?pl ?pl [] []"
    by (rule pipe_run.intros)
  then have "pipe_ok p ?pl"
    by (rule pipe_okI[OF assms(1)])
  moreover have "tables_ok (\<lambda>_. None :: ip_port entry option) Map.empty Map.empty (\<lambda>_. None) 1"
    by (simp add: tables_ok_def entries_ok_def)
  moreover have "rc_raw_mode (set_filter k ctx) = cfg_raw_mode cfg" for k
    using c by (auto simp: RawCtx_new_def set_filter_def split: prod.splits)
  moreover have "e_clock e1 = e_clock e"
    using c env_le_basic(3)[of e] by (auto simp: RawCtx_new_def env_le_def split: prod.splits)
  ultimately show ?thesis
    using assms(1,2,3)
    by (simp add: server_new_def c server_inv_def tables_inv_def rest_inv_def slot_get_def tab_def[abs_def] owner_def[abs_def]
        ready_slots_def)
qed

lemma server_run_inv:
  assumes "hash_lengths p" "aes_crate_ok p" "server_run p cfg s"
  shows "server_inv p cfg s"
  using assms(3)
proof induction
  case (server_round s events raw udp last_timer last' s')
  then show ?case
    using event_round_ok[OF assms(1,2) server_round.IH server_round.hyps(2), of raw udp last_timer] by simp
qed (rule server_new_inv)

text \<open>C3: The event loop of the server never panics, whatever packets arrive: from every state it
  can reach, a round that starts with any poller report, any raw packets and any datagrams on
  its UDP sockets completes, unless the mode is FakeTCP (where only the TCP header parser can
  abort, on a header whose length field is below five words). In particular no slot index,
  \<open>unwrap\<close> of a connection, \<open>expect\<close> of a conversation or subtraction of two times fails.\<close>

theorem server_round_completes:
  assumes "hash_lengths p" "aes_crate_ok p" "server_run p cfg s" "list_all (known_event s) events"
    and "cfg_raw_mode cfg \<noteq> FakeTcp"
  shows "\<exists>last' s'. event_round p events raw udp last_timer s = Ret (last', s') \<and> server_run p cfg s'"
proof -
  obtain last' s' where "event_round p events raw udp last_timer s = Ret (last', s')"
    using event_round_ok[OF assms(1,2) server_run_inv[OF assms(1-3)] assms(4), of raw udp last_timer] assms(5)
    by (auto simp: sat_def split: eval.splits)
  then show ?thesis
    using server_round[OF assms(3,4)] by blast
qed

lemma demo_engine: "\<exists>crypto. engine demo_prims crypto"
  using Keys_derive_Ret[OF demo_prims_ok(1)] unfolding engine_def by metis

lemma order_ok_sorted: "order_ok sorted_list_of_set"
  by (simp add: order_ok_def)

lemma demo_server:
  assumes "engine demo_prims crypto"
  shows "server_run demo_prims cfg (server_new cfg crypto 5 (\<lambda>_. 64) 0 (\<lambda>_. demo_env) (\<lambda>_. []) (\<lambda>_. True) (\<lambda>_. True) sorted_list_of_set demo_env)"
  by (rule server_start[OF assms _ order_ok_sorted]) (simp add: demo_env_def mono_def)

theorem server_round_completes_witness:
  "\<exists>cfg s last' s'. cfg_raw_mode cfg = UdpMode \<and> server_run demo_prims cfg s \<and>
     event_round demo_prims [EvRaw, EvFifo] [[([1, 2, 3], sll_zeroed)]] (\<lambda>_. []) 0 s = Ret (last', s') \<and>
     server_run demo_prims cfg s'"
proof -
  obtain cfg0 where "config_of_cli (\<lambda>_. None) 8 demo_cli = Inr cfg0"
    using demo_config by blast
  obtain crypto where e: "engine demo_prims crypto"
    using demo_engine by blast
  let ?cfg = "cfg0\<lparr> cfg_raw_mode := UdpMode \<rparr>"
  let ?s = "server_new ?cfg crypto 5 (\<lambda>_. 64) 0 (\<lambda>_. demo_env) (\<lambda>_. []) (\<lambda>_. True) (\<lambda>_. True) sorted_list_of_set demo_env"
  have "list_all (known_event ?s) [EvRaw, EvFifo]"
    by (simp add: known_event_def)
  from server_round_completes[OF demo_prims_ok(1,2) demo_server[OF e, of ?cfg] this, of "[[([1, 2, 3], sll_zeroed)]]" "\<lambda>_. []" 0]
  obtain last' s' where "event_round demo_prims [EvRaw, EvFifo] [[([1, 2, 3], sll_zeroed)]] (\<lambda>_. []) 0 ?s = Ret (last', s')"
      "server_run demo_prims ?cfg s'"
    by auto
  then show ?thesis
    using demo_server[OF e, of ?cfg] by (intro exI[of _ ?cfg] exI[of _ ?s] exI[of _ last'] exI[of _ s']) simp
qed

text \<open>C4: In every state the server can reach, its lookup structures describe the same
  connections: an address leads to a slot exactly when the connection there is registered under
  it; a client id leads to a slot exactly when the connection there is ready and has that id; a
  UDP socket is open exactly for one conversation of a ready connection, and each conversation
  has its socket. The limits of 1000 ready and 10000 connections hold, and every connection
  that is not idle sends to the address it is registered under.\<close>

theorem server_tables_agree:
  assumes "hash_lengths p" "aes_crate_ok p" "server_run p cfg s"
  shows "(\<forall>a i. by_addr s a = Some i \<longleftrightarrow> (\<exists>c. slot_get (conns s) i = Some c \<and> sc_addr c = a)) \<and>
    (\<forall>k i. by_const_id s k = Some i \<longleftrightarrow>
       (\<exists>c. slot_get (conns s) i = Some c \<and> sc_state c = SReady \<and> oppsite_const_id (sc_info c) = k)) \<and>
    (\<forall>j i v. (\<exists>k. slot_get (socks s) j = Some k \<and> cs_conn_slot k = i \<and> cs_conv k = v) \<longleftrightarrow>
       (\<exists>c. slot_get (conns s) i = Some c \<and> sc_state c = SReady \<and> find_data_by_conv (sc_convs c) v = Some j)) \<and>
    ready_num s = card {i. \<exists>c. slot_get (conns s) i = Some c \<and> sc_state c = SReady} \<and> ready_num s \<le> 1000 \<and>
    length (conns s) - length (free_conns s) \<le> 10000 \<and>
    (\<forall>i c. slot_get (conns s) i = Some c \<and> sc_state c \<noteq> SIdle \<longrightarrow>
       (dst_ip (send_info (ci_raw (sc_info c))), dst_port (send_info (ci_raw (sc_info c)))) = sc_addr c)"
proof -
  have inv: "server_inv p cfg s"
    by (rule server_run_inv[OF assms])
  note ok = tables_okD[OF server_invD(3)[OF inv]]
  have sock: "(\<exists>k. slot_get (socks s) j = Some k \<and> cs_conn_slot k = i \<and> cs_conv k = v) \<longleftrightarrow> owner (socks s) j = Some (i, v)" for i j v
    by (auto simp: owner_def)
  have conv: "(\<exists>a r m h. tab s i = Some (a, r, m, h) \<and> conv_to_data m v = Some j) \<longleftrightarrow>
      (\<exists>c. conn s i = Some c \<and> sc_state c = SReady \<and> find_data_by_conv (sc_convs c) v = Some j)" for i j v
    using conn_conv_ready[OF inv, of i _ v j]
    by (cases "conn s i") (auto simp: tab_def view_def find_data_by_conv_def simp del: split_paired_Ex)
  have ready: "ready_slots (tab s) = {i. \<exists>c. conn s i = Some c \<and> sc_state c = SReady}"
    unfolding ready_slots_def
  proof (rule Collect_cong)
    show "(\<exists>a k m h. tab s i = Some (a, Some k, m, h)) \<longleftrightarrow> (\<exists>c. conn s i = Some c \<and> sc_state c = SReady)" for i
      by (cases "conn s i") (auto simp: tab_def view_def simp del: split_paired_Ex)
  qed
  have addr: "(\<exists>r m h. tab s i = Some (a, r, m, h)) \<longleftrightarrow> (\<exists>c. conn s i = Some c \<and> sc_addr c = a)" for a i
    by (cases "conn s i") (auto simp: tab_def view_def)
  have ident: "(\<exists>a m h. tab s i = Some (a, Some k, m, h)) \<longleftrightarrow>
      (\<exists>c. conn s i = Some c \<and> sc_state c = SReady \<and> oppsite_const_id (sc_info c) = k)" for k i
    by (cases "conn s i") (auto simp: tab_def view_def simp del: split_paired_Ex)
  have limits: "ready_num s \<le> 1000" "length (conns s) - length (free_conns s) \<le> 10000"
    using inv by (simp_all add: server_inv_def tables_inv_def MAX_READY_CONN_NUM_def MAX_HANDSHAKE_CONN_NUM_def)
  have dst: "conn s i = Some c \<and> sc_state c \<noteq> SIdle \<longrightarrow>
      (dst_ip (send_info (ci_raw (sc_info c))), dst_port (send_info (ci_raw (sc_info c)))) = sc_addr c" for i c
    using server_invD(12)[OF inv] unfolding conn_ok_def by blast
  show ?thesis
    unfolding ok(2,3) sock ok(4) conv addr ident server_invD(4)[OF inv] ready
    using limits dst unfolding server_invD(4)[OF inv] ready by blast
qed

theorem server_tables_agree_witness:
  "\<exists>cfg s. server_run demo_prims cfg s \<and> by_addr s (V4 1, 2) = None \<and> ready_num s = 0 \<and>
     \<not> (\<exists>c. slot_get (conns s) 0 = Some c \<and> sc_addr c = (V4 1, 2))"
proof -
  obtain cfg where "config_of_cli (\<lambda>_. None) 8 demo_cli = Inr cfg"
    using demo_config by blast
  obtain crypto where e: "engine demo_prims crypto"
    using demo_engine by blast
  let ?s = "server_new cfg crypto 5 (\<lambda>_. 64) 0 (\<lambda>_. demo_env) (\<lambda>_. []) (\<lambda>_. True) (\<lambda>_. True) sorted_list_of_set demo_env"
  have n: "by_addr ?s (V4 1, 2) = None" "ready_num ?s = 0"
    by (simp_all add: server_new_def split: prod.split)
  have "by_addr ?s (V4 1, 2) = Some 0 \<longleftrightarrow> (\<exists>c. slot_get (conns ?s) 0 = Some c \<and> sc_addr c = (V4 1, 2))"
    by (rule server_tables_agree[OF demo_prims_ok(1,2) demo_server[OF e, of cfg], THEN conjunct1, rule_format])
  then show ?thesis
    using n demo_server[OF e, of cfg] by (intro exI[of _ cfg] exI[of _ ?s]) simp
qed

end
