(* ===== verification/Fallback_State.thy ===== *)
theory Fallback_State
  imports Config "HOL-Library.Multiset"
begin

text \<open>
  The persisted state of the endpoint controller (\<open>src/src/endpoint.rs\<close>): the cache file with the
  last address whose handshake succeeded, and the limits of old-address probes, a token bucket
  with per-answer budgets that is charged before a probe starts. Times are \<open>u64\<close> seconds as
  natural numbers, saturating where the code saturates.
\<close>


section \<open>Standard library\<close>

text \<open>Saturating addition of \<open>w\<close>-bit numbers.\<close>

definition usat_add :: "nat \<Rightarrow> nat \<Rightarrow> nat \<Rightarrow> nat" where
  "usat_add w a b = min (a + b) (2 ^ w - 1)"

definition usat_mul :: "nat \<Rightarrow> nat \<Rightarrow> nat \<Rightarrow> nat" where
  "usat_mul w a b = min (a * b) (2 ^ w - 1)"

text \<open>\<open>Iterator::position\<close>.\<close>

fun position :: "('a \<Rightarrow> bool) \<Rightarrow> 'a list \<Rightarrow> nat option" where
  "position P [] = None"
| "position P (x # xs) = (if P x then Some 0 else map_option Suc (position P xs))"

text \<open>\<open>str::from_utf8\<close>, by the table of well-formed byte sequences.\<close>

definition utf8_cont :: "char \<Rightarrow> bool" where
  "utf8_cont c \<longleftrightarrow> (of_char c :: nat) \<in> {0x80..0xBF}"

fun is_utf8 :: "string \<Rightarrow> bool" where
  "is_utf8 [] = True"
| "is_utf8 (c # s) =
     (let n = of_char c :: nat in
      if n < 0x80 then is_utf8 s
      else case s of
        [] \<Rightarrow> False
      | c1 # r1 \<Rightarrow>
          if n \<in> {0xC2..0xDF} then utf8_cont c1 \<and> is_utf8 r1
          else case r1 of
            [] \<Rightarrow> False
          | c2 # r2 \<Rightarrow>
              let n1 = of_char c1 :: nat in
              if n = 0xE0 then n1 \<in> {0xA0..0xBF} \<and> utf8_cont c2 \<and> is_utf8 r2
              else if n = 0xED then n1 \<in> {0x80..0x9F} \<and> utf8_cont c2 \<and> is_utf8 r2
              else if n \<in> {0xE1..0xEF} then utf8_cont c1 \<and> utf8_cont c2 \<and> is_utf8 r2
              else case r2 of
                [] \<Rightarrow> False
              | c3 # r3 \<Rightarrow>
                  (if n = 0xF0 then n1 \<in> {0x90..0xBF}
                   else if n = 0xF4 then n1 \<in> {0x80..0x8F}
                   else n \<in> {0xF1..0xF3} \<and> utf8_cont c1) \<and> utf8_cont c2 \<and> utf8_cont c3 \<and> is_utf8 r3)"

definition strip_suffix1 :: "char \<Rightarrow> string \<Rightarrow> string" where
  "strip_suffix1 c s = (if s \<noteq> [] \<and> last s = c then butlast s else s)"

definition str_split :: "char \<Rightarrow> string \<Rightarrow> string list" where
  "str_split c s = split_on (\<lambda>x. x = c) s"

text \<open>\<open>Vec::dedup\<close> after a sort.\<close>

fun dedup :: "'a list \<Rightarrow> 'a list" where
  "dedup [] = []"
| "dedup [x] = [x]"
| "dedup (x # y # xs) = (if x = y then dedup (y # xs) else x # dedup (y # xs))"


section \<open>Limits of old-address probes\<close>

definition MAX_ENDPOINT_CANDIDATES :: nat where "MAX_ENDPOINT_CANDIDATES = 8"
definition CACHE_MAX_BYTES :: nat where "CACHE_MAX_BYTES = 4096"
definition STATE_MAX_BYTES :: nat where "STATE_MAX_BYTES = 16 * 1024"
definition MAX_BUDGET_ENTRIES :: nat where "MAX_BUDGET_ENTRIES = 16"
definition MAX_PERSISTED_COOLDOWN_SECS :: nat where "MAX_PERSISTED_COOLDOWN_SECS = 86400"

lemmas state_consts = MAX_ENDPOINT_CANDIDATES_def CACHE_MAX_BYTES_def STATE_MAX_BYTES_def
  MAX_BUDGET_ENTRIES_def MAX_PERSISTED_COOLDOWN_SECS_def

record BudgetEntry =
  be_candidate :: u32
  be_dns_set :: "u32 list"
  be_charged :: nat
  be_not_before :: nat
  be_last_used :: nat

record FallbackState =
  fs_tokens :: nat
  fs_updated :: nat
  fs_entries :: "BudgetEntry list"

definition FallbackState_new :: "nat \<Rightarrow> nat \<Rightarrow> FallbackState" where
  "FallbackState_new capacity wall_now = \<lparr> fs_tokens = capacity, fs_updated = wall_now, fs_entries = [] \<rparr>"

text \<open>Seconds of a duration in milliseconds, rounded up.\<close>

definition ceil_secs :: "nat \<Rightarrow> nat" where
  "ceil_secs ms = usat_add 64 ms 999 div 1000"

definition refill :: "LastGoodFallbackPolicy \<Rightarrow> nat \<Rightarrow> FallbackState \<Rightarrow> FallbackState" where
  "refill policy wall_now st =
     (let refill_secs = ceil_secs (fp_global_refill_ms policy) in
      if wall_now \<ge> fs_updated st \<and> refill_secs > 0 then
        let elapsed_intervals = (wall_now - fs_updated st) div refill_secs in
        if elapsed_intervals > 0 then
          let minted = min elapsed_intervals (2 ^ 32 - 1) in
          st\<lparr> fs_tokens := min (usat_add 32 (fs_tokens st) minted) (fp_global_capacity policy),
              fs_updated := usat_add 64 (fs_updated st) (usat_mul 64 elapsed_intervals refill_secs) \<rparr>
        else st
      else st)"

definition charge_entry ::
  "LastGoodFallbackPolicy \<Rightarrow> nat \<Rightarrow> u32 \<Rightarrow> u32 list \<Rightarrow> BudgetEntry list \<Rightarrow> BudgetEntry list option" where
  "charge_entry policy wall_now candidate dns_set es =
     (let not_before = usat_add 64 wall_now (ceil_secs (fp_cooldown_ms policy)) in
      case position (\<lambda>x. be_candidate x = candidate \<and> be_dns_set x = dns_set) es of
        Some pos \<Rightarrow>
          let x = es ! pos in
          if be_charged x \<ge> fp_max_attempts policy \<or> wall_now < be_not_before x then None
          else Some (es[pos := x\<lparr> be_charged := usat_add 32 (be_charged x) 1, be_not_before := not_before,
                                  be_last_used := wall_now \<rparr>])
      | None \<Rightarrow>
          if length es \<ge> MAX_BUDGET_ENTRIES then None
          else Some (es @ [\<lparr> be_candidate = candidate, be_dns_set = dns_set, be_charged = 1,
                             be_not_before = not_before, be_last_used = wall_now \<rparr>]))"

definition precharge_fallback_state ::
  "FallbackState \<Rightarrow> LastGoodFallbackPolicy \<Rightarrow> nat \<Rightarrow> u32 \<Rightarrow> u32 list \<Rightarrow> FallbackState option" where
  "precharge_fallback_state st policy wall_now candidate dns_set =
     (let next_st = refill policy wall_now st in
      if fs_tokens next_st = 0 then None
      else case charge_entry policy wall_now candidate dns_set (fs_entries next_st) of
        None \<Rightarrow> None
      | Some es \<Rightarrow> Some (next_st\<lparr> fs_tokens := fs_tokens next_st - 1,
                                 fs_entries := sort_key (\<lambda>x. - int (be_last_used x)) es \<rparr>))"


section \<open>Text form\<close>

datatype state_error = StateIo | NotUtf8 | LineEndings | FieldCount | Version | Identity | ExpectedField
  | NonCanonicalField | BadNumber | NonCanonicalNumber | BadAddress | NonCanonicalAddress
  | UnsafeAddress endpoint_refusal | Tokens | Future | EntryShape | ZeroCharge | Cooldown | DnsSet
  | Duplicate | BadHostname spec_error | HostnameForm | PortZero

definition strict_field :: "string \<Rightarrow> string \<Rightarrow> state_error + string" where
  "strict_field line name =
     (case strip_prefix line (name @ ''='') of
        None \<Rightarrow> Inl ExpectedField
      | Some v \<Rightarrow>
          if v = [] \<or> str_trim v \<noteq> v \<or> CHR ''='' \<in> set v then Inl NonCanonicalField else Inr v)"

definition parse_state_num :: "nat \<Rightarrow> string \<Rightarrow> state_error + nat" where
  "parse_state_num bits v =
     (case parse_radix 10 bits v of
        None \<Rightarrow> Inl BadNumber
      | Some n \<Rightarrow> if show_nat n \<noteq> v then Inl NonCanonicalNumber else Inr n)"

definition parse_state_u32 :: "string \<Rightarrow> state_error + nat" where
  "parse_state_u32 v = parse_state_num 32 v"

definition parse_state_u64 :: "string \<Rightarrow> state_error + nat" where
  "parse_state_u64 v = parse_state_num 64 v"

definition parse_state_ip :: "bool \<Rightarrow> string \<Rightarrow> state_error + u32" where
  "parse_state_ip allow_private v =
     (case parse_ipv4_addr v of
        None \<Rightarrow> Inl BadAddress
      | Some a \<Rightarrow>
          if show_ipv4 a \<noteq> v then Inl NonCanonicalAddress
          else case check_endpoint_ip a allow_private of Some w \<Rightarrow> Inl (UnsafeAddress w) | None \<Rightarrow> Inr a)"

fun join :: "char \<Rightarrow> string list \<Rightarrow> string" where
  "join c [] = []"
| "join c [x] = x"
| "join c (x # y # xs) = x @ [c] @ join c (y # xs)"

definition entry_fields :: "BudgetEntry \<Rightarrow> string list" where
  "entry_fields x = [show_ipv4 (be_candidate x), show_nat (be_charged x), show_nat (be_not_before x),
     show_nat (be_last_used x), join (CHR '','') (map show_ipv4 (be_dns_set x))]"

definition serialize_fallback_state :: "string \<Rightarrow> u16 \<Rightarrow> FallbackState \<Rightarrow> string" where
  "serialize_fallback_state host port st =
     ''# udp2raw fallback state v1'' @ [LF] @ ''version=1'' @ [LF] @ ''host='' @ host @ [LF] @
     ''port='' @ show_nat (unat port) @ [LF] @ ''global_tokens='' @ show_nat (fs_tokens st) @ [LF] @
     ''global_updated='' @ show_nat (fs_updated st) @ [LF] @
     concat (map (\<lambda>x. ''entry='' @ join (CHR ''|'') (entry_fields x) @ [LF]) (fs_entries st))"

text \<open>The parts of an entry line.\<close>

fun parse_set :: "bool \<Rightarrow> string list \<Rightarrow> state_error + u32 list" where
  "parse_set allow_private [] = Inr []"
| "parse_set allow_private (v # vs) =
     sbind (parse_state_ip allow_private v) (\<lambda>a. sbind (parse_set allow_private vs) (\<lambda>r. Inr (a # r)))"

definition parse_entry :: "bool \<Rightarrow> nat \<Rightarrow> string \<Rightarrow> state_error + BudgetEntry" where
  "parse_entry allow_private wall_now line =
     sbind (strict_field line ''entry'') (\<lambda>raw.
     let fields = str_split (CHR ''|'') raw in
     if length fields \<noteq> 5 then Inl EntryShape
     else
       sbind (parse_state_ip allow_private (fields ! 0)) (\<lambda>candidate.
       sbind (parse_state_u32 (fields ! 1)) (\<lambda>charged.
       sbind (parse_state_u64 (fields ! 2)) (\<lambda>not_before.
       sbind (parse_state_u64 (fields ! 3)) (\<lambda>last_used.
       if charged = 0 then Inl ZeroCharge
       else if last_used > usat_add 64 wall_now 300 then Inl Future
       else if not_before < last_used \<or> not_before - last_used > MAX_PERSISTED_COOLDOWN_SECS then Inl Cooldown
       else
         sbind (parse_set allow_private (str_split (CHR '','') (fields ! 4))) (\<lambda>dns_set.
         if dns_set \<noteq> dedup (sort dns_set) \<or> dns_set = [] \<or> length dns_set > MAX_ENDPOINT_CANDIDATES then Inl DnsSet
         else Inr \<lparr> be_candidate = candidate, be_dns_set = dns_set, be_charged = charged,
                    be_not_before = not_before, be_last_used = last_used \<rparr>))))))"

fun parse_entries :: "bool \<Rightarrow> nat \<Rightarrow> BudgetEntry list \<Rightarrow> string list \<Rightarrow> state_error + BudgetEntry list" where
  "parse_entries allow_private wall_now es [] = Inr es"
| "parse_entries allow_private wall_now es (l # ls) =
     sbind (parse_entry allow_private wall_now l) (\<lambda>x.
       if \<exists>y \<in> set es. be_candidate y = be_candidate x \<and> be_dns_set y = be_dns_set x then Inl Duplicate
       else parse_entries allow_private wall_now (es @ [x]) ls)"

definition parse_state_lines ::
  "string \<Rightarrow> u16 \<Rightarrow> nat \<Rightarrow> bool \<Rightarrow> nat \<Rightarrow> string list \<Rightarrow> state_error + FallbackState" where
  "parse_state_lines host port capacity allow_private wall_now ls =
     (if length ls < 6 \<or> length ls > 6 + MAX_BUDGET_ENTRIES then Inl FieldCount
      else if ls ! 0 \<noteq> ''# udp2raw fallback state v1'' then Inl Version
      else sbind (strict_field (ls ! 1) ''version'') (\<lambda>v.
      if v \<noteq> ''1'' then Inl Version
      else sbind (strict_field (ls ! 2) ''host'') (\<lambda>h.
      if h \<noteq> host then Inl Identity
      else sbind (strict_field (ls ! 3) ''port'') (\<lambda>p.
      if p \<noteq> show_nat (unat port) then Inl Identity
      else sbind (strict_field (ls ! 4) ''global_tokens'') (\<lambda>g.
      sbind (parse_state_u32 g) (\<lambda>tokens.
      if tokens > capacity then Inl Tokens
      else sbind (strict_field (ls ! 5) ''global_updated'') (\<lambda>u.
      sbind (parse_state_u64 u) (\<lambda>updated.
      if updated > usat_add 64 wall_now 300 then Inl Future
      else sbind (parse_entries allow_private wall_now [] (drop 6 ls)) (\<lambda>es.
        Inr \<lparr> fs_tokens = tokens, fs_updated = updated, fs_entries = es \<rparr>)))))))))"

text \<open>\<open>read_owner_only\<close> gives an error, no file, or at most \<open>max\<close> bytes.\<close>

type_synonym file_read = "state_error + string option"

definition text_lines :: "string \<Rightarrow> state_error + string list" where
  "text_lines bytes =
     (if \<not> is_utf8 bytes then Inl NotUtf8
      else let t = strip_suffix1 LF bytes in
        if CR \<in> set t \<or> t = [] then Inl LineEndings else Inr (str_split LF t))"

definition load_fallback_state ::
  "file_read \<Rightarrow> string \<Rightarrow> u16 \<Rightarrow> nat \<Rightarrow> bool \<Rightarrow> nat \<Rightarrow> state_error + FallbackState option" where
  "load_fallback_state file host port capacity allow_private wall_now =
     sbind file (\<lambda>f. case f of
       None \<Rightarrow> Inr None
     | Some bytes \<Rightarrow>
         sbind (text_lines bytes) (\<lambda>ls.
         sbind (parse_state_lines host port capacity allow_private wall_now ls) (\<lambda>st. Inr (Some st))))"


section \<open>The endpoint cache\<close>

record CacheEntry =
  ce_addr :: u32
  ce_saved :: "nat option"

definition CACHE_HEADER :: string where
  "CACHE_HEADER = ''# udp2raw endpoint cache: the last address whose handshake succeeded''"

definition parse_cache_lines ::
  "string \<Rightarrow> u16 \<Rightarrow> bool \<Rightarrow> string list \<Rightarrow> state_error + CacheEntry option" where
  "parse_cache_lines host port allow_private ls0 =
     (let ls = (if ls0 \<noteq> [] \<and> hd ls0 = CACHE_HEADER then tl ls0 else ls0) in
      if \<not> (length ls = 3 \<or> length ls = 4) then Inl FieldCount
      else sbind (strict_field (ls ! 0) ''host'') (\<lambda>h.
      sbind (strict_field (ls ! 1) ''port'') (\<lambda>p.
      sbind (strict_field (ls ! 2) ''addr'') (\<lambda>a.
      if h \<noteq> host \<or> validate_hostname h \<noteq> None then Inr None
      else case parse_radix 10 16 p of
        None \<Rightarrow> Inl BadNumber
      | Some pn \<Rightarrow>
          if show_nat pn \<noteq> p \<or> pn \<noteq> unat port then Inr None
          else sbind (parse_state_ip allow_private a) (\<lambda>addr.
            if length ls = 4 then
              sbind (strict_field (ls ! 3) ''saved'') (\<lambda>v.
              sbind (parse_state_u64 v) (\<lambda>t. Inr (Some \<lparr> ce_addr = addr, ce_saved = Some t \<rparr>)))
            else Inr (Some \<lparr> ce_addr = addr, ce_saved = None \<rparr>))))))"

definition load_cache_entry :: "file_read \<Rightarrow> string \<Rightarrow> u16 \<Rightarrow> bool \<Rightarrow> state_error + CacheEntry option" where
  "load_cache_entry file host port allow_private =
     sbind file (\<lambda>f. case f of
       None \<Rightarrow> Inr None
     | Some bytes \<Rightarrow> sbind (text_lines bytes) (parse_cache_lines host port allow_private))"

text \<open>What \<open>save_cache_with_policy\<close> writes, or why it refuses.\<close>

definition cache_body :: "string \<Rightarrow> u16 \<Rightarrow> u32 \<Rightarrow> bool \<Rightarrow> nat \<Rightarrow> state_error + string" where
  "cache_body host port addr allow_private saved =
     (case validate_hostname host of
        Some w \<Rightarrow> Inl (BadHostname w)
      | None \<Rightarrow>
          if host \<noteq> to_ascii_lowercase (trim_end_matches (\<lambda>c. c = CHR ''.'') host) then Inl HostnameForm
          else if port = 0 then Inl PortZero
          else case check_endpoint_ip addr allow_private of
            Some w \<Rightarrow> Inl (UnsafeAddress w)
          | None \<Rightarrow> Inr (CACHE_HEADER @ [LF] @ ''host='' @ host @ [LF] @ ''port='' @ show_nat (unat port) @ [LF] @
              ''addr='' @ show_ipv4 addr @ [LF] @ ''saved='' @ show_nat saved @ [LF]))"


section \<open>Printing and parsing\<close>

lemma digits_value_mono: "digits_value 10 acc s = Some v \<Longrightarrow> acc \<le> v"
  by (induction s arbitrary: acc) (fastforce split: option.splits)+

lemma read_digits_app:
  assumes "digits_value 10 acc s = Some v" "v < 2 ^ bits" "maxd = 0 \<or> cnt + length s \<le> maxd"
    and "r = [] \<or> to_digit 10 (hd r) = None"
  shows "read_digits 10 bits maxd acc cnt (s @ r) = Some ((v, cnt + length s), r)"
  using assms
proof (induction s arbitrary: acc cnt)
  case Nil
  then show ?case
    by (cases r) simp_all
next
  case (Cons c s)
  obtain d where d: "to_digit 10 c = Some d" "digits_value 10 (acc * 10 + d) s = Some v"
    using Cons.prems(1) by (auto split: option.splits)
  have "acc * 10 + d < 2 ^ bits"
    using digits_value_mono[OF d(2)] Cons.prems(2) by simp
  then show ?case
    using Cons.IH[OF d(2), of "Suc cnt"] Cons.prems d(1) by (auto simp: Let_def)
qed

lemma length_show_nat: "n < 10 ^ k \<Longrightarrow> 0 < k \<Longrightarrow> length (show_nat n) \<le> k"
proof (induction n arbitrary: k rule: show_nat.induct)
  case (1 n)
  show ?case
  proof (cases "n < 10")
    case True
    then show ?thesis
      using "1.prems" by (simp add: show_nat.simps)
  next
    case False
    then obtain j where k: "k = Suc j" "0 < j"
      using "1.prems" that by (cases k; cases "k - 1") auto
    have "n div 10 < 10 ^ j"
      using "1.prems"(1) k(1) by (simp add: less_mult_imp_div_less mult.commute)
    then show ?thesis
      using "1.IH"[of j] False k by (simp add: show_nat.simps[of n])
  qed
qed

lemma hd_show_nat: "0 < n \<Longrightarrow> hd (show_nat n) \<noteq> CHR ''0''"
proof (induction n rule: show_nat.induct)
  case (1 n)
  show ?case
  proof (cases "n < 10")
    case True
    then have "of_char (digit_char n) = 48 + n"
      by (simp add: digit_char_def take_bit_nat_eq_self)
    then show ?thesis
      using "1.prems" True by (auto simp: show_nat.simps)
  next
    case False
    then show ?thesis
      using "1.IH" by (simp add: show_nat.simps[of n])
  qed
qed

lemma read_octet_show:
  assumes "r = [] \<or> to_digit 10 (hd r) = None"
  shows "read_octet (show_nat (unat (b :: u8)) @ r) = Some (b, r)"
proof -
  have b: "unat b < 256"
    using unsigned_less[of b, where 'a = nat] by simp
  then have len: "length (show_nat (unat b)) \<le> 3"
    using length_show_nat[of "unat b" 3] by simp
  have "read_digits 10 8 3 0 0 (show_nat (unat b) @ r) = Some ((unat b, 0 + length (show_nat (unat b))), r)"
    using assms b len by (intro read_digits_app digits_value_show_nat) simp_all
  moreover have "\<not> (hd (show_nat (unat b) @ r) = CHR ''0'' \<and> length (show_nat (unat b)) > 1)"
    using hd_show_nat[of "unat b"] by (cases "unat b = 0") (simp_all add: show_nat.simps[of 0])
  ultimately show ?thesis
    by (auto simp: read_octet_def read_number_def)
qed

lemma parse_ipv4_show [simp]: "parse_ipv4_addr (show_ipv4 a) = Some a"
proof -
  have dot: "to_digit 10 (CHR ''.'') = None"
    by (simp add: to_digit_def to_digit16_def)
  have len: "length (show_nat (unat (octet i a))) \<le> 3" for i
    using length_show_nat[of "unat (octet i a)" 3] unsigned_less[of "octet i a", where 'a = nat] by simp
  have "of_be32 (octet 0 a) (octet 1 a) (octet 2 a) (octet 3 a) = a"
    by (simp add: octet_def be32_def of_be32_be32)
  then have "read_ipv4_addr (show_ipv4 a) = Some (a, [])"
    using read_octet_show[of "[]" "octet 3 a"]
    by (simp add: read_ipv4_addr_def show_ipv4_def read_octet_show read_dot_octet_def dot)
  moreover have "length (show_ipv4 a) \<le> 15"
    using len[of 0] len[of 1] len[of 2] len[of 3] by (simp add: show_ipv4_def)
  ultimately show ?thesis
    by (simp add: parse_ipv4_addr_def all_read_def)
qed

text \<open>Printable characters that need no care in a field.\<close>

definition plain :: "char \<Rightarrow> bool" where
  "plain c \<longleftrightarrow> 33 \<le> (of_char c :: nat) \<and> (of_char c :: nat) \<le> 126 \<and> c \<noteq> CHR ''=''"

lemma plain_digit: "is_ascii_digit c \<Longrightarrow> plain c"
  by (auto simp: is_ascii_digit_def plain_def Let_def)

lemma plain_show_nat: "c \<in> set (show_nat n) \<Longrightarrow> plain c \<and> c \<noteq> CHR ''|'' \<and> c \<noteq> CHR '',''"
  using show_nat_digits[of c n] plain_digit by (auto simp: is_ascii_digit_def)

lemma plain_show_ipv4: "c \<in> set (show_ipv4 a) \<Longrightarrow> plain c \<and> c \<noteq> CHR ''|'' \<and> c \<noteq> CHR '',''"
  using plain_show_nat by (auto simp: show_ipv4_def plain_def)

lemma plain_not: "plain c \<Longrightarrow> c \<noteq> LF \<and> c \<noteq> CR \<and> \<not> is_whitespace c \<and> c \<noteq> CHR ''='' \<and> (of_char c :: nat) < 0x80"
  by (auto simp: plain_def is_whitespace_def)

lemma strict_field_plain:
  assumes "v \<noteq> []" "\<forall>c \<in> set v. plain c"
  shows "strict_field (name @ ''='' @ v) name = Inr v"
proof -
  have "starts_with (name @ CHR ''='' # v) (name @ ''='')"
    by (induction name) auto
  moreover have "str_trim v = v"
  proof -
    have "dropWhile is_whitespace v = v" "dropWhile is_whitespace (rev v) = rev v"
      using assms plain_not by (cases v; auto) (cases v rule: rev_cases; use assms plain_not in auto)
    then show ?thesis
      by (simp add: str_trim_def trim_matches_def trim_start_matches_def trim_end_matches_def)
  qed
  ultimately show ?thesis
    using assms plain_not by (auto simp: strict_field_def strip_prefix_def)
qed

lemma parse_state_num_show: "n < 2 ^ b \<Longrightarrow> parse_state_num b (show_nat n) = Inr n"
  by (simp add: parse_state_num_def parse_radix_show_nat)

lemma parse_state_ip_show: "check_endpoint_ip a ap = None \<Longrightarrow> parse_state_ip ap (show_ipv4 a) = Inr a"
  by (simp add: parse_state_ip_def)

lemma split_app: "\<forall>x \<in> set s. x \<noteq> c \<Longrightarrow> str_split c (s @ c # t) = s # str_split c t"
  by (induction s) (simp_all add: str_split_def)

lemma split_none: "\<forall>x \<in> set s. x \<noteq> c \<Longrightarrow> str_split c s = [s]"
  by (induction s) (simp_all add: str_split_def)

lemma split_join: "xs \<noteq> [] \<Longrightarrow> \<forall>s \<in> set xs. c \<notin> set s \<Longrightarrow> str_split c (join c xs) = xs"
proof (induction c xs rule: join.induct)
  case (3 c x y xs)
  then show ?case
    using split_app[of x c "join c (y # xs)"] by auto
qed (auto intro!: split_none)

lemma is_utf8_ascii: "\<forall>c \<in> set s. (of_char c :: nat) < 0x80 \<Longrightarrow> is_utf8 s"
  by (induction s) (auto simp: Let_def)

lemma text_lines_join:
  assumes "ls \<noteq> []" "hd ls \<noteq> []" "\<forall>l \<in> set ls. \<forall>c \<in> set l. (of_char c :: nat) < 0x80 \<and> c \<noteq> LF \<and> c \<noteq> CR"
  shows "text_lines (concat (map (\<lambda>l. l @ [LF]) ls)) = Inr ls"
proof -
  have j: "concat (map (\<lambda>l. l @ [LF]) ls) = join LF ls @ [LF]"
    using assms(1) by (induction LF ls rule: join.induct) simp_all
  have mem: "c \<in> set (join LF ls) \<Longrightarrow> c = LF \<or> (\<exists>l \<in> set ls. c \<in> set l)" for c
    by (induction LF ls rule: join.induct) auto
  have "join LF ls \<noteq> []"
    using assms(1,2) by (cases ls rule: remdups_adj.cases) simp_all
  moreover have "CR \<notin> set (join LF ls)"
    using mem[of CR] assms(3) by auto
  moreover have "is_utf8 (join LF ls @ [LF])"
    using mem assms(3) by (intro is_utf8_ascii) fastforce
  moreover have "str_split LF (join LF ls) = ls"
    using assms(1,3) by (intro split_join) auto
  ultimately show ?thesis
    unfolding j by (simp add: text_lines_def strip_suffix1_def Let_def)
qed


section \<open>Accepted states\<close>

definition entry_ok :: "bool \<Rightarrow> nat \<Rightarrow> BudgetEntry \<Rightarrow> bool" where
  "entry_ok allow_private wall_now x \<longleftrightarrow> check_endpoint_ip (be_candidate x) allow_private = None \<and>
     0 < be_charged x \<and> be_charged x < 2 ^ 32 \<and> be_not_before x < 2 ^ 64 \<and>
     be_last_used x \<le> usat_add 64 wall_now 300 \<and> be_last_used x \<le> be_not_before x \<and>
     be_not_before x - be_last_used x \<le> 86400 \<and>
     be_dns_set x = dedup (sort (be_dns_set x)) \<and> be_dns_set x \<noteq> [] \<and> length (be_dns_set x) \<le> 8 \<and>
     (\<forall>a \<in> set (be_dns_set x). check_endpoint_ip a allow_private = None)"

definition budget_key :: "BudgetEntry \<Rightarrow> u32 \<times> u32 list" where
  "budget_key x = (be_candidate x, be_dns_set x)"

definition state_ok :: "nat \<Rightarrow> bool \<Rightarrow> nat \<Rightarrow> FallbackState \<Rightarrow> bool" where
  "state_ok capacity allow_private wall_now st \<longleftrightarrow> fs_tokens st \<le> capacity \<and> fs_tokens st < 2 ^ 32 \<and>
     fs_updated st \<le> usat_add 64 wall_now 300 \<and> length (fs_entries st) \<le> 16 \<and>
     (\<forall>x \<in> set (fs_entries st). entry_ok allow_private wall_now x) \<and> distinct (map budget_key (fs_entries st))"

lemma parse_set_show:
  "\<forall>a \<in> set as. check_endpoint_ip a ap = None \<Longrightarrow> parse_set ap (map show_ipv4 as) = Inr as"
  by (induction as) (simp_all add: parse_state_ip_show sbind_def)

lemma plain_join: "c \<in> set (join d ls) \<Longrightarrow> c = d \<or> (\<exists>l \<in> set ls. c \<in> set l)"
  by (induction d ls rule: join.induct) auto

lemma entry_fields_plain:
  assumes "l \<in> set (entry_fields x)" "c \<in> set l"
  shows "plain c" "c \<noteq> CHR ''|''"
proof -
  have "c \<in> set (join (CHR '','') (map show_ipv4 (be_dns_set x))) \<Longrightarrow> plain c \<and> c \<noteq> CHR ''|''"
    using plain_join[of c "CHR '',''" "map show_ipv4 (be_dns_set x)"] plain_show_ipv4 by (auto simp: plain_def)
  then show "plain c" "c \<noteq> CHR ''|''"
    using assms plain_show_nat plain_show_ipv4 by (auto simp: entry_fields_def)
qed

lemma entry_line_plain: "c \<in> set (join (CHR ''|'') (entry_fields x)) \<Longrightarrow> plain c"
  using plain_join[of c "CHR ''|''" "entry_fields x"] entry_fields_plain(1) by (auto simp: plain_def)

lemma parse_entry_show:
  assumes "entry_ok ap w x"
  shows "parse_entry ap w (''entry='' @ join (CHR ''|'') (entry_fields x)) = Inr x"
proof -
  let ?v = "join (CHR ''|'') (entry_fields x)"
  have "?v \<noteq> []"
    by (simp add: entry_fields_def)
  then have "strict_field (''entry'' @ ''='' @ ?v) ''entry'' = Inr ?v"
    using entry_line_plain by (intro strict_field_plain) auto
  then have field: "strict_field (''entry='' @ ?v) ''entry'' = Inr ?v"
    by simp
  have split: "str_split (CHR ''|'') ?v = entry_fields x"
    using entry_fields_plain(2) by (intro split_join) (auto simp: entry_fields_def)
  have "str_split (CHR '','') (join (CHR '','') (map show_ipv4 (be_dns_set x))) = map show_ipv4 (be_dns_set x)"
    using assms plain_show_ipv4 by (intro split_join) (auto simp: entry_ok_def)
  then have set: "parse_set ap (str_split (CHR '','') (join (CHR '','') (map show_ipv4 (be_dns_set x)))) = Inr (be_dns_set x)"
    using assms by (simp add: parse_set_show entry_ok_def)
  have nums: "parse_state_u32 (show_nat (be_charged x)) = Inr (be_charged x)"
    "parse_state_u64 (show_nat (be_not_before x)) = Inr (be_not_before x)"
    "parse_state_u64 (show_nat (be_last_used x)) = Inr (be_last_used x)"
    using assms by (simp_all add: parse_state_u32_def parse_state_u64_def parse_state_num_show entry_ok_def)
  show ?thesis
    using assms field split set nums parse_state_ip_show[of "be_candidate x" ap]
    by (simp add: parse_entry_def entry_fields_def sbind_def entry_ok_def state_consts)
qed

lemma parse_entries_show:
  assumes "\<forall>x \<in> set es. entry_ok ap w x" "distinct (map budget_key (acc @ es))"
  shows "parse_entries ap w acc (map (\<lambda>x. ''entry='' @ join (CHR ''|'') (entry_fields x)) es) = Inr (acc @ es)"
  using assms
proof (induction es arbitrary: acc)
  case (Cons x es)
  have "\<not> (\<exists>y \<in> set acc. be_candidate y = be_candidate x \<and> be_dns_set y = be_dns_set x)"
    using Cons.prems(2) by (auto simp: budget_key_def image_iff)
  then show ?case
    using Cons.IH[of "acc @ [x]"] Cons.prems parse_entry_show[of ap w x] by (simp add: sbind_def)
qed simp

text \<open>The lines of the serialised state.\<close>

definition state_lines :: "string \<Rightarrow> u16 \<Rightarrow> FallbackState \<Rightarrow> string list" where
  "state_lines host port st = [''# udp2raw fallback state v1'', ''version=1'', ''host='' @ host,
     ''port='' @ show_nat (unat port), ''global_tokens='' @ show_nat (fs_tokens st),
     ''global_updated='' @ show_nat (fs_updated st)] @
     map (\<lambda>x. ''entry='' @ join (CHR ''|'') (entry_fields x)) (fs_entries st)"

lemma serialize_lines: "serialize_fallback_state host port st = concat (map (\<lambda>l. l @ [LF]) (state_lines host port st))"
  by (simp add: serialize_fallback_state_def state_lines_def comp_def)

lemma plain_dns: "dns_char c \<Longrightarrow> plain c"
  by (auto simp: dns_char_def plain_def is_ascii_alphanumeric_def Let_def)

lemma state_lines_text:
  assumes "\<forall>c \<in> set host. dns_char c"
  shows "text_lines (serialize_fallback_state host port st) = Inr (state_lines host port st)"
  unfolding serialize_lines
proof (rule text_lines_join)
  have p: "plain c \<Longrightarrow> (of_char c :: nat) < 128 \<and> c \<noteq> LF \<and> c \<noteq> CR" for c
    using plain_not by auto
  show "\<forall>l \<in> set (state_lines host port st). \<forall>c \<in> set l. (of_char c :: nat) < 0x80 \<and> c \<noteq> LF \<and> c \<noteq> CR"
    using assms p[OF plain_dns] p[OF plain_show_nat[THEN conjunct1]] p[OF entry_line_plain]
    by (auto simp: state_lines_def)
qed (simp_all add: state_lines_def)

lemma load_serialized:
  assumes host: "host \<noteq> []" "\<forall>c \<in> set host. dns_char c" and ok: "state_ok cap ap w st"
  shows "load_fallback_state (Inr (Some (serialize_fallback_state host port st))) host port cap ap w = Inr (Some st)"
proof -
  let ?ls = "state_lines host port st"
  have f: "strict_field (''version=1'') ''version'' = Inr ''1''"
    "strict_field (''host='' @ host) ''host'' = Inr host"
    "strict_field (''port='' @ show_nat n) ''port'' = Inr (show_nat n)"
    "strict_field (''global_tokens='' @ show_nat n) ''global_tokens'' = Inr (show_nat n)"
    "strict_field (''global_updated='' @ show_nat n) ''global_updated'' = Inr (show_nat n)" for n
    using strict_field_plain[of "''1''" "''version''"] strict_field_plain[of host "''host''"] host plain_dns
      strict_field_plain[of "show_nat n" "''port''"] strict_field_plain[of "show_nat n" "''global_tokens''"]
      strict_field_plain[of "show_nat n" "''global_updated''"] plain_show_nat
    by (auto simp: plain_def)
  have "fs_updated st < 2 ^ 64"
    using ok by (auto simp: state_ok_def usat_add_def)
  then have n: "parse_state_u32 (show_nat (fs_tokens st)) = Inr (fs_tokens st)"
    "parse_state_u64 (show_nat (fs_updated st)) = Inr (fs_updated st)"
    using ok by (simp_all add: parse_state_u32_def parse_state_u64_def parse_state_num_show state_ok_def)
  have "parse_entries ap w [] (drop 6 ?ls) = Inr (fs_entries st)"
    using parse_entries_show[of "fs_entries st" ap w "[]"] ok by (simp add: state_lines_def state_ok_def)
  then have "parse_state_lines host port cap ap w ?ls = Inr st"
    using ok f n by (simp add: parse_state_lines_def sbind_def state_lines_def state_ok_def state_consts)
  then show ?thesis
    using state_lines_text[OF host(2)] by (simp add: load_fallback_state_def sbind_def)
qed

text \<open>What is loaded is acceptable.\<close>

lemma parse_state_num_Inr: "parse_state_num b v = Inr n \<Longrightarrow> n < 2 ^ b"
  by (auto simp: parse_state_num_def parse_radix_def Let_def split: option.splits if_splits)

lemma parse_state_ip_Inr: "parse_state_ip ap v = Inr a \<Longrightarrow> check_endpoint_ip a ap = None"
  by (auto simp: parse_state_ip_def split: option.splits if_splits)

lemma parse_set_Inr: "parse_set ap vs = Inr as \<Longrightarrow> \<forall>a \<in> set as. check_endpoint_ip a ap = None"
  by (induction vs arbitrary: as) (auto simp: sbind_Inr_iff dest: parse_state_ip_Inr)

lemma parse_entry_Inr: "parse_entry ap w l = Inr x \<Longrightarrow> entry_ok ap w x"
  by (auto simp: parse_entry_def sbind_Inr_iff Let_def entry_ok_def state_consts parse_state_u32_def parse_state_u64_def
      split: if_splits dest: parse_state_num_Inr parse_state_ip_Inr parse_set_Inr)

lemma parse_entries_Inr:
  assumes "parse_entries ap w acc ls = Inr es" "\<forall>x \<in> set acc. entry_ok ap w x" "distinct (map budget_key acc)"
  shows "(\<forall>x \<in> set es. entry_ok ap w x) \<and> distinct (map budget_key es) \<and> length es = length acc + length ls"
  using assms
proof (induction ls arbitrary: acc)
  case (Cons l ls)
  obtain x where x: "parse_entry ap w l = Inr x" "\<not> (\<exists>y \<in> set acc. be_candidate y = be_candidate x \<and> be_dns_set y = be_dns_set x)"
      "parse_entries ap w (acc @ [x]) ls = Inr es"
    using Cons.prems(1) by (auto simp: sbind_Inr_iff split: if_splits)
  have "distinct (map budget_key (acc @ [x]))"
    using Cons.prems(3) x(2) by (auto simp: budget_key_def[abs_def])
  then show ?case
    using Cons.IH[OF x(3)] Cons.prems(2) parse_entry_Inr[OF x(1)] by simp
qed simp

lemma load_state_ok:
  assumes "load_fallback_state file host port cap ap w = Inr (Some st)"
  shows "state_ok cap ap w st"
proof -
  obtain ls where "parse_state_lines host port cap ap w ls = Inr st"
    using assms by (auto simp: load_fallback_state_def sbind_Inr_iff split: option.splits)
  then obtain es g u where p: "length ls \<le> 6 + 16" "parse_entries ap w [] (drop 6 ls) = Inr es" "parse_state_u32 g = Inr (fs_tokens st)"
      "fs_tokens st \<le> cap" "fs_updated st \<le> usat_add 64 w 300" "fs_entries st = es"
    by (auto simp: parse_state_lines_def sbind_Inr_iff state_consts split: if_splits)
  have "(\<forall>x \<in> set es. entry_ok ap w x) \<and> distinct (map budget_key es) \<and> length es = length (drop 6 ls)"
    using parse_entries_Inr[OF p(2)] by simp
  then show ?thesis
    using p parse_state_num_Inr[of 32 g] by (auto simp: state_ok_def parse_state_u32_def)
qed


section \<open>Charging\<close>

lemma position_Some: "position P xs = Some i \<Longrightarrow> i < length xs \<and> P (xs ! i)"
  by (induction xs arbitrary: i) (auto split: if_splits)

lemma position_None: "position P xs = None \<longleftrightarrow> (\<forall>x \<in> set xs. \<not> P x)"
  by (induction xs) auto

lemma state_ok_mono:
  assumes "state_ok cap ap w st" "w \<le> w'"
  shows "state_ok cap ap w' st"
proof -
  have "usat_add 64 w 300 \<le> usat_add 64 w' 300"
    using assms(2) by (simp add: usat_add_def)
  then show ?thesis
    using assms(1) by (auto simp: state_ok_def entry_ok_def)
qed

lemma refill_ok:
  assumes "state_ok cap ap w st" "fp_global_capacity policy = cap" "cap < 2 ^ 32" "w < 2 ^ 64"
  shows "state_ok cap ap w (refill policy w st)" "fs_entries (refill policy w st) = fs_entries st"
proof -
  define r where "r = ceil_secs (fp_global_refill_ms policy)"
  define n where "n = (w - fs_updated st) div r"
  have "usat_add 64 (fs_updated st) (usat_mul 64 n r) \<le> w" if "fs_updated st \<le> w"
  proof -
    have "usat_mul 64 n r \<le> w - fs_updated st"
      using div_times_less_eq_dividend[of "w - fs_updated st" r] by (simp add: usat_mul_def n_def min.coboundedI1)
    then show ?thesis
      using that by (simp add: usat_add_def min.coboundedI1)
  qed
  moreover have "w \<le> usat_add 64 w 300"
    using assms(4) by (simp add: usat_add_def)
  ultimately show "state_ok cap ap w (refill policy w st)"
    using assms(1-3) by (auto simp: refill_def Let_def state_ok_def r_def[symmetric] n_def[symmetric])
  show "fs_entries (refill policy w st) = fs_entries st"
    by (simp add: refill_def Let_def)
qed

text \<open>What a charge needs of its arguments: a policy within the limits of the configuration, a
  permitted address and the canonical set of candidates.\<close>

definition charge_args :: "LastGoodFallbackPolicy \<Rightarrow> bool \<Rightarrow> nat \<Rightarrow> u32 \<Rightarrow> u32 list \<Rightarrow> bool" where
  "charge_args policy ap w a ds \<longleftrightarrow> fp_global_capacity policy < 2 ^ 32 \<and> fp_cooldown_ms policy \<le> 86400000 \<and>
     fp_max_attempts policy < 2 ^ 32 \<and> w < 2 ^ 64 \<and> check_endpoint_ip a ap = None \<and>
     ds = dedup (sort ds) \<and> ds \<noteq> [] \<and> length ds \<le> 8 \<and> (\<forall>b \<in> set ds. check_endpoint_ip b ap = None)"

lemma charge_entry_cases:
  assumes "charge_entry policy w a ds es = Some es'"
  obtains (again) i nb where "i < length es" "budget_key (es ! i) = (a, ds)" "be_charged (es ! i) < fp_max_attempts policy"
      "be_not_before (es ! i) \<le> w" "nb = usat_add 64 w (ceil_secs (fp_cooldown_ms policy))"
      "es' = es[i := (es ! i)\<lparr> be_charged := usat_add 32 (be_charged (es ! i)) 1, be_not_before := nb, be_last_used := w \<rparr>]"
  | (first) nb where "(a, ds) \<notin> budget_key ` set es" "length es < 16"
      "nb = usat_add 64 w (ceil_secs (fp_cooldown_ms policy))"
      "es' = es @ [\<lparr> be_candidate = a, be_dns_set = ds, be_charged = 1, be_not_before = nb, be_last_used = w \<rparr>]"
proof (cases "position (\<lambda>x. be_candidate x = a \<and> be_dns_set x = ds) es")
  case None
  then have "(a, ds) \<notin> budget_key ` set es"
    by (auto simp: position_None budget_key_def)
  moreover have "length es < 16 \<and> es' = es @ [\<lparr> be_candidate = a, be_dns_set = ds, be_charged = 1,
      be_not_before = usat_add 64 w (ceil_secs (fp_cooldown_ms policy)), be_last_used = w \<rparr>]"
    using assms None by (simp add: charge_entry_def Let_def state_consts split: if_split_asm)
  ultimately show ?thesis
    by (intro first[OF _ _ refl]) simp_all
next
  case (Some i)
  have "budget_key (es ! i) = (a, ds) \<and> i < length es"
    using position_Some[OF Some] by (simp add: budget_key_def)
  moreover have "\<not> (be_charged (es ! i) \<ge> fp_max_attempts policy \<or> w < be_not_before (es ! i)) \<and>
    es' = es[i := (es ! i)\<lparr> be_charged := usat_add 32 (be_charged (es ! i)) 1,
      be_not_before := usat_add 64 w (ceil_secs (fp_cooldown_ms policy)), be_last_used := w \<rparr>]"
    using assms Some by (simp add: charge_entry_def Let_def split: if_split_asm)
  ultimately show ?thesis
    by (intro again[OF _ _ _ _ refl]) simp_all
qed

lemma charge_entry_keys:
  assumes "charge_entry policy w a ds es = Some es'" "distinct (map budget_key es)" "length es \<le> 16"
  shows "distinct (map budget_key es') \<and> length es' \<le> 16 \<and> budget_key ` set es' = insert (a, ds) (budget_key ` set es)"
  using assms(1)
proof (cases rule: charge_entry_cases)
  case (again i nb)
  let ?x = "(es ! i)\<lparr> be_charged := usat_add 32 (be_charged (es ! i)) 1, be_not_before := nb, be_last_used := w \<rparr>"
  have "budget_key ?x = budget_key (es ! i)"
    by (simp add: budget_key_def)
  then have m: "map budget_key es' = map budget_key es"
    using again(1,6) by (metis list_update_id map_update nth_map)
  have "(a, ds) \<in> budget_key ` set es"
    using again(1,2) by (metis image_eqI nth_mem)
  then show ?thesis
    using m assms(2,3) again(6) by (metis insert_absorb length_list_update list.set_map)
next
  case (first nb)
  then show ?thesis
    using assms(2,3) by (auto simp: budget_key_def[abs_def])
qed

lemma charge_entry_ok:
  assumes args: "charge_args policy ap w a ds" and es: "\<forall>x \<in> set es. entry_ok ap w x"
    and ch: "charge_entry policy w a ds es = Some es'"
  shows "\<forall>x \<in> set es'. entry_ok ap w x"
proof -
  define nb where "nb = usat_add 64 w (ceil_secs (fp_cooldown_ms policy))"
  have "ceil_secs (fp_cooldown_ms policy) \<le> 86400"
    using args div_le_mono[of "fp_cooldown_ms policy + 999" "86400999" 1000]
    by (simp add: ceil_secs_def usat_add_def charge_args_def)
  then have nb: "nb < 2 ^ 64" "w \<le> nb" "nb - w \<le> 86400" "w \<le> usat_add 64 w 300"
    using args by (auto simp: nb_def usat_add_def charge_args_def)
  from ch show ?thesis
  proof (cases rule: charge_entry_cases)
    case (again i nb')
    let ?x = "(es ! i)\<lparr> be_charged := usat_add 32 (be_charged (es ! i)) 1, be_not_before := nb, be_last_used := w \<rparr>"
    have "entry_ok ap w (es ! i)"
      using es again(1) by simp
    then have "entry_ok ap w ?x"
      using nb by (auto simp: entry_ok_def usat_add_def)
    then show ?thesis
      using es set_update_subset_insert[of es i ?x] again(5,6) by (auto simp: nb_def)
  next
    case (first nb')
    then show ?thesis
      using es nb args by (auto simp: entry_ok_def charge_args_def nb_def)
  qed
qed

lemma precharge_ok:
  assumes args: "charge_args policy ap w a ds" and ok: "state_ok (fp_global_capacity policy) ap w st"
    and ch: "precharge_fallback_state st policy w a ds = Some st'"
  shows "state_ok (fp_global_capacity policy) ap w st'"
proof -
  let ?n = "refill policy w st"
  obtain es where es: "charge_entry policy w a ds (fs_entries ?n) = Some es"
      "st' = ?n\<lparr> fs_tokens := fs_tokens ?n - 1, fs_entries := sort_key (\<lambda>x. - int (be_last_used x)) es \<rparr>"
    using ch by (auto simp: precharge_fallback_state_def Let_def split: if_splits option.splits)
  have n: "state_ok (fp_global_capacity policy) ap w ?n"
    using refill_ok[OF ok refl] args by (simp add: charge_args_def)
  then have "(\<forall>x \<in> set es. entry_ok ap w x) \<and> distinct (map budget_key es) \<and> length es \<le> 16"
    using charge_entry_ok[OF args _ es(1)] charge_entry_keys[OF es(1)] by (simp add: state_ok_def)
  moreover have "distinct (map budget_key (sort_key k es)) = distinct (map budget_key es)" for k :: "BudgetEntry \<Rightarrow> int"
    by (simp add: distinct_map)
  ultimately show ?thesis
    using n by (auto simp: state_ok_def es(2))
qed


section \<open>A history of requested probes\<close>

text \<open>Requests \<open>(wall_now, candidate, dns_set)\<close> in the order they are made; a refused request leaves
  the state as it was. The result lists the granted keys.\<close>

fun probes ::
  "LastGoodFallbackPolicy \<Rightarrow> FallbackState \<Rightarrow> (nat \<times> u32 \<times> u32 list) list \<Rightarrow> (u32 \<times> u32 list) list \<times> FallbackState" where
  "probes policy st [] = ([], st)"
| "probes policy st ((w, a, ds) # reqs) =
     (case precharge_fallback_state st policy w a ds of
        None \<Rightarrow> probes policy st reqs
      | Some st' \<Rightarrow> (case probes policy st' reqs of (out, st'') \<Rightarrow> ((a, ds) # out, st'')))"

text \<open>The potential: tokens in hand plus the tokens that time up to \<open>t\<close> can still mint.\<close>

definition potential :: "nat \<Rightarrow> nat \<Rightarrow> FallbackState \<Rightarrow> nat" where
  "potential r t st = fs_tokens st + (t - fs_updated st) div r"

lemma refill_potential:
  assumes "w \<le> t" "w < 2 ^ 64" "r = ceil_secs (fp_global_refill_ms policy)" "0 < r"
  shows "potential r t (refill policy w st) \<le> potential r t st"
proof -
  define n where "n = (w - fs_updated st) div r"
  show ?thesis
  proof (cases "fs_updated st \<le> w \<and> 0 < n")
    case True
    have le: "n * r \<le> w - fs_updated st"
      using div_times_less_eq_dividend[of "w - fs_updated st" r] by (simp add: n_def)
    then have "fs_updated st + n * r < 2 ^ 64"
      using True assms(2) by linarith
    then have "usat_add 64 (fs_updated st) (usat_mul 64 n r) = fs_updated st + n * r"
      by (simp add: usat_add_def usat_mul_def)
    then have upd: "fs_updated (refill policy w st) = fs_updated st + n * r"
      using True assms(4) by (simp add: refill_def n_def[symmetric] Let_def assms(3)[symmetric])
    have tok: "fs_tokens (refill policy w st) \<le> fs_tokens st + n"
      using True assms(4) by (simp add: refill_def n_def[symmetric] Let_def assms(3)[symmetric] usat_add_def min.coboundedI1)
    have "t - fs_updated st = n * r + (t - (fs_updated st + n * r))"
      using le True assms(1) by linarith
    then have "(t - fs_updated st) div r = n + (t - (fs_updated st + n * r)) div r"
      using div_mult_self3[of r n "t - (fs_updated st + n * r)"] assms(4) by simp
    then show ?thesis
      using upd tok by (simp add: potential_def)
  next
    case False
    then have "refill policy w st = st"
      using assms(3) by (auto simp: refill_def Let_def n_def)
    then show ?thesis
      by simp
  qed
qed

lemma precharge_potential:
  assumes "precharge_fallback_state st policy w a ds = Some st'" "w \<le> t" "w < 2 ^ 64"
    "r = ceil_secs (fp_global_refill_ms policy)" "0 < r"
  shows "Suc (potential r t st') \<le> potential r t st"
proof -
  have "0 < fs_tokens (refill policy w st)" "fs_tokens st' = fs_tokens (refill policy w st) - 1"
    "fs_updated st' = fs_updated (refill policy w st)"
    using assms(1) by (auto simp: precharge_fallback_state_def Let_def split: if_splits option.splits)
  then have "Suc (potential r t st') = potential r t (refill policy w st)"
    by (simp add: potential_def)
  then show ?thesis
    using refill_potential[OF assms(2-5), of st] by simp
qed

text \<open>The charges recorded for a key.\<close>

definition charges :: "u32 \<times> u32 list \<Rightarrow> FallbackState \<Rightarrow> nat" where
  "charges k st = sum_list (map be_charged (filter (\<lambda>x. budget_key x = k) (fs_entries st)))"

definition keys_ok :: "FallbackState \<Rightarrow> bool" where
  "keys_ok st \<longleftrightarrow> distinct (map budget_key (fs_entries st)) \<and> length (fs_entries st) \<le> 16"

lemma charges_sort: "sum_list (map be_charged (filter P (sort_key k es))) = sum_list (map be_charged (filter P es))"
  for k :: "BudgetEntry \<Rightarrow> int"
proof -
  have "mset (map be_charged (filter P (sort_key k es))) = mset (map be_charged (filter P es))"
    by simp
  then show ?thesis
    by (metis sum_mset_sum_list)
qed

lemma charges_unique:
  assumes "distinct (map budget_key es)" "i < length es"
  shows "filter (\<lambda>x. budget_key x = budget_key (es ! i)) es = [es ! i]"
  using assms
proof (induction es arbitrary: i)
  case (Cons x es)
  then show ?case
    by (cases i) (auto simp: filter_empty_conv image_iff)
qed simp

lemma charge_entry_charges:
  assumes "charge_entry policy w a ds es = Some es'" "distinct (map budget_key es)" "fp_max_attempts policy < 2 ^ 32"
  shows "sum_list (map be_charged (filter (\<lambda>x. budget_key x = k) es')) =
      sum_list (map be_charged (filter (\<lambda>x. budget_key x = k) es)) + (if k = (a, ds) then 1 else 0) \<and>
    (k = (a, ds) \<longrightarrow> sum_list (map be_charged (filter (\<lambda>x. budget_key x = k) es)) < max 1 (fp_max_attempts policy))"
  using assms(1)
proof (cases rule: charge_entry_cases)
  case (again i nb)
  let ?x = "(es ! i)\<lparr> be_charged := usat_add 32 (be_charged (es ! i)) 1, be_not_before := nb, be_last_used := w \<rparr>"
  have es: "es = take i es @ es ! i # drop (Suc i) es" "es' = take i es @ ?x # drop (Suc i) es"
    using again(1,6) by (auto simp: id_take_nth_drop upd_conv_take_nth_drop)
  have x: "budget_key ?x = (a, ds)" "be_charged ?x = be_charged (es ! i) + 1"
    using again(2,3) assms(3) by (auto simp: budget_key_def usat_add_def)
  have "filter (\<lambda>x. budget_key x = (a, ds)) es = [es ! i]"
    using charges_unique[OF assms(2) again(1)] again(2) by simp
  moreover have "sum_list (map be_charged (filter (\<lambda>x. budget_key x = k) es')) =
      sum_list (map be_charged (filter (\<lambda>x. budget_key x = k) es)) + (if k = (a, ds) then 1 else 0)"
    by (subst es(1), subst es(2)) (use x again(2) in simp)
  ultimately show ?thesis
    using again(3) by auto
next
  case (first nb)
  have "filter (\<lambda>x. budget_key x = (a, ds)) es = []"
    using first(1) by (auto simp: filter_empty_conv image_iff)
  then show ?thesis
    by (auto simp: first(4) budget_key_def)
qed

lemma refill_entries [simp]: "fs_entries (refill policy w st) = fs_entries st"
  by (simp add: refill_def Let_def)

lemma precharge_charges:
  assumes "precharge_fallback_state st policy w a ds = Some st'" "keys_ok st" "fp_max_attempts policy < 2 ^ 32"
  shows "charges k st' = charges k st + (if k = (a, ds) then 1 else 0)"
    and "k = (a, ds) \<Longrightarrow> charges k st < max 1 (fp_max_attempts policy)"
    and "keys_ok st'"
    and "budget_key ` set (fs_entries st') = insert (a, ds) (budget_key ` set (fs_entries st))"
proof -
  obtain es where es: "charge_entry policy w a ds (fs_entries st) = Some es"
      "fs_entries st' = sort_key (\<lambda>x. - int (be_last_used x)) es"
    using assms(1) by (auto simp: precharge_fallback_state_def Let_def split: if_splits option.splits)
  have d: "distinct (map budget_key (fs_entries st))" "length (fs_entries st) \<le> 16"
    using assms(2) by (simp_all add: keys_ok_def)
  show "charges k st' = charges k st + (if k = (a, ds) then 1 else 0)"
    and "k = (a, ds) \<Longrightarrow> charges k st < max 1 (fp_max_attempts policy)"
    using charge_entry_charges[OF es(1) d(1) assms(3), of k] by (simp_all add: charges_def es(2) charges_sort)
  show "keys_ok st'"
    and "budget_key ` set (fs_entries st') = insert (a, ds) (budget_key ` set (fs_entries st))"
    using charge_entry_keys[OF es(1) d] by (simp_all add: keys_ok_def es(2) distinct_map)
qed

lemma probes_bounds:
  assumes "keys_ok st" "fp_max_attempts policy < 2 ^ 32" "r = ceil_secs (fp_global_refill_ms policy)" "0 < r"
    "\<forall>q \<in> set reqs. fst q \<le> t" "t < 2 ^ 64"
  shows "length (fst (probes policy st reqs)) + potential r t (snd (probes policy st reqs)) \<le> potential r t st"
    and "count_list (fst (probes policy st reqs)) k + charges k st \<le> max (charges k st) (max 1 (fp_max_attempts policy))"
    and "keys_ok (snd (probes policy st reqs))"
    and "set (fst (probes policy st reqs)) \<subseteq> budget_key ` set (fs_entries (snd (probes policy st reqs)))"
proof -
  have "length (fst (probes policy st reqs)) + potential r t (snd (probes policy st reqs)) \<le> potential r t st \<and>
    count_list (fst (probes policy st reqs)) k + charges k st \<le> max (charges k st) (max 1 (fp_max_attempts policy)) \<and>
    keys_ok (snd (probes policy st reqs)) \<and>
    budget_key ` set (fs_entries st) \<union> set (fst (probes policy st reqs)) \<subseteq>
      budget_key ` set (fs_entries (snd (probes policy st reqs)))"
    using assms(1,5)
  proof (induction reqs arbitrary: st)
    case (Cons q reqs)
    obtain w a ds where q: "q = (w, a, ds)"
      by (cases q)
    show ?case
    proof (cases "precharge_fallback_state st policy w a ds")
      case None
      then show ?thesis
        using Cons by (simp add: q)
    next
      case (Some st')
      note step = precharge_charges[OF Some Cons.prems(1) assms(2)]
      have "Suc (potential r t st') \<le> potential r t st"
        using precharge_potential[OF Some _ _ assms(3,4)] Cons.prems(2) assms(6) by (simp add: q)
      then show ?thesis
        using Cons.IH[OF step(3)] Cons.prems(2) step(1,2)[of k] step(4)
        by (cases "probes policy st' reqs") (auto simp: q Some)
    qed
  qed simp
  then show "length (fst (probes policy st reqs)) + potential r t (snd (probes policy st reqs)) \<le> potential r t st"
    and "count_list (fst (probes policy st reqs)) k + charges k st \<le> max (charges k st) (max 1 (fp_max_attempts policy))"
    and "keys_ok (snd (probes policy st reqs))"
    and "set (fst (probes policy st reqs)) \<subseteq> budget_key ` set (fs_entries (snd (probes policy st reqs)))"
    by blast+
qed

lemmas charge_evals = precharge_fallback_state_def charge_entry_def refill_def ceil_secs_def usat_add_def usat_mul_def
  Let_def state_consts LastGoodFallbackPolicy_default_def FallbackState_new_def insort_key_def

text \<open>C10: the budget bounds the unattended probes of the last known good address over any history of
  requests: however the wall clock moves, as long as it stays at or below \<open>t\<close>, no more probes are
  granted than tokens were in hand plus one for each full refill interval up to \<open>t\<close>; no pair of an
  address and a set of DNS answers is granted more probes than \<open>max_attempts\<close> in total; and at most
  sixteen different pairs are ever granted.\<close>

theorem probe_budget:
  assumes "keys_ok st" "fp_max_attempts policy < 2 ^ 32" "0 < ceil_secs (fp_global_refill_ms policy)"
    and "\<forall>(w, a, ds) \<in> set reqs. w \<le> t" "t < 2 ^ 64" "probes policy st reqs = (granted, st')"
  shows "length granted \<le> fs_tokens st + (t - fs_updated st) div ceil_secs (fp_global_refill_ms policy) \<and>
    count_list granted k + charges k st \<le> max (charges k st) (max 1 (fp_max_attempts policy)) \<and>
    card (set granted) \<le> 16"
proof -
  have le: "\<forall>q \<in> set reqs. fst q \<le> t"
    using assms(4) by auto
  note b = probes_bounds[OF assms(1,2) refl assms(3) le assms(5), unfolded assms(6) fst_conv snd_conv]
  have "card (set granted) \<le> card (budget_key ` set (fs_entries st'))"
    using b(4) by (intro card_mono) simp_all
  also have "\<dots> \<le> length (fs_entries st')"
    by (metis card_image_le card_length finite_set le_trans)
  finally show ?thesis
    using b(1,2) b(3) by (auto simp: potential_def keys_ok_def)
qed

theorem probe_budget_witness:
  "fst (probes LastGoodFallbackPolicy_default (FallbackState_new 1 0)
      [(10, 8, [9]), (20, 8, [9]), (1000, 8, [9]), (1100, 7, [9])]) = [(8, [9]), (8, [9])] \<and>
   length [(8 :: u32, [9 :: u32]), (8, [9])] \<le> 1 + (1100 - 0) div ceil_secs (fp_global_refill_ms LastGoodFallbackPolicy_default)"
proof -
  let ?r = "[(10, 8, [9]), (20, 8, [9]), (1000, 8, [9]), (1100, 7, [9])]"
  obtain st' where p: "probes LastGoodFallbackPolicy_default (FallbackState_new 1 0) ?r = ([(8, [9]), (8, [9])], st')"
  proof -
    have "fst (probes LastGoodFallbackPolicy_default (FallbackState_new 1 0) ?r) = [(8, [9]), (8, [9])]"
      by (simp add: charge_evals)
    then show ?thesis
      using that by (metis prod.collapse)
  qed
  moreover have "fs_tokens (FallbackState_new 1 0) = 1" "fs_updated (FallbackState_new 1 0) = 0"
    "keys_ok (FallbackState_new 1 0)"
    by (simp_all add: FallbackState_new_def keys_ok_def)
  moreover have "0 < ceil_secs (fp_global_refill_ms LastGoodFallbackPolicy_default)"
    "fp_max_attempts LastGoodFallbackPolicy_default < 2 ^ 32"
    by (simp_all add: charge_evals)
  ultimately show ?thesis
    using probe_budget[of "FallbackState_new 1 0" LastGoodFallbackPolicy_default ?r 1100 "[(8, [9]), (8, [9])]" st' "(8, [9])"]
    by simp
qed

text \<open>C11: what a granted probe writes is what the next start reads. If the controller loaded its
  state file and the budget granted a probe at the wall time \<open>w\<close>, then the text written before the probe is read
  back as exactly the charged state, at that time and at any later one: a crash or a restart between
  the charge and the probe never returns the token or forgets the cooldown.\<close>

theorem charge_survives_restart:
  assumes "host \<noteq> []" "\<forall>c \<in> set host. dns_char c" "charge_args policy ap w a ds"
    and "load_fallback_state file host port (fp_global_capacity policy) ap w = Inr (Some st)"
    and "precharge_fallback_state st policy w a ds = Some st'" "w \<le> w'"
  shows "load_fallback_state (Inr (Some (serialize_fallback_state host port st'))) host port
      (fp_global_capacity policy) ap w' = Inr (Some st')"
  using load_serialized[OF assms(1,2)] state_ok_mono[OF precharge_ok[OF assms(3) load_state_ok[OF assms(4)] assms(5)] assms(6)]
  by blast

theorem charge_survives_restart_witness:
  "let st = FallbackState_new 4 1000; st' = \<lparr> fs_tokens = 3, fs_updated = 1900, fs_entries =
       [\<lparr> be_candidate = 0x08080808, be_dns_set = [0x01010101], be_charged = 1, be_not_before = 2300, be_last_used = 2000 \<rparr>] \<rparr>
   in precharge_fallback_state st LastGoodFallbackPolicy_default 2000 0x08080808 [0x01010101] = Some st' \<and>
      load_fallback_state (Inr (Some (serialize_fallback_state ''a.b'' 53 st'))) ''a.b'' 53 4 False 2500 = Inr (Some st')"
proof -
  let ?st' = "\<lparr> fs_tokens = 3, fs_updated = 1900, fs_entries =
    [\<lparr> be_candidate = 0x08080808, be_dns_set = [0x01010101], be_charged = 1, be_not_before = 2300, be_last_used = 2000 \<rparr>] \<rparr>"
  have h: "\<forall>c \<in> set ''a.b''. dns_char c"
    by code_simp
  have p: "precharge_fallback_state (FallbackState_new 4 1000) LastGoodFallbackPolicy_default 2000 0x08080808 [0x01010101] = Some ?st'"
    by (simp add: charge_evals)
  have "load_fallback_state (Inr (Some (serialize_fallback_state ''a.b'' 53 (FallbackState_new 4 1000)))) ''a.b'' 53
      (fp_global_capacity LastGoodFallbackPolicy_default) False 2000 = Inr (Some (FallbackState_new 4 1000))"
    by (rule load_serialized[OF _ h]) (simp_all add: charge_evals state_ok_def)
  moreover have "charge_args LastGoodFallbackPolicy_default False 2000 0x08080808 [0x01010101]"
  proof -
    have "check_endpoint_ip 0x08080808 False = None" "check_endpoint_ip 0x01010101 False = None"
      "[0x01010101 :: u32] = dedup (sort [0x01010101])"
      by code_simp+
    then show ?thesis
      by (simp add: charge_args_def LastGoodFallbackPolicy_default_def)
  qed
  ultimately show ?thesis
    using charge_survives_restart[of "''a.b''" LastGoodFallbackPolicy_default False 2000 "0x08080808" "[0x01010101]" _ 53
      "FallbackState_new 4 1000" ?st' 2500] p h
    by (simp add: LastGoodFallbackPolicy_default_def)
qed

end
