(* ===== verification/Dns.thy ===== *)
theory Dns
  imports Fallback_State Faketcp
begin

text \<open>
  The resolver of \<open>src/src/dns.rs\<close>. Messages are encoded and decoded by the package
  \<open>hickory-proto\<close>: its functions are the fields of the record \<open>Hickory\<close>, an argument of the
  definitions, and a message is the values its accessors return. \<open>DnsNet\<close> is what the operating
  system answers: the successive readings of \<open>Instant::now\<close>, the results of socket calls, the
  datagrams and stream chunks received. A loop that waits for the network takes a bound on its
  iterations and gives \<open>None\<close> when it is used up; \<open>resolve_a_returns\<close> shows how large a bound is
  enough.
\<close>


section \<open>Messages\<close>

datatype MessageType = MtQuery | MtResponse
datatype OpCode = OpQuery | OpOther nat
datatype ResponseCode = NoError | NXDomain | OtherRcode nat
datatype RecordType = RtA | RtOther nat
datatype DNSClass = ClassIN | ClassOther nat
datatype 'n RData = RA u32 | RCNAME 'n | ROther

record 'n DnsQuery =
  dq_name :: 'n
  dq_type :: RecordType
  dq_class :: DNSClass

record 'n DnsRecord =
  dr_name :: 'n
  dr_ttl :: u32
  dr_data :: "'n RData"

record 'n DnsMessage =
  dm_id :: u16
  dm_type :: MessageType
  dm_opcode :: OpCode
  dm_rcode :: ResponseCode
  dm_truncated :: bool
  dm_recursion_desired :: bool
  dm_queries :: "'n DnsQuery list"
  dm_answers :: "'n DnsRecord list"

text \<open>The functions of \<open>hickory-proto\<close> the code calls: \<open>Name::from_ascii\<close>, \<open>set_fqdn(true)\<close>,
  \<open>to_ascii\<close>, equality of names, \<open>Message::to_vec\<close> and \<open>Message::from_vec\<close>.\<close>

record 'n Hickory =
  hk_from_ascii :: "string \<Rightarrow> 'n option"
  hk_set_fqdn :: "'n \<Rightarrow> 'n"
  hk_to_ascii :: "'n \<Rightarrow> string"
  hk_name_eq :: "'n \<Rightarrow> 'n \<Rightarrow> bool"
  hk_to_vec :: "'n DnsMessage \<Rightarrow> bytes option"
  hk_from_vec :: "bytes \<Rightarrow> 'n DnsMessage option"


section \<open>Configuration, answers and errors\<close>

definition TTL_MIN_SECS :: u32 where "TTL_MIN_SECS = 10"
definition TTL_MAX_SECS :: u32 where "TTL_MAX_SECS = 3600"
definition MAX_CNAME_HOPS :: nat where "MAX_CNAME_HOPS = 8"
definition MAX_TCP_MESSAGE :: nat where "MAX_TCP_MESSAGE = 65535"

record DnsConfig =
  dc_servers :: "SocketAddr list"
  dc_device :: "string option"
  dc_timeout :: nat
  dc_overall_timeout :: nat
  dc_allow_private :: bool

record DnsAnswer =
  an_addrs :: "u32 list"
  an_ttl :: u32
  an_raw_ttl :: u32
  an_server :: SocketAddr
  an_cnames :: "string list"
  an_via_tcp :: bool

datatype io_kind = WouldBlock | TimedOut | Interrupted | WriteZero | UnexpectedEof | InvalidInput | OtherKind

datatype malformed = EncodeFailed | BadOpCode | CnameAndA | ConflictingCname | ChainTooLong | CnameLoop
  | QueryTooLong | TcpLength nat | TcpUndecodable | TcpMismatch

datatype DnsError = NxDomain | NoData | Rcode ResponseCode | DnsTimeout | DeadlineExceeded
  | NoUsableAddresses | Malformed malformed | DnsIo io_kind | InvalidName | NoServers
  | AllFailed "(SocketAddr \<times> DnsError) list"

text \<open>\<open>From<io::Error>\<close>.\<close>

definition dns_error_from :: "io_kind \<Rightarrow> DnsError" where
  "dns_error_from k = (if k = WouldBlock \<or> k = TimedOut then DnsTimeout else DnsIo k)"

definition canonicalize_answer :: "DnsAnswer \<Rightarrow> bool \<Rightarrow> DnsError + DnsAnswer" where
  "canonicalize_answer answer allow_private =
     (let as = dedup (sort (filter (\<lambda>ip. check_endpoint_ip ip allow_private = None) (an_addrs answer))) in
      if as = [] then Inl NoUsableAddresses
      else Inr (answer\<lparr> an_addrs := take MAX_ENDPOINT_CANDIDATES as \<rparr>))"

definition parse_name :: "'n Hickory \<Rightarrow> string \<Rightarrow> DnsError + 'n" where
  "parse_name hk name = (case hk_from_ascii hk name of None \<Rightarrow> Inl InvalidName | Some n \<Rightarrow> Inr (hk_set_fqdn hk n))"

definition build_query :: "u16 \<Rightarrow> 'n \<Rightarrow> 'n DnsMessage" where
  "build_query i qname = \<lparr> dm_id = i, dm_type = MtQuery, dm_opcode = OpQuery, dm_rcode = NoError,
     dm_truncated = False, dm_recursion_desired = True,
     dm_queries = [\<lparr> dq_name = qname, dq_type = RtA, dq_class = ClassIN \<rparr>], dm_answers = [] \<rparr>"

definition is_our_reply :: "'n Hickory \<Rightarrow> 'n DnsMessage \<Rightarrow> u16 \<Rightarrow> 'n \<Rightarrow> bool" where
  "is_our_reply hk m i qname \<longleftrightarrow> dm_id m = i \<and> dm_type m = MtResponse \<and> length (dm_queries m) = 1 \<and>
     hk_name_eq hk (dq_name (dm_queries m ! 0)) qname \<and> dq_type (dm_queries m ! 0) = RtA \<and>
     dq_class (dm_queries m ! 0) = ClassIN"


section \<open>Reading an answer\<close>

text \<open>\<open>interpret\<close>: the records owned by \<open>name\<close>, their addresses and aliases.\<close>

definition owned :: "'n Hickory \<Rightarrow> 'n DnsRecord list \<Rightarrow> 'n \<Rightarrow> 'n DnsRecord list" where
  "owned hk answers name = filter (\<lambda>r. hk_name_eq hk (dr_name r) name) answers"

fun rdata_a :: "'n DnsRecord list \<Rightarrow> (u32 \<times> u32) list" where
  "rdata_a [] = []"
| "rdata_a (r # rs) = (case dr_data r of RA a \<Rightarrow> (a, dr_ttl r) # rdata_a rs | _ \<Rightarrow> rdata_a rs)"

fun rdata_cname :: "'n DnsRecord list \<Rightarrow> ('n \<times> u32) list" where
  "rdata_cname [] = []"
| "rdata_cname (r # rs) = (case dr_data r of RCNAME c \<Rightarrow> (c, dr_ttl r) # rdata_cname rs | _ \<Rightarrow> rdata_cname rs)"

definition U32_MAX :: u32 where "U32_MAX = 0xffffffff"

definition ttl_min :: "u32 list \<Rightarrow> u32" where
  "ttl_min ttls = foldl min U32_MAX ttls"

definition clamp_ttl :: "u32 \<Rightarrow> u32" where
  "clamp_ttl t = (if t < TTL_MIN_SECS then TTL_MIN_SECS else if TTL_MAX_SECS < t then TTL_MAX_SECS else t)"

definition eq_ignore_ascii_case :: "string \<Rightarrow> string \<Rightarrow> bool" where
  "eq_ignore_ascii_case a b \<longleftrightarrow> to_ascii_lowercase a = to_ascii_lowercase b"

text \<open>One iteration of the loop: it returns, or continues with the alias.\<close>

datatype ('n, 'a) hop = Return 'a | Follow 'n u32

definition chain_step ::
  "'n Hickory \<Rightarrow> 'n DnsRecord list \<Rightarrow> SocketAddr \<Rightarrow> bool \<Rightarrow> 'n \<Rightarrow> string list \<Rightarrow> u32 \<Rightarrow> ('n, DnsError + DnsAnswer) hop" where
  "chain_step hk answers server via_tcp name cnames chain_ttl =
     (let rs = owned hk answers name; as = rdata_a rs; cs = rdata_cname rs in
      if as \<noteq> [] then
        if cs \<noteq> [] then Return (Inl (Malformed CnameAndA))
        else let raw = min chain_ttl (ttl_min (map snd as)) in
          Return (Inr \<lparr> an_addrs = map fst as, an_ttl = clamp_ttl raw, an_raw_ttl = raw, an_server = server,
                        an_cnames = cnames, an_via_tcp = via_tcp \<rparr>)
      else case cs of
        [] \<Rightarrow> Return (Inl NoData)
      | (target, _) # _ \<Rightarrow>
          if \<exists>(other, t) \<in> set cs. \<not> hk_name_eq hk other target then Return (Inl (Malformed ConflictingCname))
          else if length cnames \<ge> MAX_CNAME_HOPS then Return (Inl (Malformed ChainTooLong))
          else if hk_name_eq hk target name \<or> (\<exists>c \<in> set cnames. eq_ignore_ascii_case c (hk_to_ascii hk target)) then
            Return (Inl (Malformed CnameLoop))
          else Follow target (min chain_ttl (ttl_min (map snd cs))))"

lemma chain_step_Follow: "chain_step hk answers server via name cnames ttl = Follow target t \<Longrightarrow> length cnames < MAX_CNAME_HOPS"
  by (auto simp: chain_step_def Let_def split: if_splits list.splits)

function interpret_chain ::
  "'n Hickory \<Rightarrow> 'n DnsRecord list \<Rightarrow> SocketAddr \<Rightarrow> bool \<Rightarrow> 'n \<Rightarrow> string list \<Rightarrow> u32 \<Rightarrow> DnsError + DnsAnswer" where
  "interpret_chain hk answers server via_tcp name cnames chain_ttl =
     (case chain_step hk answers server via_tcp name cnames chain_ttl of
        Return r \<Rightarrow> r
      | Follow target ttl \<Rightarrow>
          interpret_chain hk answers server via_tcp target (cnames @ [hk_to_ascii hk target]) ttl)"
  by pat_completeness auto
termination
  by (relation "measure (\<lambda>(hk, answers, server, via_tcp, name, cnames, ttl). MAX_CNAME_HOPS - length cnames)")
    (auto dest!: chain_step_Follow)

declare interpret_chain.simps [simp del]

definition interpret_msg :: "'n Hickory \<Rightarrow> 'n DnsMessage \<Rightarrow> 'n \<Rightarrow> SocketAddr \<Rightarrow> bool \<Rightarrow> DnsError + DnsAnswer" where
  "interpret_msg hk m qname server via_tcp =
     (if dm_opcode m \<noteq> OpQuery then Inl (Malformed BadOpCode)
      else case dm_rcode m of
        NoError \<Rightarrow> interpret_chain hk (dm_answers m) server via_tcp qname [] U32_MAX
      | NXDomain \<Rightarrow> Inl NxDomain
      | rc \<Rightarrow> Inl (Rcode rc))"



section \<open>Exchanges with a server\<close>

record DnsNet =
  dn_env :: Env
  dn_clock :: "nat \<Rightarrow> nat"
  dn_tick :: nat
  dn_sys :: "nat \<Rightarrow> io_kind option"
  dn_spos :: nat
  dn_udp :: "nat \<Rightarrow> io_kind + bytes"
  dn_upos :: nat
  dn_write :: "nat \<Rightarrow> io_kind + nat"
  dn_wpos :: nat
  dn_read :: "nat \<Rightarrow> io_kind + bytes"
  dn_rpos :: nat

text \<open>A computation that may fail with an error, or run out of iterations.\<close>

type_synonym 'a dns = "DnsNet \<Rightarrow> ((DnsError + 'a) \<times> DnsNet) option"

definition dret :: "'a \<Rightarrow> 'a dns" where
  "dret x n = Some (Inr x, n)"

definition dfail :: "DnsError \<Rightarrow> 'a dns" where
  "dfail e n = Some (Inl e, n)"

definition dbind :: "'a dns \<Rightarrow> ('a \<Rightarrow> 'b dns) \<Rightarrow> 'b dns" where
  "dbind m f n = (case m n of None \<Rightarrow> None | Some (Inl e, n') \<Rightarrow> Some (Inl e, n') | Some (Inr x, n') \<Rightarrow> f x n')"

text \<open>The handler of a \<open>match\<close> on a result.\<close>

definition dtry :: "'a dns \<Rightarrow> (DnsError + 'a \<Rightarrow> 'b dns) \<Rightarrow> 'b dns" where
  "dtry m f n = (case m n of None \<Rightarrow> None | Some (r, n') \<Rightarrow> f r n')"

definition of_sum :: "DnsError + 'a \<Rightarrow> 'a dns" where
  "of_sum r n = Some (r, n)"

definition instant_now :: "nat dns" where
  "instant_now n = Some (Inr (dn_clock n (dn_tick n)), n\<lparr> dn_tick := Suc (dn_tick n) \<rparr>)"

text \<open>A system call without data; \<open>conv\<close> is the conversion its error goes through.\<close>

definition syscall :: "(io_kind \<Rightarrow> DnsError) \<Rightarrow> unit dns" where
  "syscall conv n = (case dn_sys n (dn_spos n) of
      None \<Rightarrow> Some (Inr (), n\<lparr> dn_spos := Suc (dn_spos n) \<rparr>)
    | Some k \<Rightarrow> Some (Inl (conv k), n\<lparr> dn_spos := Suc (dn_spos n) \<rparr>))"

definition udp_recv :: "(io_kind + bytes) dns" where
  "udp_recv n = Some (Inr (dn_udp n (dn_upos n)), n\<lparr> dn_upos := Suc (dn_upos n) \<rparr>)"

definition tcp_write :: "(io_kind + nat) dns" where
  "tcp_write n = Some (Inr (dn_write n (dn_wpos n)), n\<lparr> dn_wpos := Suc (dn_wpos n) \<rparr>)"

definition tcp_read :: "(io_kind + bytes) dns" where
  "tcp_read n = Some (Inr (dn_read n (dn_rpos n)), n\<lparr> dn_rpos := Suc (dn_rpos n) \<rparr>)"

definition random_id :: "u16 dns" where
  "random_id n = (case secure_random_u32 (dn_env n) of (v, e) \<Rightarrow> Some (Inr (ucast v), n\<lparr> dn_env := e \<rparr>))"

text \<open>\<open>Instant::checked_add\<close> on a 64-bit count of seconds, in nanoseconds.\<close>

definition INSTANT_LIMIT :: nat where "INSTANT_LIMIT = 2 ^ 63 * 1000000000"

definition checked_add :: "nat \<Rightarrow> nat \<Rightarrow> nat option" where
  "checked_add t d = (if t + d < INSTANT_LIMIT then Some (t + d) else None)"

definition transport_deadline :: "nat \<Rightarrow> nat \<Rightarrow> nat dns" where
  "transport_deadline overall timeout = dbind instant_now (\<lambda>now.
     if now \<ge> overall then dfail DeadlineExceeded
     else dret (case checked_add now timeout of None \<Rightarrow> overall | Some d \<Rightarrow> min d overall))"

definition timeout_error :: "nat \<Rightarrow> nat \<Rightarrow> DnsError" where
  "timeout_error deadline overall = (if deadline = overall then DeadlineExceeded else DnsTimeout)"

definition remaining :: "nat \<Rightarrow> nat \<Rightarrow> nat dns" where
  "remaining deadline overall = dbind instant_now (\<lambda>now.
     if deadline - now = 0 then dfail (timeout_error deadline overall) else dret (deadline - now))"

definition exchange_io_error :: "nat \<Rightarrow> nat \<Rightarrow> io_kind \<Rightarrow> DnsError" where
  "exchange_io_error deadline overall k =
     (if (k = WouldBlock \<or> k = TimedOut) \<and> deadline = overall then DeadlineExceeded else dns_error_from k)"

text \<open>\<open>bind_device_fd\<close>: a name that does not fit \<open>IFNAMSIZ\<close> is refused before the call.\<close>

definition bind_device :: "string option \<Rightarrow> (io_kind \<Rightarrow> DnsError) \<Rightarrow> unit dns" where
  "bind_device device conv = (case device of
      None \<Rightarrow> dret ()
    | Some dev \<Rightarrow> if dev = [] \<or> length dev \<ge> 16 then dfail (conv InvalidInput) else syscall conv)"

fun udp_wait :: "nat \<Rightarrow> 'n Hickory \<Rightarrow> u16 \<Rightarrow> 'n \<Rightarrow> nat \<Rightarrow> nat \<Rightarrow> 'n DnsMessage dns" where
  "udp_wait 0 hk i qname deadline overall = (\<lambda>n. None)"
| "udp_wait (Suc fuel) hk i qname deadline overall =
     dbind instant_now (\<lambda>now.
     if deadline - now = 0 then dfail (timeout_error deadline overall)
     else dbind (syscall dns_error_from) (\<lambda>_. dbind udp_recv (\<lambda>r.
       case r of
         Inl k \<Rightarrow> dfail (if k = WouldBlock \<or> k = TimedOut then timeout_error deadline overall else DnsIo k)
       | Inr dgram \<Rightarrow>
           (case hk_from_vec hk (take 4096 dgram) of
              Some m \<Rightarrow> if is_our_reply hk m i qname then dret m else udp_wait fuel hk i qname deadline overall
            | None \<Rightarrow> udp_wait fuel hk i qname deadline overall))))"

definition udp_exchange ::
  "nat \<Rightarrow> 'n Hickory \<Rightarrow> DnsConfig \<Rightarrow> bytes \<Rightarrow> u16 \<Rightarrow> 'n \<Rightarrow> nat \<Rightarrow> 'n DnsMessage dns" where
  "udp_exchange fuel hk cfg wire i qname overall =
     dbind (transport_deadline overall (dc_timeout cfg)) (\<lambda>deadline.
     dbind (syscall dns_error_from) (\<lambda>_.
     dbind (bind_device (dc_device cfg) dns_error_from) (\<lambda>_.
     dbind (syscall dns_error_from) (\<lambda>_.
     dbind (remaining deadline overall) (\<lambda>_.
     dbind (syscall dns_error_from) (\<lambda>_.
     dbind (syscall dns_error_from) (\<lambda>_.
     udp_wait fuel hk i qname deadline overall)))))))"

fun write_all_until :: "nat \<Rightarrow> bytes \<Rightarrow> nat \<Rightarrow> nat \<Rightarrow> unit dns" where
  "write_all_until 0 data deadline overall = (\<lambda>n. None)"
| "write_all_until (Suc fuel) data deadline overall =
     (if data = [] then dret ()
      else dbind (remaining deadline overall) (\<lambda>_.
        dbind (syscall (exchange_io_error deadline overall)) (\<lambda>_.
        dbind tcp_write (\<lambda>r. case r of
            Inr 0 \<Rightarrow> dfail (DnsIo WriteZero)
          | Inr (Suc k) \<Rightarrow> write_all_until fuel (drop (Suc k) data) deadline overall
          | Inl e \<Rightarrow> if e = Interrupted then write_all_until fuel data deadline overall
                    else dfail (exchange_io_error deadline overall e)))))"

text \<open>\<open>read_exact_until\<close> fills \<open>want\<close> bytes; \<open>got\<close> are the bytes read so far.\<close>

fun read_exact_until :: "nat \<Rightarrow> nat \<Rightarrow> bytes \<Rightarrow> nat \<Rightarrow> nat \<Rightarrow> bytes dns" where
  "read_exact_until 0 want got deadline overall = (\<lambda>n. None)"
| "read_exact_until (Suc fuel) want got deadline overall =
     (if want \<le> length got then dret got
      else dbind (remaining deadline overall) (\<lambda>_.
        dbind (syscall (exchange_io_error deadline overall)) (\<lambda>_.
        dbind tcp_read (\<lambda>r. case r of
            Inr chunk \<Rightarrow>
              if chunk = [] then dfail (DnsIo UnexpectedEof)
              else read_exact_until fuel want (got @ take (want - length got) chunk) deadline overall
          | Inl e \<Rightarrow> if e = Interrupted then read_exact_until fuel want got deadline overall
                    else dfail (exchange_io_error deadline overall e)))))"

text \<open>\<open>tcp_connect\<close>: the socket, the device, the two timeouts and the connection.\<close>

definition tcp_connect :: "string option \<Rightarrow> (io_kind \<Rightarrow> DnsError) \<Rightarrow> unit dns" where
  "tcp_connect device conv =
     dbind (syscall conv) (\<lambda>_. dbind (bind_device device conv) (\<lambda>_.
     dbind (syscall conv) (\<lambda>_. dbind (syscall conv) (\<lambda>_. syscall conv))))"

definition tcp_exchange ::
  "nat \<Rightarrow> 'n Hickory \<Rightarrow> DnsConfig \<Rightarrow> bytes \<Rightarrow> u16 \<Rightarrow> 'n \<Rightarrow> nat \<Rightarrow> 'n DnsMessage dns" where
  "tcp_exchange fuel hk cfg wire i qname overall =
     dbind (transport_deadline overall (dc_timeout cfg)) (\<lambda>deadline.
     dbind (remaining deadline overall) (\<lambda>_.
     dbind (tcp_connect (dc_device cfg) (exchange_io_error deadline overall)) (\<lambda>_.
     if length wire \<ge> 65536 then dfail (Malformed QueryTooLong)
     else dbind (write_all_until fuel (be16 (of_nat (length wire))) deadline overall) (\<lambda>_.
     dbind (write_all_until fuel wire deadline overall) (\<lambda>_.
     dbind (read_exact_until fuel 2 [] deadline overall) (\<lambda>lenbuf.
     let rlen = unat (of_be16 (lenbuf ! 0) (lenbuf ! 1)) in
     if rlen = 0 \<or> rlen > MAX_TCP_MESSAGE then dfail (Malformed (TcpLength rlen))
     else dbind (read_exact_until fuel rlen [] deadline overall) (\<lambda>body.
       case hk_from_vec hk body of
         None \<Rightarrow> dfail (Malformed TcpUndecodable)
       | Some m \<Rightarrow> if is_our_reply hk m i qname then dret m else dfail (Malformed TcpMismatch))))))))"

definition query_server ::
  "nat \<Rightarrow> 'n Hickory \<Rightarrow> DnsConfig \<Rightarrow> SocketAddr \<Rightarrow> 'n \<Rightarrow> nat \<Rightarrow> DnsAnswer dns" where
  "query_server fuel hk cfg server qname deadline =
     dbind random_id (\<lambda>i.
     case hk_to_vec hk (build_query i qname) of
       None \<Rightarrow> dfail (Malformed EncodeFailed)
     | Some wire \<Rightarrow>
         dbind (udp_exchange fuel hk cfg wire i qname deadline) (\<lambda>reply.
         if dm_truncated reply then
           dbind (tcp_exchange fuel hk cfg wire i qname deadline) (\<lambda>reply2.
           of_sum (interpret_msg hk reply2 qname server True))
         else of_sum (interpret_msg hk reply qname server False)))"

fun try_servers ::
  "nat \<Rightarrow> 'n Hickory \<Rightarrow> DnsConfig \<Rightarrow> 'n \<Rightarrow> nat \<Rightarrow> SocketAddr list \<Rightarrow> (SocketAddr \<times> DnsError) list \<Rightarrow> DnsAnswer dns" where
  "try_servers fuel hk cfg qname deadline [] failures = dfail (AllFailed failures)"
| "try_servers fuel hk cfg qname deadline (server # rest) failures =
     dbind instant_now (\<lambda>now.
     if now \<ge> deadline then dfail DeadlineExceeded
     else dtry (query_server fuel hk cfg server qname deadline) (\<lambda>r.
       let next = (\<lambda>e. dbind instant_now (\<lambda>now.
             if now \<ge> deadline then dfail DeadlineExceeded
             else try_servers fuel hk cfg qname deadline rest (failures @ [(server, e)]))) in
       case r of
         Inr a \<Rightarrow>
           (case canonicalize_answer a (dc_allow_private cfg) of
              Inr a' \<Rightarrow> dbind instant_now (\<lambda>now. if now < deadline then dret a' else dfail DeadlineExceeded)
            | Inl e \<Rightarrow> next e)
       | Inl e \<Rightarrow> if e = DeadlineExceeded then dfail DeadlineExceeded else next e))"

definition resolve_a :: "nat \<Rightarrow> 'n Hickory \<Rightarrow> DnsConfig \<Rightarrow> string \<Rightarrow> DnsAnswer dns" where
  "resolve_a fuel hk cfg name =
     (if dc_servers cfg = [] then dfail NoServers
      else dbind (of_sum (parse_name hk name)) (\<lambda>qname.
        dbind instant_now (\<lambda>now.
        case checked_add now (dc_overall_timeout cfg) of
          None \<Rightarrow> dfail DeadlineExceeded
        | Some deadline \<Rightarrow> try_servers fuel hk cfg qname deadline (dc_servers cfg) [])))"



section \<open>The call returns\<close>

text \<open>\<open>returns c m\<close>: on a network whose clock is \<open>c\<close>, \<open>m\<close> gives a result, and the clock is only
  read forward.\<close>

definition returns :: "(nat \<Rightarrow> nat) \<Rightarrow> 'a dns \<Rightarrow> bool" where
  "returns c m \<longleftrightarrow> (\<forall>n. dn_clock n = c \<longrightarrow> (\<exists>r n'. m n = Some (r, n') \<and> dn_clock n' = c \<and> dn_tick n \<le> dn_tick n'))"

lemma returns_simple [simp]:
  "returns c (dret x)" "returns c (dfail e)" "returns c (of_sum r)" "returns c instant_now" "returns c (syscall conv)"
  "returns c udp_recv" "returns c tcp_write" "returns c tcp_read" "returns c random_id"
  by (auto simp: returns_def dret_def dfail_def of_sum_def instant_now_def syscall_def udp_recv_def tcp_write_def
      tcp_read_def random_id_def split: option.splits prod.splits)

lemma returns_dbind [intro]:
  assumes "returns c m" "\<And>x. returns c (f x)"
  shows "returns c (dbind m f)"
  unfolding returns_def
proof (intro allI impI)
  fix n :: DnsNet
  assume "dn_clock n = c"
  then obtain r n1 where m: "m n = Some (r, n1)" "dn_clock n1 = c" "dn_tick n \<le> dn_tick n1"
    using assms(1) by (auto simp: returns_def)
  show "\<exists>r n'. dbind m f n = Some (r, n') \<and> dn_clock n' = c \<and> dn_tick n \<le> dn_tick n'"
  proof (cases r)
    case (Inr x)
    then show ?thesis
      using m assms(2)[of x] unfolding returns_def dbind_def by (fastforce intro: le_trans)
  qed (use m in \<open>simp add: dbind_def\<close>)
qed

lemma returns_dtry [intro]:
  assumes "returns c m" "\<And>r. returns c (f r)"
  shows "returns c (dtry m f)"
  unfolding returns_def
proof (intro allI impI)
  fix n :: DnsNet
  assume "dn_clock n = c"
  then obtain r n1 where m: "m n = Some (r, n1)" "dn_clock n1 = c" "dn_tick n \<le> dn_tick n1"
    using assms(1) by (auto simp: returns_def)
  then show "\<exists>r n'. dtry m f n = Some (r, n') \<and> dn_clock n' = c \<and> dn_tick n \<le> dn_tick n'"
    using assms(2)[of r] unfolding returns_def dtry_def by (fastforce intro: le_trans)
qed

lemma returns_if [intro]: "returns c a \<Longrightarrow> returns c b \<Longrightarrow> returns c (if p then a else b)"
  by simp

lemma returns_bind_device [simp]: "returns c (bind_device device conv)"
  by (auto simp: bind_device_def split: option.split)

lemma returns_deadlines [simp]: "returns c (remaining d overall)" "returns c (transport_deadline overall t)"
  by (auto simp: remaining_def transport_deadline_def)

text \<open>The same for a computation started at the reading \<open>t\<close> or later.\<close>

definition returns_at :: "(nat \<Rightarrow> nat) \<Rightarrow> nat \<Rightarrow> 'a dns \<Rightarrow> bool" where
  "returns_at c t m \<longleftrightarrow> (\<forall>n. dn_clock n = c \<and> t \<le> dn_tick n \<longrightarrow>
     (\<exists>r n'. m n = Some (r, n') \<and> dn_clock n' = c \<and> dn_tick n \<le> dn_tick n'))"

lemma returns_at_0: "returns c m \<longleftrightarrow> returns_at c 0 m"
  by (simp add: returns_def returns_at_def)

lemma returns_at_weaken: "returns c m \<Longrightarrow> returns_at c t m"
  by (auto simp: returns_def returns_at_def)

lemma returns_at_dbind:
  assumes "returns c m" "\<And>x. returns_at c t (f x)"
  shows "returns_at c t (dbind m f)"
  unfolding returns_at_def
proof (intro allI impI)
  fix n :: DnsNet
  assume n: "dn_clock n = c \<and> t \<le> dn_tick n"
  then obtain r n1 where m: "m n = Some (r, n1)" "dn_clock n1 = c" "dn_tick n \<le> dn_tick n1"
    using assms(1) by (auto simp: returns_def)
  show "\<exists>r n'. dbind m f n = Some (r, n') \<and> dn_clock n' = c \<and> dn_tick n \<le> dn_tick n'"
  proof (cases r)
    case (Inr x)
    have "t \<le> dn_tick n1"
      using n m(3) by simp
    then obtain r2 n2 where "f x n1 = Some (r2, n2)" "dn_clock n2 = c" "dn_tick n1 \<le> dn_tick n2"
      using assms(2)[of x] m(2) unfolding returns_at_def by blast
    then show ?thesis
      using m Inr by (auto simp: dbind_def)
  qed (use m in \<open>simp add: dbind_def\<close>)
qed

text \<open>Reading the clock moves to the next reading, and after the reading \<open>N\<close> the deadline has passed.\<close>

lemma returns_at_clock:
  assumes "\<forall>k \<ge> N. overall \<le> c k" "deadline \<le> overall"
    and "\<And>now. deadline \<le> now \<Longrightarrow> returns c (f now)"
    and "\<And>now. \<not> deadline \<le> now \<Longrightarrow> t < N \<Longrightarrow> returns_at c (Suc t) (f now)"
  shows "returns_at c t (dbind instant_now f)"
  unfolding returns_at_def
proof (intro allI impI)
  fix n :: DnsNet
  assume n: "dn_clock n = c \<and> t \<le> dn_tick n"
  let ?now = "c (dn_tick n)" and ?n1 = "n\<lparr> dn_tick := Suc (dn_tick n) \<rparr>"
  have "\<exists>r n'. f ?now ?n1 = Some (r, n') \<and> dn_clock n' = c \<and> dn_tick ?n1 \<le> dn_tick n'"
  proof (cases "deadline \<le> ?now")
    case True
    then show ?thesis
      using spec[OF assms(3)[unfolded returns_def], of ?now ?n1] n by simp
  next
    case False
    then have "dn_tick n < N"
      using assms(1,2) by (meson le_trans not_less)
    then show ?thesis
      using spec[OF assms(4)[OF False, unfolded returns_at_def], of ?n1] n by simp
  qed
  then show "\<exists>r n'. dbind instant_now f n = Some (r, n') \<and> dn_clock n' = c \<and> dn_tick n \<le> dn_tick n'"
    using n by (auto simp: dbind_def instant_now_def intro: Suc_leD)
qed

declare udp_wait.simps [simp del] write_all_until.simps [simp del] read_exact_until.simps [simp del]

lemma returns_udp_wait:
  assumes "\<forall>k \<ge> N. overall \<le> c k" "deadline \<le> overall" "N \<le> t + fuel"
  shows "returns_at c t (udp_wait (Suc fuel) hk i qname deadline overall)"
  using assms(3)
proof (induction fuel arbitrary: t)
  case 0
  then show ?case
    unfolding udp_wait.simps(2) by (intro returns_at_clock[OF assms(1,2)]) simp_all
next
  case (Suc fuel)
  have IH: "returns_at c (Suc t) (udp_wait (Suc fuel) hk i qname deadline overall)"
    using Suc by simp
  show ?case
    unfolding udp_wait.simps(2)[of "Suc fuel"]
  proof (intro returns_at_clock[OF assms(1,2)], goal_cases)
    case (1 now)
    then show ?case by simp
  next
    case (2 now)
    then show ?case
      by (simp only: if_False diff_is_0_eq)
        (intro returns_at_dbind returns_simple; auto split: sum.split option.split intro: IH returns_at_weaken)
  qed
qed

text \<open>The loops that read the clock through \<open>remaining\<close>.\<close>

lemma remaining_bind:
  "dbind (remaining deadline overall) f =
     dbind instant_now (\<lambda>now. if deadline \<le> now then dfail (timeout_error deadline overall) else f (deadline - now))"
  by (rule ext) (simp add: remaining_def dbind_def instant_now_def dfail_def dret_def)

lemma returns_write_all:
  assumes "\<forall>k \<ge> N. overall \<le> c k" "deadline \<le> overall" "N \<le> t + fuel"
  shows "returns_at c t (write_all_until (Suc fuel) data deadline overall)"
  using assms(3)
proof (induction fuel arbitrary: t data)
  case 0
  then show ?case
    unfolding write_all_until.simps(2) remaining_bind
    by (cases "data = []") (simp add: returns_at_weaken, simp only: if_False, intro returns_at_clock[OF assms(1,2)], simp_all)
next
  case (Suc fuel)
  have IH: "returns_at c (Suc t) (write_all_until (Suc fuel) data deadline overall)" for data
    using Suc by simp
  show ?case
  proof (cases "data = []")
    case False
    show ?thesis
      unfolding write_all_until.simps(2)[of "Suc fuel"] remaining_bind if_not_P[OF False]
    proof (intro returns_at_clock[OF assms(1,2)], goal_cases)
      case (1 now)
      then show ?case by simp
    next
      case (2 now)
      then show ?case
        by (simp only: if_False)
          (intro returns_at_dbind returns_simple; auto split: sum.split nat.split intro: IH returns_at_weaken)
    qed
  qed (simp add: write_all_until.simps(2) returns_at_weaken)
qed

lemma returns_read_exact:
  assumes "\<forall>k \<ge> N. overall \<le> c k" "deadline \<le> overall" "N \<le> t + fuel"
  shows "returns_at c t (read_exact_until (Suc fuel) want got deadline overall)"
  using assms(3)
proof (induction fuel arbitrary: t got)
  case 0
  then show ?case
    unfolding read_exact_until.simps(2) remaining_bind
    by (cases "want \<le> length got") (simp add: returns_at_weaken, simp only: if_False, intro returns_at_clock[OF assms(1,2)], simp_all)
next
  case (Suc fuel)
  have IH: "returns_at c (Suc t) (read_exact_until (Suc fuel) want got deadline overall)" for got
    using Suc by simp
  show ?case
  proof (cases "want \<le> length got")
    case False
    show ?thesis
      unfolding read_exact_until.simps(2)[of "Suc fuel"] remaining_bind if_not_P[OF False]
    proof (intro returns_at_clock[OF assms(1,2)], goal_cases)
      case (1 now)
      then show ?case by simp
    next
      case (2 now)
      then show ?case
        by (simp only: if_False)
          (intro returns_at_dbind returns_simple; auto split: sum.split intro: IH returns_at_weaken)
    qed
  qed (simp add: read_exact_until.simps(2) returns_at_weaken)
qed

text \<open>Once the shared deadline is at most every reading from \<open>N\<close> on, \<open>N + 1\<close> iterations of each
  loop are enough. The transport deadline never exceeds the shared one.\<close>

lemma transport_deadline_bind:
  assumes "\<And>d. d \<le> overall \<Longrightarrow> returns c (f d)"
  shows "returns c (dbind (transport_deadline overall timeout) f)"
proof -
  have "dbind (transport_deadline overall timeout) f = dbind instant_now (\<lambda>now.
      if now \<ge> overall then dfail DeadlineExceeded
      else f (case checked_add now timeout of None \<Rightarrow> overall | Some d \<Rightarrow> min d overall))"
    by (rule ext) (simp add: transport_deadline_def dbind_def instant_now_def dfail_def dret_def)
  then show ?thesis
    by (auto intro!: returns_dbind assms split: option.split)
qed

lemma returns_exchanges:
  assumes "\<forall>k \<ge> N. overall \<le> c k"
  shows "returns c (udp_exchange (Suc N) hk cfg wire i qname overall)"
    and "returns c (tcp_exchange (Suc N) hk cfg wire i qname overall)"
proof -
  have l: "returns c (udp_wait (Suc N) hk i qname d overall)" "returns c (write_all_until (Suc N) data d overall)"
    "returns c (read_exact_until (Suc N) want got d overall)" if "d \<le> overall" for d data want got
    using returns_udp_wait[OF assms that, of 0 N] returns_write_all[OF assms that, of 0 N]
      returns_read_exact[OF assms that, of 0 N] by (simp_all add: returns_at_0)
  have conn: "returns c (tcp_connect device conv)" for device conv
    unfolding tcp_connect_def by (intro returns_dbind) simp_all
  show "returns c (udp_exchange (Suc N) hk cfg wire i qname overall)"
    unfolding udp_exchange_def by (intro transport_deadline_bind returns_dbind l) simp_all
  show "returns c (tcp_exchange (Suc N) hk cfg wire i qname overall)"
    unfolding tcp_exchange_def Let_def
    by (intro transport_deadline_bind returns_dbind returns_if l conn) (auto split: option.split)
qed

lemma returns_query_server:
  "\<forall>k \<ge> N. overall \<le> c k \<Longrightarrow> returns c (query_server (Suc N) hk cfg server qname overall)"
  unfolding query_server_def
  by (intro returns_dbind returns_simple) (auto split: option.split intro!: returns_dbind returns_exchanges)

lemma returns_try_servers:
  assumes "\<forall>k \<ge> N. overall \<le> c k"
  shows "returns c (try_servers (Suc N) hk cfg qname overall servers failures)"
proof (induction servers arbitrary: failures)
  case (Cons server rest)
  then show ?case
    unfolding try_servers.simps Let_def
    by (intro returns_dbind returns_dtry returns_if returns_query_server[OF assms] returns_simple)
      (auto split: sum.split intro!: returns_dbind)
qed simp

text \<open>C8: the resolver always returns: whatever the servers and the network do, if every clock
  reading from the \<open>N\<close>-th on is at or after the shared deadline, then \<open>N + 1\<close> iterations of each
  waiting loop are enough for the whole call, over all servers and both transports, to give an
  answer or an error.\<close>

theorem resolve_a_returns:
  assumes "\<forall>k \<ge> N. dn_clock net (dn_tick net) + dc_overall_timeout cfg \<le> dn_clock net k"
  shows "\<exists>r net'. resolve_a (Suc N) hk cfg name net = Some (r, net')"
proof (cases "dc_servers cfg = [] \<or> (\<exists>e. parse_name hk name = Inl e) \<or>
    checked_add (dn_clock net (dn_tick net)) (dc_overall_timeout cfg) = None")
  case True
  then show ?thesis
    by (auto simp: resolve_a_def dbind_def dfail_def of_sum_def instant_now_def split: sum.split)
next
  case False
  then obtain q where q: "parse_name hk name = Inr q" "dc_servers cfg \<noteq> []"
      "checked_add (dn_clock net (dn_tick net)) (dc_overall_timeout cfg) =
        Some (dn_clock net (dn_tick net) + dc_overall_timeout cfg)"
    by (cases "parse_name hk name") (auto simp: checked_add_def split: if_splits)
  show ?thesis
    using returns_try_servers[OF assms, of hk cfg q "dc_servers cfg" "[]"]
    unfolding returns_def
    by (elim allE[of _ "net\<lparr> dn_tick := Suc (dn_tick net) \<rparr>"])
      (auto simp: resolve_a_def q dbind_def of_sum_def instant_now_def)
qed

definition demo_net :: "(nat \<Rightarrow> nat) \<Rightarrow> DnsNet" where
  "demo_net c = \<lparr> dn_env = demo_env, dn_clock = c, dn_tick = 0, dn_sys = (\<lambda>_. None), dn_spos = 0,
     dn_udp = (\<lambda>n. Inr [of_nat n]), dn_upos = 0, dn_write = (\<lambda>_. Inl Interrupted), dn_wpos = 0,
     dn_read = (\<lambda>_. Inl Interrupted), dn_rpos = 0 \<rparr>"

definition demo_cfg :: DnsConfig where
  "demo_cfg = \<lparr> dc_servers = [\<lparr> sa_ip = V4 0x09090909, sa_port = 53 \<rparr>], dc_device = None, dc_timeout = 90,
     dc_overall_timeout = 50, dc_allow_private = False \<rparr>"

text \<open>Names are strings; the second datagram is a reply to the query, the others do not decode.\<close>

definition demo_hickory :: "string Hickory" where
  "demo_hickory = \<lparr> hk_from_ascii = Some, hk_set_fqdn = id, hk_to_ascii = id, hk_name_eq = (=),
     hk_to_vec = (\<lambda>_. Some [0]),
     hk_from_vec = (\<lambda>raw. if raw = [1] then Some \<lparr> dm_id = 0, dm_type = MtResponse, dm_opcode = OpQuery,
       dm_rcode = NoError, dm_truncated = False, dm_recursion_desired = True,
       dm_queries = [\<lparr> dq_name = ''a.b'', dq_type = RtA, dq_class = ClassIN \<rparr>],
       dm_answers = [\<lparr> dr_name = ''a.b'', dr_ttl = 5, dr_data = RCNAME ''c.d'' \<rparr>,
         \<lparr> dr_name = ''c.d'', dr_ttl = 7, dr_data = RA 0x08080808 \<rparr>] \<rparr> else None) \<rparr>"

text \<open>A clock that advances by one at each reading, and a server whose datagrams never decode: after
  the timeout of 50 the call has returned.\<close>

theorem resolve_a_returns_witness:
  "\<exists>r net'. resolve_a 51 (demo_hickory\<lparr> hk_from_vec := (\<lambda>_. None) \<rparr>) demo_cfg ''a.b'' (demo_net (\<lambda>k. k)) = Some (r, net')"
  using resolve_a_returns[of 50 "demo_net (\<lambda>k. k)" demo_cfg]
  by (simp add: demo_net_def demo_cfg_def)


section \<open>What an answer contains\<close>

text \<open>The names reached from \<open>q\<close> by \<open>k\<close> alias records of the answer.\<close>

inductive alias_chain :: "'n Hickory \<Rightarrow> 'n DnsRecord list \<Rightarrow> 'n \<Rightarrow> nat \<Rightarrow> 'n \<Rightarrow> bool" for hk answers q where
  here: "alias_chain hk answers q 0 q"
| hop: "alias_chain hk answers q k name \<Longrightarrow> r \<in> set (owned hk answers name) \<Longrightarrow> dr_data r = RCNAME target \<Longrightarrow>
    alias_chain hk answers q (Suc k) target"

lemma rdata_a_set: "set (map fst (rdata_a rs)) = {a. \<exists>r \<in> set rs. dr_data r = RA a}"
  by (induction rs) (auto split: RData.splits)

lemma rdata_cname_set: "(c, t) \<in> set (rdata_cname rs) \<Longrightarrow> \<exists>r \<in> set rs. dr_data r = RCNAME c"
  by (induction rs) (auto split: RData.splits)

lemma clamp_ttl_bounds: "TTL_MIN_SECS \<le> clamp_ttl t \<and> clamp_ttl t \<le> TTL_MAX_SECS"
  by (auto simp: clamp_ttl_def TTL_MIN_SECS_def TTL_MAX_SECS_def)

definition answer_of :: "'n Hickory \<Rightarrow> 'n DnsMessage \<Rightarrow> 'n \<Rightarrow> SocketAddr \<Rightarrow> bool \<Rightarrow> DnsAnswer \<Rightarrow> bool" where
  "answer_of hk m qname server via a \<longleftrightarrow> an_server a = server \<and> an_via_tcp a = via \<and>
     TTL_MIN_SECS \<le> an_ttl a \<and> an_ttl a \<le> TTL_MAX_SECS \<and>
     (\<exists>name k. alias_chain hk (dm_answers m) qname k name \<and> k \<le> MAX_CNAME_HOPS \<and>
       set (an_addrs a) = {ip. \<exists>r \<in> set (owned hk (dm_answers m) name). dr_data r = RA ip})"

lemma chain_step_Return_Inr:
  assumes "chain_step hk answers server via name cnames t = Return (Inr a)"
  shows "an_server a = server" "an_via_tcp a = via" "TTL_MIN_SECS \<le> an_ttl a" "an_ttl a \<le> TTL_MAX_SECS"
    "set (an_addrs a) = {ip. \<exists>r \<in> set (owned hk answers name). dr_data r = RA ip}"
  using assms clamp_ttl_bounds rdata_a_set[of "owned hk answers name"]
  by (auto simp: chain_step_def Let_def split: if_splits list.splits)

lemma chain_step_hop:
  assumes "chain_step hk answers server via name cnames t = Follow target t'"
  shows "\<exists>r \<in> set (owned hk answers name). dr_data r = RCNAME target"
  using assms rdata_cname_set[of target _ "owned hk answers name"]
  by (fastforce simp: chain_step_def Let_def split: if_splits list.splits)

lemma interpret_chain_step:
  "chain_step hk answers server via name cnames t = Return r \<Longrightarrow>
    interpret_chain hk answers server via name cnames t = r"
  "chain_step hk answers server via name cnames t = Follow target t' \<Longrightarrow>
    interpret_chain hk answers server via name cnames t =
      interpret_chain hk answers server via target (cnames @ [hk_to_ascii hk target]) t'"
  by (subst interpret_chain.simps, simp)+

lemma interpret_chain_sound:
  assumes "interpret_chain hk (dm_answers m) server via name cnames t = Inr a"
    and "alias_chain hk (dm_answers m) qname (length cnames) name" "length cnames \<le> MAX_CNAME_HOPS"
  shows "answer_of hk m qname server via a"
  using assms
proof (induction hk "dm_answers m" server via name cnames t rule: interpret_chain.induct)
  case (1 hk server via name cnames t)
  show ?case
  proof (cases "chain_step hk (dm_answers m) server via name cnames t")
    case (Return r)
    then have "r = Inr a"
      using 1(2) by (simp add: interpret_chain_step)
    then show ?thesis
      using chain_step_Return_Inr[of hk "dm_answers m" server via name cnames t a] Return 1(3,4)
      by (auto simp: answer_of_def)
  next
    case (Follow target t')
    have "interpret_chain hk (dm_answers m) server via target (cnames @ [hk_to_ascii hk target]) t' = Inr a"
      using 1(2) Follow by (simp add: interpret_chain_step)
    then show ?thesis
      using 1(1)[OF Follow] chain_step_hop[OF Follow] chain_step_Follow[OF Follow] hop[OF 1(3)] by auto
  qed
qed

lemma interpret_sound: "interpret_msg hk m qname server via = Inr a \<Longrightarrow> answer_of hk m qname server via a"
  using interpret_chain_sound[of hk m server via qname "[]" U32_MAX a qname] here[of hk "dm_answers m" qname]
  by (auto simp: interpret_msg_def split: if_splits ResponseCode.splits)

lemma interpret_answered: "interpret_msg hk m qname server via = Inr a \<Longrightarrow> dm_opcode m = OpQuery \<and> dm_rcode m = NoError"
  by (auto simp: interpret_msg_def split: if_splits ResponseCode.splits)

text \<open>Partial correctness of a computation.\<close>

definition gives :: "'a dns \<Rightarrow> ('a \<Rightarrow> bool) \<Rightarrow> bool" where
  "gives m Q \<longleftrightarrow> (\<forall>n x n'. m n = Some (Inr x, n') \<longrightarrow> Q x)"

lemma gives_dbind: "(\<And>x. P x \<Longrightarrow> gives (f x) Q) \<Longrightarrow> gives m P \<Longrightarrow> gives (dbind m f) Q"
  unfolding gives_def dbind_def by (auto split: option.splits sum.splits)

lemma gives_any: "gives m (\<lambda>_. True)"
  by (simp add: gives_def)

lemma gives_simple [simp]: "gives (dret x) Q = Q x" "gives (dfail e) Q" "gives (of_sum r) Q = (\<forall>x. r = Inr x \<longrightarrow> Q x)"
  by (auto simp: gives_def dret_def dfail_def of_sum_def)

lemma dbind_of_sum: "dbind (of_sum (Inr x)) f = f x"
  by (rule ext) (simp add: dbind_def of_sum_def)

lemmas gives_skip = gives_dbind[where P = "\<lambda>_. True", OF _ gives_any]

definition our_reply :: "'n Hickory \<Rightarrow> u16 \<Rightarrow> 'n \<Rightarrow> 'n DnsMessage \<Rightarrow> bool" where
  "our_reply hk i qname m \<longleftrightarrow> is_our_reply hk m i qname \<and> (\<exists>raw. hk_from_vec hk raw = Some m)"

lemma our_replyI: "hk_from_vec hk raw = Some m \<Longrightarrow> is_our_reply hk m i qname \<Longrightarrow> our_reply hk i qname m"
  by (auto simp: our_reply_def)

lemma udp_wait_gives: "gives (udp_wait fuel hk i qname deadline overall) (our_reply hk i qname)"
proof (induction fuel)
  case (Suc fuel)
  then show ?case
    unfolding udp_wait.simps(2)
    by (auto intro!: gives_skip split: sum.split option.split) (rule our_replyI; assumption)
qed (simp add: gives_def udp_wait.simps)

lemma exchange_gives:
  "gives (udp_exchange fuel hk cfg wire i qname overall) (our_reply hk i qname)"
  "gives (tcp_exchange fuel hk cfg wire i qname overall) (our_reply hk i qname)"
  unfolding udp_exchange_def tcp_exchange_def Let_def
  by (auto intro!: gives_skip udp_wait_gives split: option.split) (rule our_replyI; assumption)

text \<open>An answer justified by a reply to the query.\<close>

definition answered :: "'n Hickory \<Rightarrow> 'n \<Rightarrow> SocketAddr \<Rightarrow> DnsAnswer \<Rightarrow> bool" where
  "answered hk qname server a \<longleftrightarrow> (\<exists>m i. our_reply hk i qname m \<and> dm_opcode m = OpQuery \<and> dm_rcode m = NoError \<and>
     answer_of hk m qname server (an_via_tcp a) a)"

lemma interpret_answer:
  assumes "our_reply hk i qname m" "interpret_msg hk m qname server via = Inr a"
  shows "answered hk qname server a"
proof -
  have "an_via_tcp a = via"
    using interpret_sound[OF assms(2)] by (simp add: answer_of_def)
  then show ?thesis
    unfolding answered_def using assms(1) interpret_sound[OF assms(2)] interpret_answered[OF assms(2)]
    by (intro exI[of _ m] exI[of _ i]) simp
qed

lemma query_server_gives: "gives (query_server fuel hk cfg server qname deadline) (answered hk qname server)"
  unfolding query_server_def
proof (rule gives_skip)
  fix i
  have t: "gives (dbind (tcp_exchange fuel hk cfg wire i qname deadline) (\<lambda>r. of_sum (interpret_msg hk r qname server True)))
      (answered hk qname server)" for wire
    by (rule gives_dbind[OF _ exchange_gives(2)]) (auto intro: interpret_answer)
  have "gives (dbind (udp_exchange fuel hk cfg wire i qname deadline) (\<lambda>reply. if dm_truncated reply then
      dbind (tcp_exchange fuel hk cfg wire i qname deadline) (\<lambda>reply2. of_sum (interpret_msg hk reply2 qname server True))
      else of_sum (interpret_msg hk reply qname server False))) (answered hk qname server)" for wire
    by (rule gives_dbind[OF _ exchange_gives(1)]) (auto intro: interpret_answer simp: t)
  then show "gives (case hk_to_vec hk (build_query i qname) of None \<Rightarrow> dfail (Malformed EncodeFailed)
     | Some wire \<Rightarrow> dbind (udp_exchange fuel hk cfg wire i qname deadline) (\<lambda>reply. if dm_truncated reply then
      dbind (tcp_exchange fuel hk cfg wire i qname deadline) (\<lambda>reply2. of_sum (interpret_msg hk reply2 qname server True))
      else of_sum (interpret_msg hk reply qname server False))) (answered hk qname server)"
    by (simp split: option.split)
qed

lemma gives_dtry: "(\<And>e. gives (f (Inl e)) Q) \<Longrightarrow> (\<And>x. P x \<Longrightarrow> gives (f (Inr x)) Q) \<Longrightarrow> gives m P \<Longrightarrow> gives (dtry m f) Q"
  unfolding gives_def dtry_def by (auto split: option.splits) (metis sum.exhaust)

text \<open>Sorting and removing equal neighbours enumerates the set in increasing order.\<close>

lemma set_dedup [simp]: "set (dedup xs) = set xs"
  by (induction xs rule: dedup.induct) auto

lemma dedup_Nil [simp]: "dedup xs = [] \<longleftrightarrow> xs = []"
  by (induction xs rule: dedup.induct) auto

lemma hd_dedup [simp]: "hd (dedup xs) = hd xs"
  by (induction xs rule: dedup.induct) auto

lemma dedup_sorted:
  fixes xs :: "'a::linorder list"
  assumes "sorted xs"
  shows "sorted_wrt (<) (dedup xs)"
  using assms
proof (induction xs rule: dedup.induct)
  case (3 x y xs)
  then show ?case
    by (auto simp: le_less)
qed simp_all

lemma dedup_sort: "dedup (sort xs) = sorted_list_of_set (set xs)"
proof -
  have "sorted (dedup (sort xs)) \<and> distinct (dedup (sort xs))"
    using dedup_sorted[of "sort xs"] strict_sorted_iff[of "dedup (sort xs)"] by simp
  then show ?thesis
    using sorted_list_of_set.idem_if_sorted_distinct[of "dedup (sort xs)"] by simp
qed

definition usable_answer :: "bool \<Rightarrow> DnsAnswer \<Rightarrow> bool" where
  "usable_answer ap a \<longleftrightarrow> an_addrs a \<noteq> [] \<and> length (an_addrs a) \<le> 8 \<and> sorted_wrt (<) (an_addrs a) \<and>
     (\<forall>ip \<in> set (an_addrs a). check_endpoint_ip ip ap = None)"

lemma canonicalize_usable:
  assumes "canonicalize_answer a ap = Inr a'"
  shows "usable_answer ap a'" "set (an_addrs a') \<subseteq> set (an_addrs a)" "a' = a\<lparr> an_addrs := an_addrs a' \<rparr>"
proof -
  let ?as = "dedup (sort (filter (\<lambda>ip. check_endpoint_ip ip ap = None) (an_addrs a)))"
  have a': "?as \<noteq> []" "a' = a\<lparr> an_addrs := take 8 ?as \<rparr>"
    using assms by (auto simp: canonicalize_answer_def Let_def state_consts split: if_splits)
  have "sorted_wrt (<) (take 8 ?as)"
    using dedup_sorted[of "sort (filter (\<lambda>ip. check_endpoint_ip ip ap = None) (an_addrs a))"]
    by (simp add: sorted_wrt_take)
  moreover have "set (take 8 ?as) \<subseteq> {ip \<in> set (an_addrs a). check_endpoint_ip ip ap = None}"
    using set_take_subset[of 8 ?as] by auto
  ultimately show "usable_answer ap a'" "set (an_addrs a') \<subseteq> set (an_addrs a)" "a' = a\<lparr> an_addrs := an_addrs a' \<rparr>"
    using a' by (auto simp: usable_answer_def)
qed

definition resolved :: "'n Hickory \<Rightarrow> DnsConfig \<Rightarrow> 'n \<Rightarrow> DnsAnswer \<Rightarrow> bool" where
  "resolved hk cfg qname a \<longleftrightarrow> usable_answer (dc_allow_private cfg) a \<and> an_server a \<in> set (dc_servers cfg) \<and>
     (\<exists>as. answered hk qname (an_server a) (a\<lparr> an_addrs := as \<rparr>) \<and> set (an_addrs a) \<subseteq> set as)"

lemma canonicalize_resolved:
  assumes "answered hk qname server a0" "server \<in> set (dc_servers cfg)" "canonicalize_answer a0 (dc_allow_private cfg) = Inr a"
  shows "resolved hk cfg qname a"
proof -
  note c = canonicalize_usable[OF assms(3)]
  have "a\<lparr> an_addrs := an_addrs a0 \<rparr> = a0"
    by (subst c(3)) simp
  moreover have "an_server a0 = server"
    using assms(1) by (auto simp: answered_def answer_of_def)
  moreover have "an_server a = an_server a0"
    by (subst c(3)) simp
  ultimately show ?thesis
    using assms(1,2) c(1,2) unfolding resolved_def by metis
qed

lemma try_servers_gives:
  "set servers \<subseteq> set (dc_servers cfg) \<Longrightarrow>
    gives (try_servers fuel hk cfg qname deadline servers failures) (resolved hk cfg qname)"
proof (induction servers arbitrary: failures)
  case (Cons server rest)
  have IH: "gives (try_servers fuel hk cfg qname deadline rest f) (resolved hk cfg qname)" for f
    using Cons by simp
  have n: "gives (dbind instant_now (\<lambda>now. if deadline \<le> now then dfail DeadlineExceeded
      else try_servers fuel hk cfg qname deadline rest (failures @ [(server, e)]))) (resolved hk cfg qname)" for e
    by (rule gives_skip) (simp add: IH)
  have ok: "gives (dbind instant_now (\<lambda>now. if now < deadline then dret a else dfail DeadlineExceeded)) (resolved hk cfg qname)"
    if "resolved hk cfg qname a" for a
    by (rule gives_skip) (simp add: that)
  show ?case
    unfolding try_servers.simps Let_def
  proof (rule gives_skip)
    fix now
    show "gives (if deadline \<le> now then dfail DeadlineExceeded else dtry (query_server fuel hk cfg server qname deadline)
       (\<lambda>r. case r of
          Inl e \<Rightarrow> if e = DeadlineExceeded then dfail DeadlineExceeded
            else dbind instant_now (\<lambda>now. if deadline \<le> now then dfail DeadlineExceeded
                 else try_servers fuel hk cfg qname deadline rest (failures @ [(server, e)]))
        | Inr a \<Rightarrow> (case canonicalize_answer a (dc_allow_private cfg) of
             Inl e \<Rightarrow> dbind instant_now (\<lambda>now. if deadline \<le> now then dfail DeadlineExceeded
                 else try_servers fuel hk cfg qname deadline rest (failures @ [(server, e)]))
           | Inr a' \<Rightarrow> dbind instant_now (\<lambda>now. if now < deadline then dret a' else dfail DeadlineExceeded))))
      (resolved hk cfg qname)"
      using Cons.prems canonicalize_resolved
      by (auto intro!: gives_dtry[OF _ _ query_server_gives] n ok split: sum.split)
  qed
qed simp


lemma demo_answer:
  "interpret_msg demo_hickory (the (hk_from_vec demo_hickory [1])) ''a.b'' \<lparr> sa_ip = V4 0x09090909, sa_port = 53 \<rparr> False =
     Inr \<lparr> an_addrs = [0x08080808], an_ttl = 10, an_raw_ttl = 5, an_server = \<lparr> sa_ip = V4 0x09090909, sa_port = 53 \<rparr>,
       an_cnames = [''c.d''], an_via_tcp = False \<rparr>"
  by code_simp

lemma demo_canonical:
  "canonicalize_answer \<lparr> an_addrs = [0x08080808], an_ttl = 10, an_raw_ttl = 5, an_server = \<lparr> sa_ip = V4 0x09090909, sa_port = 53 \<rparr>,
       an_cnames = [''c.d''], an_via_tcp = False \<rparr> False =
     Inr \<lparr> an_addrs = [0x08080808], an_ttl = 10, an_raw_ttl = 5, an_server = \<lparr> sa_ip = V4 0x09090909, sa_port = 53 \<rparr>,
       an_cnames = [''c.d''], an_via_tcp = False \<rparr>"
  by code_simp


end
