(* ===== verification/Endpoint.thy ===== *)
theory Endpoint
  imports Dns
begin

text \<open>
  The relay endpoint controller of \<open>src/src/endpoint.rs\<close>: the address in use, the candidates of the
  last DNS answer, the committed last known good address, a probationary replacement, and the
  durable budget of unattended probes (theory \<open>Fallback_State\<close>). The resolver, the clocks, the two
  files and the outcomes of locking and writing are the fields of \<open>EpWorld\<close>; every operation takes
  the controller and the world and gives both back.
\<close>


section \<open>World\<close>

text \<open>An atomic write succeeds, fails before the rename, or fails after it.\<close>

datatype write_result = WriteOk | WriteFailed | WriteUnsynced

record EpWorld =
  ew_env :: Env
  ew_wall :: "nat \<Rightarrow> nat"
  ew_wtick :: nat
  ew_resolve :: "nat \<Rightarrow> string \<Rightarrow> DnsError + DnsAnswer"
  ew_rpos :: nat
  ew_cache :: file_read
  ew_state :: file_read
  ew_lock :: "nat \<Rightarrow> bool"
  ew_lpos :: nat
  ew_write :: "nat \<Rightarrow> write_result"
  ew_wpos :: nat

definition unix_now_secs :: "EpWorld \<Rightarrow> nat \<times> EpWorld" where
  "unix_now_secs w = (ew_wall w (ew_wtick w), w\<lparr> ew_wtick := Suc (ew_wtick w) \<rparr>)"

definition write_cache :: "string \<Rightarrow> EpWorld \<Rightarrow> bool \<times> EpWorld" where
  "write_cache body w = (let w1 = w\<lparr> ew_wpos := Suc (ew_wpos w) \<rparr> in
     case ew_write w (ew_wpos w) of
       WriteOk \<Rightarrow> (True, w1\<lparr> ew_cache := Inr (Some body) \<rparr>)
     | WriteFailed \<Rightarrow> (False, w1)
     | WriteUnsynced \<Rightarrow> (False, w1\<lparr> ew_cache := Inr (Some body) \<rparr>))"

definition write_state :: "string \<Rightarrow> EpWorld \<Rightarrow> bool \<times> EpWorld" where
  "write_state body w = (let w1 = w\<lparr> ew_wpos := Suc (ew_wpos w) \<rparr> in
     case ew_write w (ew_wpos w) of
       WriteOk \<Rightarrow> (True, w1\<lparr> ew_state := Inr (Some body) \<rparr>)
     | WriteFailed \<Rightarrow> (False, w1)
     | WriteUnsynced \<Rightarrow> (False, w1\<lparr> ew_state := Inr (Some body) \<rparr>))"


section \<open>Options, backoff and state\<close>

record EndpointOptions =
  eo_allow_private :: bool
  eo_cache_file :: "string option"
  eo_bootstrap :: "u32 option"
  eo_backoff_min_ms :: nat
  eo_backoff_max_ms :: nat
  eo_last_good_fallback :: LastGoodFallbackPolicy

record Backoff =
  bo_failures :: nat
  bo_not_before_ms :: nat
  bo_min_ms :: nat
  bo_max_ms :: nat

definition Backoff_new :: "nat \<Rightarrow> nat \<Rightarrow> Backoff" where
  "Backoff_new min_ms max_ms = \<lparr> bo_failures = 0, bo_not_before_ms = 0, bo_min_ms = max min_ms 1,
     bo_max_ms = max max_ms (max min_ms 1) \<rparr>"

definition backoff_ready :: "Backoff \<Rightarrow> nat \<Rightarrow> bool" where
  "backoff_ready b now \<longleftrightarrow> now \<ge> bo_not_before_ms b"

definition clamp_nat :: "nat \<Rightarrow> nat \<Rightarrow> nat \<Rightarrow> nat" where
  "clamp_nat x lo hi = (if x < lo then lo else if hi < x then hi else x)"

definition backoff_base :: "Backoff \<Rightarrow> nat" where
  "backoff_base b = min (usat_mul 64 (bo_min_ms b) (2 ^ min (bo_failures b) 20)) (bo_max_ms b)"

definition backoff_on_failure :: "Backoff \<Rightarrow> nat \<Rightarrow> Env \<Rightarrow> nat \<times> Backoff \<times> Env" where
  "backoff_on_failure b now e =
     (let base = backoff_base b; span = base div 2 in
      case (if span = 0 then (0, e) else case fast_random_u32 e of (r, e') \<Rightarrow> (unat r mod (span + 1), e')) of
        (jitter, e') \<Rightarrow>
          let delay = clamp_nat (base - base div 4 + jitter) (min (bo_min_ms b) (bo_max_ms b))
                        (usat_add 64 (bo_max_ms b) (bo_max_ms b div 4)) in
          (delay, b\<lparr> bo_failures := usat_add 32 (bo_failures b) 1, bo_not_before_ms := usat_add 64 now delay \<rparr>, e'))"

definition backoff_on_success :: "Backoff \<Rightarrow> Backoff" where
  "backoff_on_success b = b\<lparr> bo_failures := 0, bo_not_before_ms := 0 \<rparr>"

definition backoff_on_pending_success :: "Backoff \<Rightarrow> nat \<Rightarrow> Backoff" where
  "backoff_on_pending_success b now = b\<lparr> bo_failures := 0, bo_not_before_ms := usat_add 64 now (bo_min_ms b) \<rparr>"

datatype CycleReason = Startup | AttemptFailed | SessionLost | Forced | ProbationExpired | OperatorRollback

datatype switch_why = RollBack | AttendedCutover | ProbationFailed | AttendedFailed | CommittedFailed
  | RollbackProbe | NextCandidate | ProbationLost | NotInDns

record Switch =
  sw_from :: SocketAddr
  sw_to :: SocketAddr
  sw_why :: switch_why

record Probation =
  pb_candidate :: u32
  pb_rollback :: u32
  pb_authenticated_at_ms :: nat
  pb_direct_return :: bool
  pb_rollback_at_ms :: "nat option"
  pb_rollback_authorized :: bool
  pb_first_data_ms :: "nat option"
  pb_last_data_ms :: "nat option"
  pb_data_packets :: nat

datatype PromotionResult = Promoted u32 | NotProbationary | WrongCandidate | NotActive | RollbackExpired
  | StaleEvidence nat | InsufficientEvidence nat nat | PersistenceFailed

record EndpointController =
  ec_spec :: EndpointSpec
  ec_opts :: EndpointOptions
  ec_current :: SocketAddr
  ec_current_authenticated :: bool
  ec_committed_good :: "u32 option"
  ec_cache_fresh_until_ms :: "nat option"
  ec_committed_runtime_activity_ms :: "nat option"
  ec_candidates :: "u32 list"
  ec_expires_at_ms :: "nat option"
  ec_backoff :: Backoff
  ec_force_refresh :: bool
  ec_reconnect_refresh_pending :: bool
  ec_queries :: nat
  ec_preferred_failures :: nat
  ec_preferred_round_deadline_ms :: "nat option"
  ec_preferred_attempts :: nat
  ec_attended_cutover :: bool
  ec_probation :: "Probation option"
  ec_fallback_state :: FallbackState
  ec_fallback_state_path :: bool
  ec_fallback_state_usable :: bool

definition MIN_PROMOTION_DATA_PACKETS :: nat where "MIN_PROMOTION_DATA_PACKETS = 3"

abbreviation ec_policy :: "EndpointController \<Rightarrow> LastGoodFallbackPolicy" where
  "ec_policy c \<equiv> eo_last_good_fallback (ec_opts c)"

abbreviation is_safe :: "EndpointController \<Rightarrow> u32 \<Rightarrow> bool" where
  "is_safe c ip \<equiv> check_endpoint_ip ip (eo_allow_private (ec_opts c)) = None"

definition cur_v4 :: "EndpointController \<Rightarrow> u32 option" where
  "cur_v4 c = (case sa_ip (ec_current c) of V4 a \<Rightarrow> Some a | V6 _ _ \<Rightarrow> None)"


section \<open>Freshness and candidates\<close>

definition retained_addresses :: "EndpointController \<Rightarrow> u32 list" where
  "retained_addresses c =
     (let out = (case cur_v4 c of Some a \<Rightarrow> [a] | None \<Rightarrow> []) in
      case ec_committed_good c of
        None \<Rightarrow> out
      | Some g \<Rightarrow> if g \<in> set out then out else out @ [g])"

definition cached_fresh_until :: "EndpointController \<Rightarrow> CacheEntry \<Rightarrow> nat \<Rightarrow> nat \<Rightarrow> nat option" where
  "cached_fresh_until c entry now wall_now =
     (case ce_saved entry of
        None \<Rightarrow> None
      | Some saved \<Rightarrow>
          if \<not> fp_enabled (ec_policy c) \<or> saved > usat_add 64 wall_now 300 then None
          else let age_ms = usat_mul 64 (wall_now - saved) 1000 in
            if age_ms < fp_max_age_ms (ec_policy c) then Some (usat_add 64 now (fp_max_age_ms (ec_policy c) - age_ms))
            else None)"

text \<open>The later of the deadlines that have not passed.\<close>

definition committed_health_deadline :: "EndpointController \<Rightarrow> nat \<Rightarrow> (u32 \<times> nat) option" where
  "committed_health_deadline c now =
     (if \<not> fp_enabled (ec_policy c) then None
      else case ec_committed_good c of
        None \<Rightarrow> None
      | Some committed \<Rightarrow>
          let runtime = (case ec_committed_runtime_activity_ms c of None \<Rightarrow> []
                | Some t \<Rightarrow> filter (\<lambda>d. now \<le> d) [usat_add 64 t (fp_rollback_window_ms (ec_policy c))]);
              cache = (case ec_cache_fresh_until_ms c of None \<Rightarrow> [] | Some d \<Rightarrow> filter (\<lambda>d. now \<le> d) [d]) in
          case runtime @ cache of [] \<Rightarrow> None | d # ds \<Rightarrow> Some (committed, fold max ds d))"

definition committed_fresh :: "EndpointController \<Rightarrow> nat \<Rightarrow> u32 \<Rightarrow> u32 option" where
  "committed_fresh c now cur =
     (case committed_health_deadline c now of
        None \<Rightarrow> None
      | Some (committed, _) \<Rightarrow> if committed \<noteq> cur then Some committed else None)"

definition start_preferred_round :: "nat \<Rightarrow> EndpointController \<Rightarrow> EndpointController" where
  "start_preferred_round now c =
     (if fp_enabled (ec_policy c) \<and> ec_preferred_round_deadline_ms c = None
      then c\<lparr> ec_preferred_round_deadline_ms := Some (usat_add 64 now (fp_preferred_round_timeout_ms (ec_policy c))),
              ec_preferred_attempts := 0 \<rparr>
      else c)"

definition round_expired :: "EndpointController \<Rightarrow> nat \<Rightarrow> bool" where
  "round_expired c now = (case ec_preferred_round_deadline_ms c of None \<Rightarrow> False | Some d \<Rightarrow> now \<ge> d)"

definition canonical_candidates :: "EndpointController \<Rightarrow> u32 list" where
  "canonical_candidates c = take MAX_ENDPOINT_CANDIDATES (dedup (sort (ec_candidates c)))"

definition next_dns_candidate :: "EndpointController \<Rightarrow> u32 \<Rightarrow> u32 option" where
  "next_dns_candidate c cur =
     (let set = canonical_candidates c in
      if set = [] then None
      else Some (set ! (case position (\<lambda>ip. ip = cur) set of None \<Rightarrow> 0 | Some i \<Rightarrow> (i + 1) mod length set)))"

definition order_candidates :: "EndpointController \<Rightarrow> EndpointController" where
  "order_candidates c =
     (let cur = cur_v4 c;
          rest = dedup (sort (filter (\<lambda>ip. Some ip \<noteq> cur \<and> Some ip \<noteq> ec_committed_good c) (ec_candidates c)));
          first = (case cur of Some a \<Rightarrow> if a \<in> set (ec_candidates c) then [a] else [] | None \<Rightarrow> []);
          second = (case ec_committed_good c of
              Some g \<Rightarrow> if g \<in> set (ec_candidates c) \<and> Some g \<noteq> cur then [g] else [] | None \<Rightarrow> []) in
      c\<lparr> ec_candidates := take MAX_ENDPOINT_CANDIDATES (first @ second @ rest) \<rparr>)"


section \<open>Durable effects\<close>

definition save_cache_with_policy :: "string \<Rightarrow> u16 \<Rightarrow> u32 \<Rightarrow> bool \<Rightarrow> EpWorld \<Rightarrow> bool \<times> EpWorld" where
  "save_cache_with_policy host port addr allow_private w =
     (case cache_body host port addr allow_private 0 of
        Inl _ \<Rightarrow> (False, w)
      | Inr _ \<Rightarrow>
          (case unix_now_secs w of (saved, w1) \<Rightarrow>
             (case cache_body host port addr allow_private saved of
                Inl _ \<Rightarrow> (False, w1)
              | Inr body \<Rightarrow> write_cache body w1)))"

definition persist_committed :: "EndpointController \<Rightarrow> u32 \<Rightarrow> EpWorld \<Rightarrow> EpWorld" where
  "persist_committed c cur w =
     (case (eo_cache_file (ec_opts c), spec_hostname (ec_spec c)) of
        (Some _, Some name) \<Rightarrow>
          snd (save_cache_with_policy name (spec_port (ec_spec c)) cur (eo_allow_private (ec_opts c)) w)
      | _ \<Rightarrow> w)"

text \<open>\<open>charge_fallback\<close>: under the lock the state is read again, charged and written.\<close>

definition charge_fallback :: "nat \<Rightarrow> u32 \<Rightarrow> EndpointController \<Rightarrow> EpWorld \<Rightarrow> bool \<times> EndpointController \<times> EpWorld" where
  "charge_fallback wall_now candidate c w =
     (let unusable = c\<lparr> ec_fallback_state_usable := False \<rparr> in
      if \<not> ec_fallback_state_usable c \<or> \<not> ec_fallback_state_path c then (False, c, w)
      else case spec_hostname (ec_spec c) of
        None \<Rightarrow> (False, c, w)
      | Some name \<Rightarrow>
          let w1 = w\<lparr> ew_lpos := Suc (ew_lpos w) \<rparr> in
          if \<not> ew_lock w (ew_lpos w) then (False, unusable, w1)
          else case load_fallback_state (ew_state w1) name (spec_port (ec_spec c)) (fp_global_capacity (ec_policy c))
                      (eo_allow_private (ec_opts c)) wall_now of
            Inl _ \<Rightarrow> (False, unusable, w1)
          | Inr loaded \<Rightarrow>
              let st = (case loaded of Some s \<Rightarrow> s | None \<Rightarrow> FallbackState_new (fp_global_capacity (ec_policy c)) wall_now) in
              (case precharge_fallback_state st (ec_policy c) wall_now candidate (canonical_candidates c) of
                 None \<Rightarrow> (False, c, w1)
               | Some st' \<Rightarrow>
                   (case write_state (serialize_fallback_state name (spec_port (ec_spec c)) st') w1 of
                      (ok, w2) \<Rightarrow> if ok then (True, c\<lparr> ec_fallback_state := st' \<rparr>, w2) else (False, unusable, w2))))"

text \<open>\<open>query\<close>: one round trip. The filter keeps the first occurrence of each allowed address.\<close>

fun push_new :: "u32 list \<Rightarrow> u32 list \<Rightarrow> u32 list" where
  "push_new out [] = out"
| "push_new out (x # xs) = push_new (if x \<in> set out then out else out @ [x]) xs"

definition query_failed :: "nat \<Rightarrow> EndpointController \<Rightarrow> EpWorld \<Rightarrow> bool \<times> EndpointController \<times> EpWorld" where
  "query_failed now c w = (case backoff_on_failure (ec_backoff c) now (ew_env w) of
     (_, b, e) \<Rightarrow> (False, c\<lparr> ec_backoff := b \<rparr>, w\<lparr> ew_env := e \<rparr>))"

definition query_answered :: "nat \<Rightarrow> DnsAnswer \<Rightarrow> u32 list \<Rightarrow> EndpointController \<Rightarrow> EndpointController" where
  "query_answered now ans safe c =
     (let b = (if ec_reconnect_refresh_pending c then backoff_on_pending_success (ec_backoff c) now
               else backoff_on_success (ec_backoff c));
          c1 = c\<lparr> ec_backoff := b, ec_expires_at_ms := Some (usat_add 64 now (usat_mul 64 (unat (an_ttl ans)) 1000)) \<rparr>;
          safe' = take MAX_ENDPOINT_CANDIDATES (dedup (sort safe));
          c2 = (if safe' \<noteq> canonical_candidates c1
                then c1\<lparr> ec_preferred_failures := 0, ec_preferred_attempts := 0 \<rparr> else c1) in
      order_candidates (c2\<lparr> ec_candidates := safe' \<rparr>))"

definition query :: "nat \<Rightarrow> EndpointController \<Rightarrow> EpWorld \<Rightarrow> bool \<times> EndpointController \<times> EpWorld" where
  "query now c w =
     (case spec_hostname (ec_spec c) of
        None \<Rightarrow> (False, c, w)
      | Some name \<Rightarrow>
          let c1 = c\<lparr> ec_queries := ec_queries c + 1 \<rparr>; w1 = w\<lparr> ew_rpos := Suc (ew_rpos w) \<rparr> in
          (case ew_resolve w (ew_rpos w) name of
             Inl _ \<Rightarrow> query_failed now c1 w1
           | Inr ans \<Rightarrow>
               let safe = push_new [] (filter (is_safe c) (an_addrs ans)) in
               if safe = [] then query_failed now c1 w1 else (True, query_answered now ans safe c1, w1)))"



section \<open>Selecting an address\<close>

definition switch_to :: "u32 \<Rightarrow> switch_why \<Rightarrow> EndpointController \<Rightarrow> Switch option \<times> EndpointController" where
  "switch_to target why c =
     (case cur_v4 c of
        None \<Rightarrow> (None, c)
      | Some cur \<Rightarrow>
          if target = cur then (None, c)
          else let to = \<lparr> sa_ip = V4 target, sa_port = spec_port (ec_spec c) \<rparr> in
            (Some \<lparr> sw_from = ec_current c, sw_to = to, sw_why = why \<rparr>,
             order_candidates (c\<lparr> ec_current := to, ec_current_authenticated := False \<rparr>)))"

text \<open>The branches of \<open>select\<close>, one definition for each reason.\<close>

definition select_rollback :: "EndpointController \<Rightarrow> Switch option \<times> EndpointController" where
  "select_rollback c =
     (case ec_probation c of
        None \<Rightarrow> (None, c)
      | Some p \<Rightarrow>
          if \<not> pb_rollback_authorized p then (None, c)
          else switch_to (pb_rollback p) RollBack (c\<lparr> ec_probation := None, ec_attended_cutover := False \<rparr>))"

definition select_forced :: "nat \<Rightarrow> u32 \<Rightarrow> bool option \<Rightarrow> EndpointController \<Rightarrow> Switch option \<times> EndpointController" where
  "select_forced now cur query_succeeded c =
     (let no_cutover = c\<lparr> ec_attended_cutover := False \<rparr> in
      if round_expired c now then (None, no_cutover\<lparr> ec_preferred_round_deadline_ms := None \<rparr>)
      else if query_succeeded \<noteq> Some True \<or> ec_candidates c = [] then (None, no_cutover)
      else let target = ec_candidates c ! 0 in
        if target \<noteq> cur then
          let c1 = start_preferred_round now c;
              round_deadline = (case ec_preferred_round_deadline_ms c1 of None \<Rightarrow> now | Some d \<Rightarrow> d);
              required_through = usat_add 64 (usat_add 64 (usat_add 64 round_deadline CLIENT_HANDSHAKE_TIMEOUT_MS)
                (fp_probation_ms (ec_policy c))) (2 * TIMER_INTERVAL_MS) in
          if fp_enabled (ec_policy c) \<and> ec_committed_good c = Some cur \<and>
            (case committed_health_deadline c1 now of None \<Rightarrow> True | Some (_, fresh_through) \<Rightarrow> fresh_through < required_through)
          then (None, c1\<lparr> ec_attended_cutover := False \<rparr>)
          else switch_to target AttendedCutover c1
        else (None, no_cutover))"

text \<open>The first step of a failed attempt or a lost session: return to the committed address when the
  current one is probationary, if the return is direct or the probe is charged.\<close>

definition probation_return ::
  "nat \<Rightarrow> nat \<Rightarrow> u32 \<Rightarrow> EndpointController \<Rightarrow> EpWorld \<Rightarrow> u32 option \<times> EndpointController \<times> EpWorld" where
  "probation_return now wall_now cur c w =
     (case ec_probation c of
        None \<Rightarrow> (None, c, w)
      | Some p \<Rightarrow>
          if pb_candidate p \<noteq> cur \<or> committed_fresh c now cur \<noteq> Some (pb_rollback p) then (None, c, w)
          else if pb_direct_return p then (Some (pb_rollback p), c\<lparr> ec_probation := None \<rparr>, w)
          else case charge_fallback wall_now (pb_rollback p) c w of
            (ok, c1, w1) \<Rightarrow>
              if ok then (Some (pb_rollback p), c1\<lparr> ec_probation := None \<rparr>, w1) else (None, c1, w1))"

definition try_next :: "u32 \<Rightarrow> switch_why \<Rightarrow> EndpointController \<Rightarrow> Switch option \<times> EndpointController" where
  "try_next cur why c =
     (case next_dns_candidate c cur of
        None \<Rightarrow> (None, c)
      | Some next \<Rightarrow> if next \<noteq> cur then switch_to next why c else (None, c))"

text \<open>The rest of a failed attempt on a candidate: count it, and once the round is over probe the
  committed address if the budget allows.\<close>

definition select_candidate_failed ::
  "nat \<Rightarrow> nat \<Rightarrow> u32 \<Rightarrow> EndpointController \<Rightarrow> EpWorld \<Rightarrow> Switch option \<times> EndpointController \<times> EpWorld" where
  "select_candidate_failed now wall_now cur c w =
     (let c1 = start_preferred_round now c;
          c2 = c1\<lparr> ec_preferred_failures := usat_add 32 (ec_preferred_failures c1) 1,
                   ec_preferred_attempts := usat_add 32 (ec_preferred_attempts c1) 1 \<rparr>;
          candidate_count = max (length (canonical_candidates c2)) 1;
          fallback_due = (round_expired c2 now \<or>
            (ec_preferred_failures c2 \<ge> fp_after_failures (ec_policy c2) \<and> ec_preferred_attempts c2 \<ge> candidate_count));
          (charged, c3, w1) = (case (if fallback_due then committed_fresh c2 now cur else None) of
              None \<Rightarrow> (None, c2, w)
            | Some good \<Rightarrow> (case charge_fallback wall_now good c2 w of
                (ok, c3, w1) \<Rightarrow> (if ok then Some good else None, c3, w1))) in
      case charged of
        Some good \<Rightarrow>
          (case switch_to good RollbackProbe (c3\<lparr> ec_preferred_round_deadline_ms := None \<rparr>) of (s, c4) \<Rightarrow> (s, c4, w1))
      | None \<Rightarrow>
          if \<not> round_expired c3 now then (case try_next cur NextCandidate c3 of (s, c4) \<Rightarrow> (s, c4, w1))
          else (None, c3\<lparr> ec_preferred_round_deadline_ms := None, ec_preferred_attempts := 0 \<rparr>, w1))"

definition select_attempt_failed ::
  "nat \<Rightarrow> nat \<Rightarrow> u32 \<Rightarrow> EndpointController \<Rightarrow> EpWorld \<Rightarrow> Switch option \<times> EndpointController \<times> EpWorld" where
  "select_attempt_failed now wall_now cur c w =
     (case probation_return now wall_now cur c w of
        (Some rollback, c1, w1) \<Rightarrow> (case switch_to rollback ProbationFailed c1 of (s, c2) \<Rightarrow> (s, c2, w1))
      | (None, c1, w1) \<Rightarrow>
          (case (if ec_attended_cutover c1 then filter (\<lambda>r. r \<noteq> cur) (case ec_committed_good c1 of None \<Rightarrow> [] | Some g \<Rightarrow> [g])
                 else []) of
             rollback # _ \<Rightarrow>
               (case switch_to rollback AttendedFailed (c1\<lparr> ec_attended_cutover := False \<rparr>) of (s, c2) \<Rightarrow> (s, c2, w1))
           | [] \<Rightarrow>
               if ec_committed_good c1 = Some cur then
                 if round_expired c1 now then
                   (None, c1\<lparr> ec_preferred_round_deadline_ms := None, ec_preferred_attempts := 0 \<rparr>, w1)
                 else (case try_next cur CommittedFailed (start_preferred_round now c1) of (s, c2) \<Rightarrow> (s, c2, w1))
               else select_candidate_failed now wall_now cur c1 w1))"

definition select_session_lost ::
  "nat \<Rightarrow> nat \<Rightarrow> u32 \<Rightarrow> EndpointController \<Rightarrow> EpWorld \<Rightarrow> Switch option \<times> EndpointController \<times> EpWorld" where
  "select_session_lost now wall_now cur c w =
     (case probation_return now wall_now cur c w of
        (Some rollback, c1, w1) \<Rightarrow> (case switch_to rollback ProbationLost c1 of (s, c2) \<Rightarrow> (s, c2, w1))
      | (None, c1, w1) \<Rightarrow>
          if ec_committed_good c1 = Some cur \<and> cur \<notin> set (ec_candidates c1) then
            let c2 = start_preferred_round now c1 in
            (case canonical_candidates c2 of
               [] \<Rightarrow> (None, c2, w1)
             | target # _ \<Rightarrow> (case switch_to target NotInDns c2 of (s, c3) \<Rightarrow> (s, c3, w1)))
          else (None, c1, w1))"

definition select ::
  "nat \<Rightarrow> nat \<Rightarrow> CycleReason \<Rightarrow> bool option \<Rightarrow> EndpointController \<Rightarrow> EpWorld \<Rightarrow> Switch option \<times> EndpointController \<times> EpWorld" where
  "select now wall_now reason query_succeeded c w =
     (case cur_v4 c of
        None \<Rightarrow> (None, c, w)
      | Some cur \<Rightarrow>
          (case reason of
             ProbationExpired \<Rightarrow> (case select_rollback c of (s, c1) \<Rightarrow> (s, c1, w))
           | OperatorRollback \<Rightarrow> (case select_rollback c of (s, c1) \<Rightarrow> (s, c1, w))
           | Forced \<Rightarrow> (case select_forced now cur query_succeeded c of (s, c1) \<Rightarrow> (s, c1, w))
           | AttemptFailed \<Rightarrow> select_attempt_failed now wall_now cur c w
           | SessionLost \<Rightarrow> select_session_lost now wall_now cur c w
           | Startup \<Rightarrow> (None, c, w)))"


section \<open>Operations called by the client\<close>

definition probation_rollback_due_at :: "nat \<Rightarrow> nat \<Rightarrow> EndpointController \<Rightarrow> EpWorld \<Rightarrow> bool \<times> EndpointController \<times> EpWorld" where
  "probation_rollback_due_at now wall_now c w =
     (case (cur_v4 c, ec_probation c) of
        (Some cur, Some p) \<Rightarrow>
          if pb_candidate p \<noteq> cur \<or> (case pb_rollback_at_ms p of None \<Rightarrow> True | Some deadline \<Rightarrow> now < deadline) \<or>
             committed_fresh c now cur \<noteq> Some (pb_rollback p) then (False, c, w)
          else if pb_rollback_authorized p then (True, c, w)
          else (case (if pb_direct_return p then (True, c, w) else charge_fallback wall_now (pb_rollback p) c w) of
            (ok, c1, w1) \<Rightarrow>
              if ok then (True, c1\<lparr> ec_probation := Some (p\<lparr> pb_rollback_authorized := True \<rparr>) \<rparr>, w1) else (False, c1, w1))
      | _ \<Rightarrow> (False, c, w))"

definition probation_rollback_due :: "nat \<Rightarrow> EndpointController \<Rightarrow> EpWorld \<Rightarrow> bool \<times> EndpointController \<times> EpWorld" where
  "probation_rollback_due now c w = (case unix_now_secs w of (wall, w1) \<Rightarrow> probation_rollback_due_at now wall c w1)"

definition authorize_operator_rollback_at ::
  "u32 \<Rightarrow> nat \<Rightarrow> nat \<Rightarrow> EndpointController \<Rightarrow> EpWorld \<Rightarrow> bool \<times> EndpointController \<times> EpWorld" where
  "authorize_operator_rollback_at expected now wall_now c w =
     (case (cur_v4 c, ec_probation c) of
        (Some cur, Some p) \<Rightarrow>
          if cur \<noteq> expected \<or> pb_candidate p \<noteq> expected \<or> committed_fresh c now cur \<noteq> Some (pb_rollback p) then (False, c, w)
          else (case (if pb_rollback_authorized p \<or> pb_direct_return p then (True, c, w)
                      else charge_fallback wall_now (pb_rollback p) c w) of
            (ok, c1, w1) \<Rightarrow>
              if ok then (True, c1\<lparr> ec_probation := Some (p\<lparr> pb_rollback_authorized := True \<rparr>) \<rparr>, w1) else (False, c1, w1))
      | _ \<Rightarrow> (False, c, w))"

definition authorize_operator_rollback ::
  "u32 \<Rightarrow> nat \<Rightarrow> EndpointController \<Rightarrow> EpWorld \<Rightarrow> bool \<times> EndpointController \<times> EpWorld" where
  "authorize_operator_rollback expected now c w =
     (case unix_now_secs w of (wall, w1) \<Rightarrow> authorize_operator_rollback_at expected now wall c w1)"

definition on_session_ended :: "EndpointController \<Rightarrow> EndpointController" where
  "on_session_ended c = c\<lparr> ec_current_authenticated := False \<rparr>"

definition request_refresh :: "EndpointController \<Rightarrow> EndpointController" where
  "request_refresh c =
     (if is_dynamic (ec_spec c)
      then c\<lparr> ec_attended_cutover := (case cur_v4 c of
                 Some cur \<Rightarrow> ec_current_authenticated c \<and> ec_committed_good c = Some cur | None \<Rightarrow> False),
              ec_force_refresh := True, ec_backoff := backoff_on_success (ec_backoff c) \<rparr>
      else c)"

definition refresh_due :: "nat \<Rightarrow> EndpointController \<Rightarrow> bool" where
  "refresh_due now c \<longleftrightarrow> ec_force_refresh c \<or> ec_reconnect_refresh_pending c \<or>
     (case ec_expires_at_ms c of None \<Rightarrow> True | Some t \<Rightarrow> now \<ge> t) \<or> ec_candidates c = []"

text \<open>\<open>on_cycle\<close>: a due refresh queries unless the backoff defers it, and the clocks are read again
  after it.\<close>

definition cycle_refresh :: "nat \<Rightarrow> CycleReason \<Rightarrow> EndpointController \<Rightarrow> EpWorld \<Rightarrow> bool option \<times> EndpointController \<times> EpWorld" where
  "cycle_refresh now reason c w =
     (let c1 = (if reason \<in> {Forced, SessionLost, AttemptFailed} then start_preferred_round now c else c) in
      if backoff_ready (ec_backoff c1) now then
        (case query now (c1\<lparr> ec_force_refresh := False \<rparr>) w of (ok, c2, w1) \<Rightarrow> (Some ok, c2, w1))
      else (None, c1, w))"

definition on_cycle :: "nat \<Rightarrow> CycleReason \<Rightarrow> EndpointController \<Rightarrow> EpWorld \<Rightarrow> Switch option \<times> EndpointController \<times> EpWorld" where
  "on_cycle now reason c w =
     (case unix_now_secs w of (wall, w1) \<Rightarrow>
      if \<not> is_dynamic (ec_spec c) then (None, c, w1)
      else let c1 = (if reason = SessionLost then c\<lparr> ec_reconnect_refresh_pending := True \<rparr> else c) in
        if refresh_due now c1 then
          (case cycle_refresh now reason c1 w1 of (succeeded, c2, w2) \<Rightarrow>
           (case now_ms (ew_env w2) of (now2, e) \<Rightarrow>
            (case unix_now_secs (w2\<lparr> ew_env := e \<rparr>) of (wall2, w3) \<Rightarrow> select now2 wall2 reason succeeded c2 w3)))
        else select now wall reason None c1 w1)"

text \<open>The assignments that make \<open>cur\<close> the committed address, and those that put it on probation.\<close>

definition commit_addr :: "u32 \<Rightarrow> nat \<Rightarrow> EndpointController \<Rightarrow> EndpointController" where
  "commit_addr cur now c = c\<lparr> ec_committed_good := Some cur, ec_committed_runtime_activity_ms := Some now,
     ec_cache_fresh_until_ms := None, ec_probation := None, ec_attended_cutover := False \<rparr>"

definition begin_probation :: "u32 \<Rightarrow> u32 \<Rightarrow> nat \<Rightarrow> EndpointController \<Rightarrow> EndpointController" where
  "begin_probation cur rollback now c =
     (let freshness = map_option (\<lambda>(_, d). min d (usat_add 64 now (fp_rollback_window_ms (ec_policy c))))
            (committed_health_deadline c now);
          grace = 2 * TIMER_INTERVAL_MS;
          required = usat_add 64 (usat_add 64 now (fp_probation_ms (ec_policy c))) grace;
          rollback_at = (case freshness of None \<Rightarrow> None | Some d \<Rightarrow> if d \<ge> required then Some (d - grace) else None) in
      c\<lparr> ec_probation := Some \<lparr> pb_candidate = cur, pb_rollback = rollback, pb_authenticated_at_ms = now,
             pb_direct_return = ec_attended_cutover c, pb_rollback_at_ms = rollback_at, pb_rollback_authorized = False,
             pb_first_data_ms = None, pb_last_data_ms = None, pb_data_packets = 0 \<rparr>,
         ec_attended_cutover := False \<rparr>)"

definition on_authenticated_at :: "nat \<Rightarrow> EndpointController \<Rightarrow> EpWorld \<Rightarrow> u32 option \<times> EndpointController \<times> EpWorld" where
  "on_authenticated_at now c w =
     (let c1 = c\<lparr> ec_current_authenticated := True, ec_reconnect_refresh_pending := False,
                  ec_backoff := backoff_on_success (ec_backoff c) \<rparr> in
      case cur_v4 c of
        None \<Rightarrow> (None, c1, w)
      | Some cur \<Rightarrow>
          let c2 = c1\<lparr> ec_preferred_failures := 0, ec_preferred_attempts := 0, ec_preferred_round_deadline_ms := None \<rparr> in
          (case (if fp_enabled (ec_policy c) then ec_committed_good c else None) of
             None \<Rightarrow>
               (if ec_committed_good c = Some cur then None else ec_committed_good c,
                order_candidates (commit_addr cur now c2), persist_committed c2 cur w)
           | Some rollback \<Rightarrow>
               if rollback = cur then (None, order_candidates (commit_addr cur now c2), persist_committed c2 cur w)
               else (None, order_candidates (begin_probation cur rollback now c2), w)))"

definition on_authenticated :: "EndpointController \<Rightarrow> EpWorld \<Rightarrow> u32 option \<times> EndpointController \<times> EpWorld" where
  "on_authenticated c w = (case now_ms (ew_env w) of (now, e) \<Rightarrow> on_authenticated_at now c (w\<lparr> ew_env := e \<rparr>))"

definition probation_gap :: "EndpointController \<Rightarrow> nat" where
  "probation_gap c = clamp_nat (fp_probation_ms (ec_policy c)) 1 5000"

definition record_data :: "nat \<Rightarrow> nat \<Rightarrow> Probation \<Rightarrow> Probation" where
  "record_data max_gap now p =
     (let p1 = (if (case pb_last_data_ms p of None \<Rightarrow> False | Some l \<Rightarrow> now - l > max_gap)
                then p\<lparr> pb_first_data_ms := None, pb_data_packets := 0 \<rparr> else p) in
      p1\<lparr> pb_first_data_ms := (case pb_first_data_ms p1 of None \<Rightarrow> Some now | f \<Rightarrow> f),
          pb_last_data_ms := Some now, pb_data_packets := usat_add 32 (pb_data_packets p1) 1 \<rparr>)"

definition on_authenticated_activity :: "nat \<Rightarrow> bool \<Rightarrow> EndpointController \<Rightarrow> EndpointController" where
  "on_authenticated_activity now is_data c =
     (case cur_v4 c of
        None \<Rightarrow> c
      | Some cur \<Rightarrow>
          let c1 = (if ec_current_authenticated c \<and> ec_committed_good c = Some cur
                    then c\<lparr> ec_committed_runtime_activity_ms := Some now \<rparr> else c) in
          if \<not> is_data then c1
          else case ec_probation c1 of
            None \<Rightarrow> c1
          | Some p \<Rightarrow> if pb_candidate p \<noteq> cur then c1
                      else c1\<lparr> ec_probation := Some (record_data (probation_gap c1) now p) \<rparr>)"

definition evidence_span :: "Probation \<Rightarrow> nat" where
  "evidence_span p = (case (pb_last_data_ms p, pb_first_data_ms p) of (Some l, Some f) \<Rightarrow> l - f | _ \<Rightarrow> 0)"

text \<open>The checks of \<open>promote_candidate\<close> before it writes, in their order.\<close>

definition promotion_refused :: "u32 \<Rightarrow> nat \<Rightarrow> EndpointController \<Rightarrow> Probation \<Rightarrow> PromotionResult option" where
  "promotion_refused expected now c p =
     (let idle = (case pb_last_data_ms p of None \<Rightarrow> 2 ^ 64 - 1 | Some l \<Rightarrow> now - l) in
      if pb_candidate p \<noteq> expected then Some WrongCandidate
      else if sa_ip (ec_current c) \<noteq> V4 expected \<or> \<not> ec_current_authenticated c then Some NotActive
      else if (case pb_rollback_at_ms p of None \<Rightarrow> False
               | Some d \<Rightarrow> now \<ge> d \<or> committed_fresh c now expected \<noteq> Some (pb_rollback p)) then Some RollbackExpired
      else if pb_data_packets p < MIN_PROMOTION_DATA_PACKETS \<or> evidence_span p < fp_probation_ms (ec_policy c) then
        Some (InsufficientEvidence (pb_data_packets p) (evidence_span p))
      else if idle > probation_gap c then Some (StaleEvidence idle)
      else None)"

definition promote_candidate :: "u32 \<Rightarrow> nat \<Rightarrow> EndpointController \<Rightarrow> EpWorld \<Rightarrow> PromotionResult \<times> EndpointController \<times> EpWorld" where
  "promote_candidate expected now c w =
     (case ec_probation c of
        None \<Rightarrow> (NotProbationary, c, w)
      | Some p \<Rightarrow>
          (case promotion_refused expected now c p of
             Some r \<Rightarrow> (r, c, w)
           | None \<Rightarrow>
               (case (case (eo_cache_file (ec_opts c), spec_hostname (ec_spec c)) of
                        (Some _, Some name) \<Rightarrow>
                          save_cache_with_policy name (spec_port (ec_spec c)) expected (eo_allow_private (ec_opts c)) w
                      | _ \<Rightarrow> (True, w)) of
                  (saved, w1) \<Rightarrow>
                    if \<not> saved then (PersistenceFailed, c, w1)
                    else (Promoted (pb_rollback p), order_candidates (commit_addr expected now c), w1))))"


section \<open>Start\<close>

definition controller_new :: "EndpointSpec \<Rightarrow> EndpointOptions \<Rightarrow> nat \<Rightarrow> EndpointController" where
  "controller_new spec opts wall =
     \<lparr> ec_spec = spec, ec_opts = opts, ec_current = \<lparr> sa_ip = V4 0, sa_port = spec_port spec \<rparr>,
       ec_current_authenticated = False, ec_committed_good = None, ec_cache_fresh_until_ms = None,
       ec_committed_runtime_activity_ms = None, ec_candidates = [], ec_expires_at_ms = None,
       ec_backoff = Backoff_new (eo_backoff_min_ms opts) (eo_backoff_max_ms opts), ec_force_refresh = False,
       ec_reconnect_refresh_pending = False, ec_queries = 0, ec_preferred_failures = 0,
       ec_preferred_round_deadline_ms = None, ec_preferred_attempts = 0, ec_attended_cutover = False,
       ec_probation = None, ec_fallback_state = FallbackState_new 0 wall, ec_fallback_state_path = False,
       ec_fallback_state_usable = True \<rparr>"

definition read_cache :: "EndpointController \<Rightarrow> string \<Rightarrow> EpWorld \<Rightarrow> CacheEntry option" where
  "read_cache c name w =
     (case eo_cache_file (ec_opts c) of
        None \<Rightarrow> None
      | Some _ \<Rightarrow>
          (case load_cache_entry (ew_cache w) name (spec_port (ec_spec c)) (eo_allow_private (ec_opts c)) of
             Inr (Some entry) \<Rightarrow> Some entry | _ \<Rightarrow> None))"

definition load_limits :: "string \<Rightarrow> nat \<Rightarrow> EndpointController \<Rightarrow> EpWorld \<Rightarrow> EndpointController \<times> EpWorld" where
  "load_limits name wall_now c w =
     (if \<not> fp_enabled (ec_policy c) then (c, w)
      else let c1 = c\<lparr> ec_fallback_state_path := eo_cache_file (ec_opts c) \<noteq> None,
                       ec_fallback_state := FallbackState_new (fp_global_capacity (ec_policy c)) wall_now \<rparr> in
        if eo_cache_file (ec_opts c) = None then (c1, w)
        else let w1 = w\<lparr> ew_lpos := Suc (ew_lpos w) \<rparr> in
          if \<not> ew_lock w (ew_lpos w) then (c1\<lparr> ec_fallback_state_usable := False \<rparr>, w1)
          else case load_fallback_state (ew_state w1) name (spec_port (ec_spec c)) (fp_global_capacity (ec_policy c))
                      (eo_allow_private (ec_opts c)) wall_now of
              Inr (Some st) \<Rightarrow> (c1\<lparr> ec_fallback_state := st \<rparr>, w1)
            | Inr None \<Rightarrow> (c1, w1)
            | Inl _ \<Rightarrow> (c1\<lparr> ec_fallback_state_usable := False \<rparr>, w1))"

datatype bootstrap_error = UnsafeBootstrap endpoint_refusal | CannotResolve

definition choose_first :: "bool \<Rightarrow> EndpointController \<Rightarrow> u32 option" where
  "choose_first queried c =
     (if queried \<and> ec_candidates c \<noteq> [] then
        (case ec_committed_good c of
           Some g \<Rightarrow> if g \<in> set (ec_candidates c) then Some g else Some (ec_candidates c ! 0)
         | None \<Rightarrow> Some (ec_candidates c ! 0))
      else case ec_committed_good c of Some g \<Rightarrow> Some g | None \<Rightarrow> eo_bootstrap (ec_opts c))"

definition bootstrap_hostname ::
  "string \<Rightarrow> nat \<Rightarrow> EndpointController \<Rightarrow> EpWorld \<Rightarrow> (bootstrap_error + EndpointController) \<times> EpWorld" where
  "bootstrap_hostname name now c w =
     (case (case eo_bootstrap (ec_opts c) of None \<Rightarrow> None | Some ip \<Rightarrow> check_endpoint_ip ip (eo_allow_private (ec_opts c))) of
        Some why \<Rightarrow> (Inl (UnsafeBootstrap why), w)
      | None \<Rightarrow>
          let cached = read_cache c name w in
          (case unix_now_secs w of (wall_now, w1) \<Rightarrow>
           let c1 = c\<lparr> ec_committed_good := map_option ce_addr cached,
                       ec_cache_fresh_until_ms := (case cached of None \<Rightarrow> None | Some en \<Rightarrow> cached_fresh_until c en now wall_now) \<rparr> in
           (case load_limits name wall_now c1 w1 of (c2, w2) \<Rightarrow>
            (case query now (start_preferred_round now c2) w2 of (queried, c3, w3) \<Rightarrow>
             (case choose_first queried c3 of
                None \<Rightarrow> (Inl CannotResolve, w3)
              | Some chosen \<Rightarrow>
                  (Inr (order_candidates (c3\<lparr> ec_current := \<lparr> sa_ip = V4 chosen, sa_port = spec_port (ec_spec c3) \<rparr> \<rparr>)), w3))))))"

definition bootstrap ::
  "EndpointSpec \<Rightarrow> EndpointOptions \<Rightarrow> nat \<Rightarrow> EpWorld \<Rightarrow> (bootstrap_error + EndpointController) \<times> EpWorld" where
  "bootstrap spec opts now w =
     (case unix_now_secs w of (wall, w1) \<Rightarrow>
      let c = controller_new spec opts wall in
      case spec of
        Literal a \<Rightarrow> (Inr (c\<lparr> ec_current := a, ec_candidates := (case sa_ip a of V4 v \<Rightarrow> [v] | V6 _ _ \<Rightarrow> []) \<rparr>), w1)
      | Hostname name _ \<Rightarrow> bootstrap_hostname name now c w1)"

end
