(* ===== verification/Endpoint_Inv.thy ===== *)
theory Endpoint_Inv
  imports Endpoint
begin

text \<open>
  What the endpoint controller keeps over every sequence of calls: the addresses it may use, the
  committed address, the evidence behind a promotion and the charge behind an unattended return.
\<close>


section \<open>How one operation may change the controller\<close>

text \<open>\<open>keeps c c'\<close>: the configuration and the committed address are the same, no candidate is added,
  a probation is kept, authorized or dropped, and the current address is kept or becomes one the
  controller already holds.\<close>

definition held :: "EndpointController \<Rightarrow> u32 \<Rightarrow> bool" where
  "held c t \<longleftrightarrow> t \<in> set (ec_candidates c) \<or> ec_committed_good c = Some t \<or>
     (\<exists>p. ec_probation c = Some p \<and> pb_rollback p = t)"

definition cands_ok :: "u32 list \<Rightarrow> bool" where
  "cands_ok cs \<longleftrightarrow> distinct cs \<and> length cs \<le> 8"

definition prob_le :: "Probation option \<Rightarrow> Probation option \<Rightarrow> bool" where
  "prob_le a b \<longleftrightarrow> b = None \<or> b = a \<or> (\<exists>p. a = Some p \<and> b = Some (p\<lparr> pb_rollback_authorized := True \<rparr>))"

definition keeps :: "EndpointController \<Rightarrow> EndpointController \<Rightarrow> bool" where
  "keeps c c' \<longleftrightarrow> ec_spec c' = ec_spec c \<and> ec_opts c' = ec_opts c \<and> ec_committed_good c' = ec_committed_good c \<and>
     set (ec_candidates c') \<subseteq> set (ec_candidates c) \<and> (cands_ok (ec_candidates c) \<longrightarrow> cands_ok (ec_candidates c') \<and> set (ec_candidates c') = set (ec_candidates c)) \<and>
     prob_le (ec_probation c) (ec_probation c') \<and>
     (ec_current c' = ec_current c \<or>
      (\<exists>t. ec_current c' = \<lparr> sa_ip = V4 t, sa_port = spec_port (ec_spec c) \<rparr> \<and> held c t))"

definition same_core :: "EndpointController \<Rightarrow> EndpointController \<Rightarrow> bool" where
  "same_core c c' \<longleftrightarrow> ec_spec c' = ec_spec c \<and> ec_opts c' = ec_opts c \<and> ec_committed_good c' = ec_committed_good c \<and>
     ec_candidates c' = ec_candidates c \<and> ec_probation c' = ec_probation c \<and> ec_current c' = ec_current c"

lemma same_core_keeps: "same_core c c' \<Longrightarrow> keeps c c'"
  by (auto simp: same_core_def keeps_def prob_le_def)

lemma keeps_refl [simp]: "keeps c c"
  by (simp add: same_core_keeps same_core_def)

lemma prob_le_trans: "prob_le a b \<Longrightarrow> prob_le b d \<Longrightarrow> prob_le a d"
  by (auto simp: prob_le_def)

lemma held_mono: "keeps c c' \<Longrightarrow> held c' t \<Longrightarrow> held c t"
  by (auto simp: keeps_def held_def prob_le_def)

lemma keeps_trans:
  assumes "keeps a b" "keeps b c"
  shows "keeps a c"
proof -
  have "ec_current c = ec_current a \<or>
      (\<exists>t. ec_current c = \<lparr> sa_ip = V4 t, sa_port = spec_port (ec_spec a) \<rparr> \<and> held a t)"
    using assms held_mono[OF assms(1)] unfolding keeps_def by metis
  moreover have "prob_le (ec_probation a) (ec_probation c)"
    using assms prob_le_trans unfolding keeps_def by blast
  ultimately show ?thesis
    using assms by (auto simp: keeps_def)
qed

lemma order_fields [simp]:
  "ec_spec (order_candidates c) = ec_spec c" "ec_opts (order_candidates c) = ec_opts c"
  "ec_committed_good (order_candidates c) = ec_committed_good c" "ec_probation (order_candidates c) = ec_probation c"
  "ec_current (order_candidates c) = ec_current c" "ec_queries (order_candidates c) = ec_queries c"
  "ec_attended_cutover (order_candidates c) = ec_attended_cutover c"
  by (simp_all add: order_candidates_def Let_def)

lemma order_ok:
  "cands_ok (ec_candidates (order_candidates c))" "set (ec_candidates (order_candidates c)) \<subseteq> set (ec_candidates c)"
proof -
  let ?rest = "dedup (sort (filter (\<lambda>ip. Some ip \<noteq> cur_v4 c \<and> Some ip \<noteq> ec_committed_good c) (ec_candidates c)))"
  have "distinct ?rest"
    by (simp add: dedup_sort)
  then show "cands_ok (ec_candidates (order_candidates c))"
    "set (ec_candidates (order_candidates c)) \<subseteq> set (ec_candidates c)"
    by (auto simp: cands_ok_def order_candidates_def Let_def state_consts split: option.split dest!: in_set_takeD
        intro!: distinct_take)
qed

lemma order_set:
  assumes "cands_ok (ec_candidates c)"
  shows "set (ec_candidates (order_candidates c)) = set (ec_candidates c)"
proof -
  let ?cs = "ec_candidates c"
  let ?first = "case cur_v4 c of Some a \<Rightarrow> if a \<in> set ?cs then [a] else [] | None \<Rightarrow> []"
    and ?second = "case ec_committed_good c of Some g \<Rightarrow> if g \<in> set ?cs \<and> Some g \<noteq> cur_v4 c then [g] else [] | None \<Rightarrow> []"
    and ?rest = "dedup (sort (filter (\<lambda>ip. Some ip \<noteq> cur_v4 c \<and> Some ip \<noteq> ec_committed_good c) ?cs))"
  let ?all = "?first @ ?second @ ?rest"
  have s: "set ?all = set ?cs" and d: "distinct ?all"
    by (auto simp: dedup_sort split: option.split)
  have "length ?all = card (set ?cs)"
    using distinct_card[OF d] unfolding s by (rule sym)
  also have "\<dots> \<le> MAX_ENDPOINT_CANDIDATES"
    using assms card_length[of ?cs] unfolding cands_ok_def state_consts by linarith
  finally have "length ?all \<le> MAX_ENDPOINT_CANDIDATES" .
  then have "take MAX_ENDPOINT_CANDIDATES ?all = ?all"
    by (rule take_all)
  then show ?thesis
    using s by (simp add: order_candidates_def Let_def)
qed

lemma keeps_order: "keeps c (order_candidates c)"
  using order_ok order_set by (auto simp: keeps_def prob_le_def)

lemma same_core_simple:
  "same_core c (start_preferred_round now c)" "charge_fallback wall t c w = (ok, c', w') \<Longrightarrow> same_core c c'"
  by (auto simp: same_core_def start_preferred_round_def charge_fallback_def Let_def
      split: if_splits option.splits sum.splits prod.splits)

lemma same_core_held: "same_core c c' \<Longrightarrow> held c' = held c"
  by (auto simp: same_core_def held_def)

lemmas keeps_round = same_core_keeps[OF same_core_simple(1)]
  and keeps_charge = same_core_keeps[OF same_core_simple(2)]

lemma keeps_switch_from:
  assumes "switch_to t why c = (s, c')" "keeps a c" "held a t"
  shows "keeps a c'"
proof -
  let ?to = "\<lparr> sa_ip = V4 t, sa_port = spec_port (ec_spec c) \<rparr>"
  have "keeps a (c\<lparr> ec_current := ?to, ec_current_authenticated := False \<rparr>)"
    using assms(2,3) by (auto simp: keeps_def)
  then show ?thesis
    using assms(1,2) keeps_trans[OF _ keeps_order] by (auto simp: switch_to_def Let_def split: option.splits if_splits)
qed

lemmas keeps_switch = keeps_switch_from[OF _ keeps_refl]

lemma canonical_held: "t \<in> set (canonical_candidates c) \<Longrightarrow> held c t"
  by (auto simp: canonical_candidates_def held_def dest!: in_set_takeD)

lemma canonical_listed: "t \<in> set (canonical_candidates c) \<Longrightarrow> t \<in> set (ec_candidates c)"
  by (auto simp: canonical_candidates_def dest!: in_set_takeD)

lemma next_listed:
  assumes "next_dns_candidate c cur = Some t"
  shows "t \<in> set (ec_candidates c)"
proof -
  let ?set = "canonical_candidates c"
  have ne: "?set \<noteq> []" and t: "t = ?set ! (case position (\<lambda>ip. ip = cur) ?set of None \<Rightarrow> 0 | Some i \<Rightarrow> (i + 1) mod length ?set)"
    using assms by (auto simp: next_dns_candidate_def Let_def split: if_splits)
  have "(case position (\<lambda>ip. ip = cur) ?set of None \<Rightarrow> 0 | Some i \<Rightarrow> (i + 1) mod length ?set) < length ?set"
    using ne by (simp split: option.split)
  then show ?thesis
    using canonical_listed t by simp
qed

lemma next_held: "next_dns_candidate c cur = Some t \<Longrightarrow> held c t"
  using next_listed by (simp add: held_def)

lemma keeps_next: "try_next cur why c = (s, c') \<Longrightarrow> keeps c c'"
  by (auto simp: try_next_def split: option.splits if_splits dest: next_held keeps_switch)

lemma fresh_held: "committed_fresh c now cur = Some t \<Longrightarrow> ec_committed_good c = Some t"
  by (auto simp: committed_fresh_def committed_health_deadline_def Let_def split: option.splits if_splits list.splits)

lemma fresh_other: "committed_fresh c now cur = Some t \<Longrightarrow> t \<noteq> cur"
  by (auto simp: committed_fresh_def split: option.splits if_splits)

lemma keeps_probation_return:
  assumes "probation_return now wall cur c w = (r, c', w')"
  shows "keeps c c' \<and> (\<forall>t. r = Some t \<longrightarrow> held c' t)"
proof (cases "ec_probation c")
  case None
  then show ?thesis
    using assms by (simp add: probation_return_def)
next
  case (Some p)
  obtain ok c1 w1 where ch: "charge_fallback wall (pb_rollback p) c w = (ok, c1, w1)"
    by (cases "charge_fallback wall (pb_rollback p) c w") auto
  have core: "same_core c c1"
    using same_core_simple(2)[OF ch] .
  then have "keeps c c1" "keeps c (c1\<lparr> ec_probation := None \<rparr>)" "keeps c (c\<lparr> ec_probation := None \<rparr>)"
    by (auto simp: same_core_def keeps_def prob_le_def)
  moreover have "held (c1\<lparr> ec_probation := None \<rparr>) (pb_rollback p) \<and> held (c\<lparr> ec_probation := None \<rparr>) (pb_rollback p)"
    if "committed_fresh c now cur = Some (pb_rollback p)"
    using fresh_held[OF that] core by (simp add: held_def same_core_def)
  ultimately show ?thesis
    using assms Some ch by (auto simp: probation_return_def split: if_splits)
qed

lemma candidate_failed_cases:
  assumes "select_candidate_failed now wall cur c w = (s, c', w')"
  obtains (probe) c2 good c3 where "same_core c c2" "ec_fallback_state_usable c2 = ec_fallback_state_usable c"
      "ec_committed_good c = Some good" "good \<noteq> cur" "charge_fallback wall good c2 w = (True, c3, w')"
      "switch_to good RollbackProbe (c3\<lparr> ec_preferred_round_deadline_ms := None \<rparr>) = (s, c')"
  | (rotate) c3 where "same_core c c3" "try_next cur NextCandidate c3 = (s, c')"
  | (stay) "s = None" "same_core c c'"
proof -
  let ?c1 = "start_preferred_round now c"
  define c2 where "c2 = ?c1\<lparr> ec_preferred_failures := usat_add 32 (ec_preferred_failures ?c1) 1,
    ec_preferred_attempts := usat_add 32 (ec_preferred_attempts ?c1) 1 \<rparr>"
  define due where "due \<longleftrightarrow> round_expired c2 now \<or> (ec_preferred_failures c2 \<ge> fp_after_failures (ec_policy c2) \<and>
    ec_preferred_attempts c2 \<ge> max (length (canonical_candidates c2)) 1)"
  define ch where "ch = (case (if due then committed_fresh c2 now cur else None) of
      None \<Rightarrow> (None, c2, w)
    | Some good \<Rightarrow> (case charge_fallback wall good c2 w of (ok, c3, w1) \<Rightarrow> (if ok then Some good else None, c3, w1)))"
  obtain g c3 w1 where g: "ch = (g, c3, w1)"
    by (cases ch) auto
  have c2: "same_core c c2" "ec_fallback_state_usable c2 = ec_fallback_state_usable c"
    using same_core_simple(1)[of c now] by (simp_all add: c2_def same_core_def start_preferred_round_def)
  have "same_core c2 c3"
    using g same_core_simple(2) by (auto simp: ch_def same_core_def split: if_splits option.splits prod.splits)
  then have c3: "same_core c c3"
    using c2(1) by (simp add: same_core_def)
  have res: "(s, c', w') = (case g of
      Some good \<Rightarrow> (case switch_to good RollbackProbe (c3\<lparr> ec_preferred_round_deadline_ms := None \<rparr>) of (s, c4) \<Rightarrow> (s, c4, w1))
    | None \<Rightarrow> if \<not> round_expired c3 now then (case try_next cur NextCandidate c3 of (s, c4) \<Rightarrow> (s, c4, w1))
        else (None, c3\<lparr> ec_preferred_round_deadline_ms := None, ec_preferred_attempts := 0 \<rparr>, w1))"
    using assms g unfolding select_candidate_failed_def Let_def ch_def due_def c2_def by simp
  show ?thesis
  proof (cases g)
    case (Some x)
    have "committed_fresh c2 now cur = Some x" "charge_fallback wall x c2 w = (True, c3, w1)"
      using g Some by (auto simp: ch_def split: if_splits option.splits prod.splits)
    then show ?thesis
      using probe[OF c2, of x c3] res Some fresh_held[of c2 now cur x] fresh_other[of c2 now cur x] c2(1) by (auto simp: same_core_def split: prod.splits)
  next
    case None
    then show ?thesis
      using res rotate[OF c3] stay c3 by (auto simp: same_core_def split: if_splits prod.splits)
  qed
qed

lemma keeps_candidate_failed:
  assumes "select_candidate_failed now wall cur c w = (s, c', w')"
  shows "keeps c c'"
  using assms
proof (cases rule: candidate_failed_cases)
  case (probe c2 good c3)
  have "same_core c (c3\<lparr> ec_preferred_round_deadline_ms := None \<rparr>)"
    using probe(1) same_core_simple(2)[OF probe(5)] by (simp add: same_core_def)
  then show ?thesis
    using keeps_switch_from[OF probe(6) same_core_keeps] probe(3) by (simp add: held_def)
next
  case (rotate c3)
  then show ?thesis
    using keeps_trans[OF same_core_keeps keeps_next] by blast
qed (rule same_core_keeps)

lemma keeps_attempt_failed:
  assumes "select_attempt_failed now wall cur c w = (s, c', w')"
  shows "keeps c c'"
proof -
  obtain r c1 w1 where r: "probation_return now wall cur c w = (r, c1, w1)"
    by (cases "probation_return now wall cur c w") auto
  have k: "keeps c c1" "\<And>t. r = Some t \<Longrightarrow> held c1 t"
    using keeps_probation_return[OF r] by auto
  have "keeps c1 c'"
  proof (cases r)
    case (Some t)
    then show ?thesis
      using assms r k(2) keeps_switch by (auto simp: select_attempt_failed_def split: prod.splits)
  next
    case None
    have u: "keeps c1 (c1\<lparr> ec_attended_cutover := False \<rparr>)"
      "keeps c1 (c1\<lparr> ec_preferred_round_deadline_ms := None, ec_preferred_attempts := 0 \<rparr>)"
      by (auto intro!: same_core_keeps simp: same_core_def)
    have h: "held (c1\<lparr> ec_attended_cutover := False \<rparr>) g" if "ec_committed_good c1 = Some g" for g
      using that by (simp add: held_def)
    show ?thesis
      using assms r None u keeps_candidate_failed keeps_trans[OF keeps_round keeps_next] keeps_trans[OF u(1) keeps_switch[OF _ h]]
      by (auto simp: select_attempt_failed_def split: prod.splits if_splits option.splits)
  qed
  then show ?thesis
    using k(1) keeps_trans by blast
qed

lemma keeps_session_lost:
  assumes "select_session_lost now wall cur c w = (s, c', w')"
  shows "keeps c c'"
proof -
  obtain r c1 w1 where r: "probation_return now wall cur c w = (r, c1, w1)"
    by (cases "probation_return now wall cur c w") auto
  have k: "keeps c c1" "\<And>t. r = Some t \<Longrightarrow> held c1 t"
    using keeps_probation_return[OF r] by auto
  have "keeps c1 c'"
  proof (cases r)
    case (Some t)
    then show ?thesis
      using assms r k(2) keeps_switch by (auto simp: select_session_lost_def split: prod.splits)
  next
    case None
    have h: "held (start_preferred_round now c1) t" if "canonical_candidates (start_preferred_round now c1) = t # ts" for t ts
      using that canonical_held[of t] by simp
    show ?thesis
      using assms r None keeps_round keeps_trans[OF keeps_round keeps_switch[OF _ h]]
      by (auto simp: select_session_lost_def Let_def split: prod.splits if_splits list.splits)
  qed
  then show ?thesis
    using k(1) keeps_trans by blast
qed

lemma keeps_forced:
  assumes "select_forced now cur q c = (s, c')"
  shows "keeps c c'"
proof -
  let ?c1 = "start_preferred_round now c"
  have u: "keeps c (c\<lparr> ec_attended_cutover := False \<rparr>)" "keeps c (?c1\<lparr> ec_attended_cutover := False \<rparr>)"
    "keeps c (c\<lparr> ec_attended_cutover := False, ec_preferred_round_deadline_ms := None \<rparr>)"
    using same_core_simple(1)[of c now] by (auto intro!: same_core_keeps simp: same_core_def)
  have h: "held ?c1 (ec_candidates c ! 0)" if "ec_candidates c \<noteq> []"
    using that same_core_held[OF same_core_simple(1)[of c now]] by (simp add: held_def)
  show ?thesis
    using assms u keeps_trans[OF keeps_round keeps_switch[OF _ h]]
    unfolding select_forced_def Let_def by (auto split: if_splits)
qed

lemma keeps_rollback: "select_rollback c = (s, c') \<Longrightarrow> keeps c c'"
proof (cases "ec_probation c")
  case (Some p)
  let ?c1 = "c\<lparr> ec_probation := None, ec_attended_cutover := False \<rparr>"
  have "keeps c ?c1" "held c (pb_rollback p)"
    using Some by (auto simp: keeps_def prob_le_def held_def)
  then show "select_rollback c = (s, c') \<Longrightarrow> keeps c c'"
    using keeps_switch_from[of "pb_rollback p" RollBack ?c1 s c' c] Some by (auto simp: select_rollback_def split: if_splits)
qed (simp add: select_rollback_def)

lemma keeps_select:
  assumes "select now wall reason q c w = (s, c', w')"
  shows "keeps c c'"
  using assms keeps_rollback keeps_forced keeps_attempt_failed keeps_session_lost
  unfolding select_def by (auto split: option.splits CycleReason.splits prod.splits)

lemma keeps_authorize:
  assumes "ec_probation c = Some p" "same_core c c1"
  shows "keeps c (c1\<lparr> ec_probation := Some (p\<lparr> pb_rollback_authorized := True \<rparr>) \<rparr>)"
  using assms by (auto simp: keeps_def same_core_def prob_le_def)

lemma same_core_refl [simp]: "same_core c c"
  by (simp add: same_core_def)

lemma keeps_rollback_due: "probation_rollback_due now c w = (ok, c', w') \<Longrightarrow> keeps c c'"
  unfolding probation_rollback_due_def probation_rollback_due_at_def
  by (auto split: option.splits prod.splits if_splits
      intro: keeps_authorize keeps_authorize[OF _ same_core_simple(2)] keeps_charge)

lemma keeps_operator_rollback: "authorize_operator_rollback expected now c w = (ok, c', w') \<Longrightarrow> keeps c c'"
  unfolding authorize_operator_rollback_def authorize_operator_rollback_at_def
  by (auto split: option.splits prod.splits if_splits
      intro: keeps_authorize keeps_authorize[OF _ same_core_simple(2)] keeps_charge)


section \<open>Addresses\<close>

definition ep_ok :: "EndpointController \<Rightarrow> bool" where
  "ep_ok c \<longleftrightarrow> (\<exists>a. ec_current c = \<lparr> sa_ip = V4 a, sa_port = spec_port (ec_spec c) \<rparr> \<and> is_safe c a) \<and>
     cands_ok (ec_candidates c) \<and> (\<forall>t. held c t \<longrightarrow> is_safe c t) \<and>
     (\<forall>p. ec_probation c = Some p \<longrightarrow> is_safe c (pb_candidate p))"

lemma keeps_ok:
  assumes "ep_ok c" "keeps c c'"
  shows "ep_ok c'"
proof -
  have h: "held c' t \<Longrightarrow> is_safe c' t" for t
    using held_mono[OF assms(2)] assms unfolding ep_ok_def keeps_def by metis
  moreover have "\<forall>p. ec_probation c' = Some p \<longrightarrow> is_safe c' (pb_candidate p)"
    using assms unfolding ep_ok_def keeps_def prob_le_def by auto
  moreover have "\<exists>a. ec_current c' = \<lparr> sa_ip = V4 a, sa_port = spec_port (ec_spec c') \<rparr> \<and> is_safe c' a"
    using assms unfolding ep_ok_def keeps_def by metis
  ultimately show ?thesis
    using assms unfolding ep_ok_def keeps_def by simp
qed

lemma set_push_new: "set (push_new out xs) = set out \<union> set xs"
  by (induction out xs rule: push_new.induct) auto

text \<open>A query keeps everything but the candidates, and replaces these only by addresses that pass the
  policy.\<close>

definition requery :: "EndpointController \<Rightarrow> EndpointController \<Rightarrow> bool" where
  "requery c c' \<longleftrightarrow> ec_spec c' = ec_spec c \<and> ec_opts c' = ec_opts c \<and> ec_committed_good c' = ec_committed_good c \<and>
     ec_probation c' = ec_probation c \<and> ec_current c' = ec_current c \<and>
     ec_attended_cutover c' = ec_attended_cutover c \<and>
     (ec_candidates c' = ec_candidates c \<or>
      cands_ok (ec_candidates c') \<and> ec_candidates c' \<noteq> [] \<and> (\<forall>t \<in> set (ec_candidates c'). is_safe c t))"

lemma query_answered_core:
  obtains c2 where "query_answered now ans safe c =
      order_candidates (c2\<lparr> ec_candidates := take MAX_ENDPOINT_CANDIDATES (dedup (sort safe)) \<rparr>)" "same_core c c2"
    "ec_attended_cutover c2 = ec_attended_cutover c"
  by (simp add: query_answered_def Let_def same_core_def)

lemma query_requery:
  assumes "query now c w = (ok, c', w')"
  shows "requery c c'"
proof (cases "\<exists>ans. push_new [] (filter (is_safe c) (an_addrs ans)) \<noteq> [] \<and>
    c' = query_answered now ans (push_new [] (filter (is_safe c) (an_addrs ans))) (c\<lparr> ec_queries := ec_queries c + 1 \<rparr>)")
  case True
  then obtain ans where ne: "push_new [] (filter (is_safe c) (an_addrs ans)) \<noteq> []"
    and c': "c' = query_answered now ans (push_new [] (filter (is_safe c) (an_addrs ans))) (c\<lparr> ec_queries := ec_queries c + 1 \<rparr>)"
    by blast
  let ?safe = "push_new [] (filter (is_safe c) (an_addrs ans))"
  let ?cs = "take MAX_ENDPOINT_CANDIDATES (dedup (sort ?safe))"
  obtain c2 where c2: "c' = order_candidates (c2\<lparr> ec_candidates := ?cs \<rparr>)"
      "same_core (c\<lparr> ec_queries := ec_queries c + 1 \<rparr>) c2"
      "ec_attended_cutover c2 = ec_attended_cutover (c\<lparr> ec_queries := ec_queries c + 1 \<rparr>)"
    unfolding c' by (rule query_answered_core)
  have "cands_ok ?cs"
    by (simp add: cands_ok_def state_consts dedup_sort)
  then have "set (ec_candidates c') = set ?cs"
    using order_set[of "c2\<lparr> ec_candidates := ?cs \<rparr>"] by (simp add: c2(1))
  moreover have "set ?cs \<subseteq> set ?safe"
    using set_take_subset[of MAX_ENDPOINT_CANDIDATES "dedup (sort ?safe)"] by simp
  moreover have "?cs \<noteq> []"
    using ne by (auto simp: state_consts dest: arg_cong[where f = set])
  ultimately show ?thesis
    using order_ok(1) c2(2,3) by (auto simp: requery_def c2(1) same_core_def set_push_new)
next
  case False
  then show ?thesis
    using assms unfolding query_def query_failed_def Let_def requery_def
    by (auto split: option.splits sum.splits prod.splits if_splits)
qed

lemma requery_ok:
  assumes "ep_ok c" "requery c c'"
  shows "ep_ok c'"
proof -
  have "held c' t \<Longrightarrow> is_safe c t" for t
    using assms unfolding ep_ok_def requery_def held_def by (metis (no_types, lifting))
  then show ?thesis
    using assms unfolding ep_ok_def requery_def by auto
qed

text \<open>What the world keeps: the state file and the readings of the wall clock.\<close>

definition same_disk :: "EpWorld \<Rightarrow> EpWorld \<Rightarrow> bool" where
  "same_disk w w' \<longleftrightarrow> ew_state w' = ew_state w \<and> ew_wall w' = ew_wall w"

lemma same_disk_simple:
  "unix_now_secs w = (t, w') \<Longrightarrow> same_disk w w' \<and> t \<in> range (ew_wall w)"
  "query now c w = (ok, c', w') \<Longrightarrow> same_disk w w'"
  by (auto simp: same_disk_def unix_now_secs_def query_def query_failed_def Let_def
      split: option.splits sum.splits prod.splits if_splits)

lemma cycle_refresh_disk: "cycle_refresh now reason c w = (q, c', w') \<Longrightarrow> same_disk w w'"
  by (auto simp: cycle_refresh_def Let_def same_disk_def split: if_splits prod.splits dest!: same_disk_simple(2))

lemma cycle_refresh_core:
  assumes "cycle_refresh now reason c w = (q, c', w')"
  obtains c1 where "same_core c c1" "ec_attended_cutover c1 = ec_attended_cutover c" "c' = c1 \<or> requery c1 c'"
proof -
  define c1 where "c1 = (if reason \<in> {Forced, SessionLost, AttemptFailed} then start_preferred_round now c else c)"
  have c1: "same_core c c1" "ec_attended_cutover c1 = ec_attended_cutover c"
    using same_core_simple(1)[of c now] by (simp_all add: c1_def same_core_def start_preferred_round_def)
  obtain ok c2 w2 where q2: "query now (c1\<lparr> ec_force_refresh := False \<rparr>) w = (ok, c2, w2)"
    by (cases "query now (c1\<lparr> ec_force_refresh := False \<rparr>) w") auto
  have "c' = c1 \<or> c' = c2"
    using assms q2 unfolding cycle_refresh_def Let_def c1_def[symmetric] by (simp split: if_splits)
  moreover have "same_core c (c1\<lparr> ec_force_refresh := False \<rparr>)"
    using c1(1) by (simp add: same_core_def)
  ultimately show ?thesis
    using that[OF c1] that[of "c1\<lparr> ec_force_refresh := False \<rparr>"] c1(2) query_requery[OF q2] by auto
qed

lemma on_cycle_cases:
  assumes "on_cycle now reason c w = (s, c', w')"
  obtains (static) "\<not> is_dynamic (ec_spec c)" "s = None" "c' = c"
  | (chosen) c1 c2 now2 wall2 q w2 where "is_dynamic (ec_spec c)" "same_core c c1" "ec_attended_cutover c1 = ec_attended_cutover c"
      "c2 = c1 \<or> requery c1 c2" "select now2 wall2 reason q c2 w2 = (s, c', w')" "same_disk w w2" "wall2 \<in> range (ew_wall w)"
proof (cases "is_dynamic (ec_spec c)")
  case False
  then show ?thesis
    using assms unfolding on_cycle_def unix_now_secs_def by (intro static) simp_all
next
  case True
  obtain wall w1 where w1: "unix_now_secs w = (wall, w1)"
    by (cases "unix_now_secs w")
  define c1 where "c1 = (if reason = SessionLost then c\<lparr> ec_reconnect_refresh_pending := True \<rparr> else c)"
  have c1: "same_core c c1" "ec_attended_cutover c1 = ec_attended_cutover c"
    by (simp_all add: c1_def same_core_def)
  obtain q c2 w2 where r: "cycle_refresh now reason c1 w1 = (q, c2, w2)"
    by (cases "cycle_refresh now reason c1 w1") auto
  obtain now2 e where t: "now_ms (ew_env w2) = (now2, e)"
    by (cases "now_ms (ew_env w2)")
  obtain wall2 w3 where u: "unix_now_secs (w2\<lparr> ew_env := e \<rparr>) = (wall2, w3)"
    by (cases "unix_now_secs (w2\<lparr> ew_env := e \<rparr>)")
  have oc: "on_cycle now reason c w =
      (if refresh_due now c1 then select now2 wall2 reason q c2 w3 else select now wall reason None c1 w1)"
    unfolding on_cycle_def w1 prod.case Let_def c1_def[symmetric] r t u using True by simp
  show ?thesis
  proof (cases "refresh_due now c1")
    case due: True
    obtain c0 where c0: "same_core c1 c0" "ec_attended_cutover c0 = ec_attended_cutover c1" "c2 = c0 \<or> requery c0 c2"
      using r by (rule cycle_refresh_core)
    have cc: "same_core c c0" "ec_attended_cutover c0 = ec_attended_cutover c"
      using c1 c0(1,2) by (simp_all add: same_core_def)
    have "same_disk w w3 \<and> wall2 \<in> range (ew_wall w)"
      using same_disk_simple(1)[OF w1] cycle_refresh_disk[OF r] same_disk_simple(1)[OF u] by (simp add: same_disk_def)
    then show ?thesis
      using assms chosen[OF True cc c0(3)] unfolding oc if_P[OF due] by blast
  next
    case fresh: False
    show ?thesis
      using assms same_disk_simple(1)[OF w1] chosen[OF True c1 disjI1[OF refl]] unfolding oc if_not_P[OF fresh] by blast
  qed
qed

lemma on_cycle_ok:
  assumes "ep_ok c" "on_cycle now reason c w = (s, c', w')"
  shows "ep_ok c'"
  using assms(2)
proof (cases rule: on_cycle_cases)
  case (chosen c1 c2 now2 wall2 q w2)
  then have "ep_ok c2"
    using assms(1) keeps_ok[OF _ same_core_keeps] requery_ok by blast
  then show ?thesis
    using keeps_ok keeps_select[OF chosen(5)] by blast
qed (use assms in simp)

text \<open>A switch is reported exactly when the address changes.\<close>

lemma switch_to_reports:
  assumes "switch_to t why c = (s, c')"
  shows "(s = None \<longrightarrow> ec_current c' = ec_current c) \<and>
    (\<forall>x. s = Some x \<longrightarrow> sw_from x = ec_current c \<and> sw_to x = ec_current c' \<and> sw_to x = \<lparr> sa_ip = V4 t, sa_port = spec_port (ec_spec c) \<rparr> \<and>
      cur_v4 c \<noteq> Some t)"
  using assms by (auto simp: switch_to_def Let_def split: option.splits if_splits)

lemma cur_v4_ok: "ep_ok c \<Longrightarrow> \<exists>a. cur_v4 c = Some a \<and> is_safe c a"
  by (auto simp: ep_ok_def cur_v4_def)

lemma order_ep_ok: "ep_ok c \<Longrightarrow> ep_ok (order_candidates c)"
  using keeps_ok keeps_order by blast

lemma commit_fields [simp]:
  "ec_spec (commit_addr a t c) = ec_spec c" "ec_opts (commit_addr a t c) = ec_opts c"
  "ec_committed_good (commit_addr a t c) = Some a" "ec_probation (commit_addr a t c) = None"
  "ec_candidates (commit_addr a t c) = ec_candidates c" "ec_current (commit_addr a t c) = ec_current c"
  by (simp_all add: commit_addr_def)

lemma begin_fields:
  "ec_spec (begin_probation a r t c) = ec_spec c" "ec_opts (begin_probation a r t c) = ec_opts c"
  "ec_committed_good (begin_probation a r t c) = ec_committed_good c"
  "ec_candidates (begin_probation a r t c) = ec_candidates c" "ec_current (begin_probation a r t c) = ec_current c"
  "\<exists>p. ec_probation (begin_probation a r t c) = Some p \<and> pb_candidate p = a \<and> pb_rollback p = r \<and> pb_data_packets p = 0 \<and>
     pb_first_data_ms p = None \<and> pb_last_data_ms p = None \<and> \<not> pb_rollback_authorized p"
  by (simp_all add: begin_probation_def Let_def)

lemma commit_ok: "ep_ok c \<Longrightarrow> is_safe c a \<Longrightarrow> ep_ok (order_candidates (commit_addr a t c))"
  by (rule order_ep_ok) (auto simp: ep_ok_def held_def)

lemma begin_ok: "ep_ok c \<Longrightarrow> is_safe c a \<Longrightarrow> is_safe c r \<Longrightarrow> ep_ok (order_candidates (begin_probation a r t c))"
  using begin_fields[of a r t c] by (intro order_ep_ok) (auto simp: ep_ok_def held_def)

lemma on_authenticated_cases:
  assumes "on_authenticated c w = (r, c', w')" "cur_v4 c = Some cur"
  obtains (commit) c2 t where "same_core c c2" "c' = order_candidates (commit_addr cur t c2)"
      "\<not> fp_enabled (ec_policy c) \<or> ec_committed_good c = None \<or> ec_committed_good c = Some cur"
  | (probation) c2 t g where "same_core c c2" "c' = order_candidates (begin_probation cur g t c2)"
      "ec_committed_good c = Some g" "g \<noteq> cur"
proof -
  define c2 where "c2 = c\<lparr> ec_current_authenticated := True, ec_reconnect_refresh_pending := False,
    ec_backoff := backoff_on_success (ec_backoff c), ec_preferred_failures := 0, ec_preferred_attempts := 0,
    ec_preferred_round_deadline_ms := None \<rparr>"
  have c2: "same_core c c2"
    by (simp add: c2_def same_core_def)
  obtain t e where "now_ms (ew_env w) = (t, e)"
    by (cases "now_ms (ew_env w)")
  then have oc: "(r, c', w') = on_authenticated_at t c (w\<lparr> ew_env := e \<rparr>)"
    using assms(1) by (simp add: on_authenticated_def)
  show ?thesis
  proof (cases "if fp_enabled (ec_policy c) then ec_committed_good c else None")
    case None
    then have "c' = order_candidates (commit_addr cur t c2)"
      using oc assms(2) unfolding on_authenticated_at_def Let_def c2_def by simp
    then show ?thesis
      using commit[OF c2] None by (auto split: if_splits)
  next
    case (Some g)
    then have g: "c' = (if g = cur then order_candidates (commit_addr cur t c2) else order_candidates (begin_probation cur g t c2))"
      using oc assms(2) unfolding on_authenticated_at_def Let_def c2_def by (simp split: if_splits)
    show ?thesis
      using g commit[OF c2] probation[OF c2] Some by (cases "g = cur") (auto split: if_splits)
  qed
qed

lemma on_authenticated_ok:
  assumes "ep_ok c" "on_authenticated c w = (r, c', w')"
  shows "ep_ok c'"
proof -
  obtain cur where cur: "cur_v4 c = Some cur" "is_safe c cur"
    using cur_v4_ok[OF assms(1)] by blast
  have ok: "ep_ok c2 \<and> is_safe c2 cur \<and> (\<forall>g. ec_committed_good c = Some g \<longrightarrow> is_safe c2 g)" if "same_core c c2" for c2
    using keeps_ok[OF assms(1) same_core_keeps[OF that]] that cur(2) by (auto simp: same_core_def ep_ok_def held_def)
  from assms(2) cur(1) show ?thesis
    by (cases rule: on_authenticated_cases) (auto simp: ok commit_ok begin_ok)
qed

lemma record_data_fields [simp]:
  "pb_candidate (record_data g t p) = pb_candidate p" "pb_rollback (record_data g t p) = pb_rollback p"
  by (simp_all add: record_data_def Let_def)

lemma on_activity_ok: "ep_ok c \<Longrightarrow> ep_ok (on_authenticated_activity t d c)"
  by (auto simp: on_authenticated_activity_def ep_ok_def held_def Let_def split: option.splits)

lemma promotion_allowed:
  assumes "promotion_refused e t c p = None"
  shows "pb_candidate p = e" "sa_ip (ec_current c) = V4 e" "ec_current_authenticated c"
    "MIN_PROMOTION_DATA_PACKETS \<le> pb_data_packets p" "fp_probation_ms (ec_policy c) \<le> evidence_span p"
  using assms by (auto simp: promotion_refused_def Let_def split: if_split_asm)

lemma promotion_refused_value: "promotion_refused e t c p = Some r \<Longrightarrow> r \<noteq> Promoted g"
  by (auto simp: promotion_refused_def Let_def split: if_split_asm)

lemma promote_cases:
  assumes "promote_candidate e t c w = (r, c', w')"
  obtains (refused) "c' = c" "\<forall>g. r \<noteq> Promoted g"
  | (promoted) p where "ec_probation c = Some p" "promotion_refused e t c p = None" "r = Promoted (pb_rollback p)"
      "c' = order_candidates (commit_addr e t c)"
proof (cases "ec_probation c")
  case None
  then show ?thesis
    using assms refused by (simp add: promote_candidate_def)
next
  case (Some p)
  note eq = assms[unfolded promote_candidate_def Some option.case]
  show ?thesis
  proof (cases "promotion_refused e t c p")
    case None
    then show ?thesis
      using eq refused promoted[OF Some None] unfolding None by (auto simp only: option.case split: prod.splits if_splits)
  next
    case r: (Some x)
    then show ?thesis
      using eq refused promotion_refused_value[OF r] by auto
  qed
qed

lemma promote_ok:
  assumes "ep_ok c" "promote_candidate e t c w = (r, c', w')"
  shows "ep_ok c'"
  using assms(2)
proof (cases rule: promote_cases)
  case (promoted p)
  have "is_safe c e"
    using assms(1) promotion_allowed(2)[OF promoted(2)] by (auto simp: ep_ok_def)
  then show ?thesis
    using commit_ok[OF assms(1)] promoted(4) by simp
qed (use assms in simp)


section \<open>Start\<close>

lemma cache_lines_safe:
  assumes "parse_cache_lines host port ap ls = Inr (Some en)"
  shows "check_endpoint_ip (ce_addr en) ap = None"
proof -
  define l where "l = (if ls \<noteq> [] \<and> hd ls = CACHE_HEADER then tl ls else ls)"
  obtain a addr where "parse_state_ip ap a = Inr addr" "ce_addr en = addr"
    using assms unfolding parse_cache_lines_def Let_def l_def[symmetric]
    by (auto simp only: sbind_Inr_iff split: if_split_asm option.split_asm) auto
  then show ?thesis
    using parse_state_ip_Inr by simp
qed

lemma cache_entry_safe:
  assumes "load_cache_entry f host port ap = Inr (Some en)"
  shows "check_endpoint_ip (ce_addr en) ap = None"
proof -
  obtain ls where "parse_cache_lines host port ap ls = Inr (Some en)"
    using assms unfolding load_cache_entry_def by (auto simp: sbind_Inr_iff split: option.splits)
  then show ?thesis
    by (rule cache_lines_safe)
qed

definition boot_ok :: "EndpointController \<Rightarrow> bool" where
  "boot_ok c \<longleftrightarrow> cands_ok (ec_candidates c) \<and> (\<forall>t. held c t \<longrightarrow> is_safe c t) \<and> ec_probation c = None \<and>
     (\<forall>ip. eo_bootstrap (ec_opts c) = Some ip \<longrightarrow> is_safe c ip)"

lemma requery_boot_ok:
  assumes "boot_ok c" "requery c c'"
  shows "boot_ok c'"
proof -
  have "held c' t \<Longrightarrow> is_safe c t" for t
    using assms unfolding boot_ok_def requery_def held_def by (metis (no_types, lifting))
  then show ?thesis
    using assms unfolding boot_ok_def requery_def by auto
qed

lemma load_limits_core: "load_limits name wall c w = (c', w') \<Longrightarrow> same_core c c'"
  by (auto simp: load_limits_def same_core_def Let_def split: if_splits sum.splits option.splits)

lemma choose_first_safe:
  assumes "boot_ok c" "choose_first q c = Some t"
  shows "is_safe c t"
proof -
  have "held c t \<or> eo_bootstrap (ec_opts c) = Some t"
    using assms(2) by (auto simp: choose_first_def held_def split: if_splits option.splits)
  then show ?thesis
    using assms(1) by (auto simp: boot_ok_def)
qed

lemma boot_ok_core: "boot_ok c \<Longrightarrow> same_core c c' \<Longrightarrow> boot_ok c'"
  by (simp add: boot_ok_def same_core_def held_def)

lemma boot_ok_choose:
  assumes "boot_ok c" "choose_first q c = Some t"
  shows "ep_ok (order_candidates (c\<lparr> ec_current := \<lparr> sa_ip = V4 t, sa_port = spec_port (ec_spec c) \<rparr> \<rparr>))"
  using assms choose_first_safe[OF assms] by (intro order_ep_ok) (simp add: ep_ok_def boot_ok_def held_def)

lemma boot_choose_listed:
  assumes "boot_ok c" "choose_first q c = Some t" "ec_committed_good c = Some g"
    and "c' = order_candidates (c\<lparr> ec_current := \<lparr> sa_ip = V4 t, sa_port = spec_port (ec_spec c) \<rparr> \<rparr>)"
  shows "cur_v4 c' = Some g \<or> ec_candidates c' \<noteq> []"
proof -
  have "t = g \<or> ec_candidates c \<noteq> []"
    using assms(2,3) by (auto simp: choose_first_def split: if_splits)
  moreover have "set (ec_candidates c') = set (ec_candidates c)"
    using assms(1,4) order_set by (simp add: boot_ok_def)
  ultimately show ?thesis
    using assms(4) by (auto simp: cur_v4_def)
qed

lemma read_cache_safe: "read_cache c name w = Some en \<Longrightarrow> is_safe c (ce_addr en)"
  by (auto simp: read_cache_def split: option.splits sum.splits dest: cache_entry_safe)

lemma bootstrap_hostname_ok:
  assumes "bootstrap_hostname name now c0 w = (Inr c, w')"
    and "ec_candidates c0 = []" "ec_probation c0 = None"
  shows "ep_ok c \<and> ec_spec c = ec_spec c0 \<and> ec_opts c = ec_opts c0 \<and> ec_probation c = None \<and>
    (\<forall>g. ec_committed_good c = Some g \<longrightarrow> cur_v4 c = Some g \<or> ec_candidates c \<noteq> [])"
proof -
  have safe: "(case eo_bootstrap (ec_opts c0) of None \<Rightarrow> None | Some ip \<Rightarrow> check_endpoint_ip ip (eo_allow_private (ec_opts c0))) = None"
    using assms(1) by (auto simp: bootstrap_hostname_def split: option.splits)
  obtain wall w1 where w1: "unix_now_secs w = (wall, w1)"
    by (cases "unix_now_secs w")
  define cached where "cached = read_cache c0 name w"
  define c1 where "c1 = c0\<lparr> ec_committed_good := map_option ce_addr cached,
    ec_cache_fresh_until_ms := (case cached of None \<Rightarrow> None | Some en \<Rightarrow> cached_fresh_until c0 en now wall) \<rparr>"
  obtain c2 w2 where l: "load_limits name wall c1 w1 = (c2, w2)"
    by (cases "load_limits name wall c1 w1")
  obtain q c3 w3 where qr: "query now (start_preferred_round now c2) w2 = (q, c3, w3)"
    by (cases "query now (start_preferred_round now c2) w2") auto
  obtain t where t: "choose_first q c3 = Some t"
      "c = order_candidates (c3\<lparr> ec_current := \<lparr> sa_ip = V4 t, sa_port = spec_port (ec_spec c3) \<rparr> \<rparr>)"
    using assms(1) unfolding bootstrap_hostname_def safe option.case Let_def w1 prod.case
      cached_def[symmetric] c1_def[symmetric] l qr by (auto split: option.splits)
  have "boot_ok c1"
    using safe assms(2,3) read_cache_safe[of c0 name w]
    by (auto simp: boot_ok_def c1_def cached_def held_def cands_ok_def split: option.splits)
  then have "boot_ok (start_preferred_round now c2)"
    using boot_ok_core load_limits_core[OF l] same_core_simple(1) by blast
  then have b: "boot_ok c3"
    using requery_boot_ok query_requery[OF qr] by blast
  have "cur_v4 c = Some g \<or> ec_candidates c \<noteq> []" if "ec_committed_good c = Some g" for g
    using boot_choose_listed[OF b t(1) _ t(2)] that t(2) by simp
  moreover have "same_core c1 c2"
    using load_limits_core[OF l] .
  ultimately show ?thesis
    using boot_ok_choose[OF b t(1)] t(2) b query_requery[OF qr] same_core_simple(1)[of c2 now]
    by (simp add: requery_def same_core_def c1_def boot_ok_def)
qed

lemma bootstrap_ok:
  assumes "bootstrap (Hostname name port) opts now w = (Inr c, w')"
  shows "ep_ok c \<and> ec_spec c = Hostname name port \<and> ec_opts c = opts \<and> ec_probation c = None \<and>
    (\<forall>g. ec_committed_good c = Some g \<longrightarrow> cur_v4 c = Some g \<or> ec_candidates c \<noteq> [])"
proof -
  obtain wall w1 where w1: "unix_now_secs w = (wall, w1)"
    by (cases "unix_now_secs w")
  have "bootstrap_hostname name now (controller_new (Hostname name port) opts wall) w1 = (Inr c, w')"
    using assms by (simp add: bootstrap_def w1 Let_def)
  from bootstrap_hostname_ok[OF this] show ?thesis
    by (simp add: controller_new_def)
qed



section \<open>Runs\<close>

text \<open>The calls the client makes on its controller.\<close>

datatype ep_op = OnCycle nat CycleReason | OnAuthenticated | Activity nat bool | Promote u32 nat
  | RollbackDue nat | AuthorizeRollback u32 nat | RequestRefresh | SessionEnded

fun ep_call :: "ep_op \<Rightarrow> EndpointController \<Rightarrow> EpWorld \<Rightarrow> EndpointController \<times> EpWorld" where
  "ep_call (OnCycle now reason) c w = snd (on_cycle now reason c w)"
| "ep_call OnAuthenticated c w = snd (on_authenticated c w)"
| "ep_call (Activity now d) c w = (on_authenticated_activity now d c, w)"
| "ep_call (Promote a now) c w = snd (promote_candidate a now c w)"
| "ep_call (RollbackDue now) c w = snd (probation_rollback_due now c w)"
| "ep_call (AuthorizeRollback a now) c w = snd (authorize_operator_rollback a now c w)"
| "ep_call RequestRefresh c w = (request_refresh c, w)"
| "ep_call SessionEnded c w = (on_session_ended c, w)"

text \<open>A run: the start, then any calls in any order, while other processes may change the files, the
  locks and the clocks between them. The history lists the calls, the newest first, each with the
  address in use when it was made.\<close>

inductive ep_run :: "EndpointSpec \<Rightarrow> EndpointOptions \<Rightarrow> (ep_op \<times> u32 option) list \<Rightarrow> EndpointController \<Rightarrow> bool"
  for spec opts where
  start: "bootstrap spec opts now w = (Inr c, w') \<Longrightarrow> ep_run spec opts [] c"
| call: "ep_run spec opts evs c \<Longrightarrow> ep_call a c w = (c', w') \<Longrightarrow> ep_run spec opts ((a, cur_v4 c) # evs) c'"

lemma keeps_simple:
  "keeps c (request_refresh c)" "keeps c (on_session_ended c)"
  by (auto intro!: same_core_keeps simp: same_core_def request_refresh_def on_session_ended_def)

text \<open>What a call does to the controller: it keeps the committed address and the evidence, possibly
  with new candidates; it commits or puts on probation the authenticated address; it records activity;
  or it promotes.\<close>

lemma ep_call_cases:
  assumes "ep_call a c w = (c', w')" "cur_v4 c = Some cur"
  obtains (kept) c2 where "a \<noteq> OnAuthenticated" "\<forall>t. a \<noteq> Activity t True" "same_core c c2 \<or> (\<exists>c1. same_core c c1 \<and> requery c1 c2)"
      "keeps c2 c'"
  | (commit) c2 t where "a = OnAuthenticated" "same_core c c2" "c' = order_candidates (commit_addr cur t c2)"
      "\<not> fp_enabled (ec_policy c) \<or> ec_committed_good c = None \<or> ec_committed_good c = Some cur"
  | (probation) c2 t g where "a = OnAuthenticated" "same_core c c2" "c' = order_candidates (begin_probation cur g t c2)"
      "ec_committed_good c = Some g" "g \<noteq> cur"
  | (activity) t where "a = Activity t True" "c' = on_authenticated_activity t True c"
  | (promoted) e t p where "a = Promote e t" "ec_probation c = Some p" "promotion_refused e t c p = None"
      "c' = order_candidates (commit_addr e t c)"
proof (cases a)
  case (OnCycle now reason)
  obtain s where "on_cycle now reason c w = (s, c', w')"
    using assms(1) OnCycle by (metis ep_call.simps(1) prod.collapse)
  then show ?thesis
  proof (cases rule: on_cycle_cases)
    case static
    then show ?thesis
      using kept[of c] OnCycle by simp
  next
    case (chosen c1 c2 now2 wall2 q w2)
    then show ?thesis
      using kept[of c2] OnCycle keeps_select[OF chosen(5)] by blast
  qed
next
  case OnAuthenticated
  obtain r where "on_authenticated c w = (r, c', w')"
    using assms(1) OnAuthenticated by (metis ep_call.simps(2) prod.collapse)
  from this assms(2) show ?thesis
    by (cases rule: on_authenticated_cases) (use OnAuthenticated commit probation in blast)+
next
  case (Activity t d)
  then have c': "c' = on_authenticated_activity t d c"
    using assms(1) by simp
  show ?thesis
  proof (cases d)
    case False
    then have "keeps c c'"
      using c' by (intro same_core_keeps) (simp add: on_authenticated_activity_def same_core_def Let_def split: option.split)
    then show ?thesis
      using kept[of c] Activity False by simp
  qed (use activity Activity c' in simp)
next
  case (Promote e t)
  obtain r where "promote_candidate e t c w = (r, c', w')"
    using assms(1) Promote by (metis ep_call.simps(4) prod.collapse)
  then show ?thesis
    by (cases rule: promote_cases) (use Promote promoted kept[of c] in simp_all)
next
  case (RollbackDue t)
  obtain ok where "probation_rollback_due t c w = (ok, c', w')"
    using assms(1) RollbackDue by (metis ep_call.simps(5) prod.collapse)
  then show ?thesis
    using kept[of c] RollbackDue keeps_rollback_due by simp
next
  case (AuthorizeRollback e t)
  obtain ok where "authorize_operator_rollback e t c w = (ok, c', w')"
    using assms(1) AuthorizeRollback by (metis ep_call.simps(6) prod.collapse)
  then show ?thesis
    using kept[of c] AuthorizeRollback keeps_operator_rollback by simp
qed (use assms(1) kept[of c] keeps_simple in auto)

lemma ep_call_ok:
  assumes "ep_call a c w = (c', w')" "ep_ok c"
  shows "ep_ok c'"
proof -
  obtain cur where cur: "cur_v4 c = Some cur" "is_safe c cur"
    using cur_v4_ok[OF assms(2)] by blast
  have core: "ep_ok c2 \<and> is_safe c2 cur \<and> (\<forall>g. ec_committed_good c = Some g \<longrightarrow> is_safe c2 g)" if "same_core c c2" for c2
    using keeps_ok[OF assms(2) same_core_keeps[OF that]] that cur(2) assms(2) by (auto simp: same_core_def ep_ok_def held_def)
  from assms(1) cur(1) show ?thesis
  proof (cases rule: ep_call_cases)
    case (kept c2)
    then show ?thesis
      using core keeps_ok requery_ok by blast
  next
    case (promoted e t p)
    then show ?thesis
      using promotion_allowed(2)[OF promoted(3)] assms(2) commit_ok[OF assms(2)] cur by (simp add: cur_v4_def)
  qed (simp_all add: core commit_ok begin_ok on_activity_ok assms(2))
qed

lemma ep_call_frame:
  assumes "ep_call a c w = (c', w')" "ep_ok c"
  shows "ec_spec c' = ec_spec c \<and> ec_opts c' = ec_opts c"
proof -
  obtain cur where cur: "cur_v4 c = Some cur"
    using cur_v4_ok[OF assms(2)] by blast
  have act: "ec_spec (on_authenticated_activity t d c) = ec_spec c \<and> ec_opts (on_authenticated_activity t d c) = ec_opts c" for t d
    by (simp add: on_authenticated_activity_def Let_def split: option.split)
  from assms(1) cur show ?thesis
    by (cases rule: ep_call_cases) (auto simp: act same_core_def requery_def keeps_def begin_fields)
qed

lemma ep_run_ok:
  assumes "ep_run (Hostname name port) opts evs c"
  shows "ep_ok c \<and> ec_spec c = Hostname name port \<and> ec_opts c = opts"
  using assms
proof induction
  case (start now w c w')
  then show ?case
    using bootstrap_ok by blast
next
  case (call evs c a w c' w')
  then show ?case
    using ep_call_ok ep_call_frame by metis
qed


text \<open>A sequence of calls, for examples.\<close>

fun ep_calls ::
  "ep_op list \<Rightarrow> (ep_op \<times> u32 option) list \<times> EndpointController \<times> EpWorld \<Rightarrow>
    (ep_op \<times> u32 option) list \<times> EndpointController \<times> EpWorld" where
  "ep_calls [] x = x"
| "ep_calls (a # as) (evs, c, w) = ep_calls as ((a, cur_v4 c) # evs, ep_call a c w)"

lemma ep_calls_run:
  assumes "ep_run spec opts evs c" "ep_calls as (evs, c, w) = (evs', c', w')"
  shows "ep_run spec opts evs' c'"
  using assms
proof (induction as arbitrary: evs c w)
  case (Cons a as)
  obtain c1 w1 where "ep_call a c w = (c1, w1)"
    by (cases "ep_call a c w")
  then show ?case
    using Cons.IH[OF ep_run.call[OF Cons.prems(1)]] Cons.prems(2) by simp
qed simp

text \<open>A resolver that answers \<open>8.8.8.8\<close>, then \<open>9.9.9.9\<close> and a private address.\<close>

definition demo_opts :: EndpointOptions where
  "demo_opts = \<lparr> eo_allow_private = False, eo_cache_file = None, eo_bootstrap = None,
     eo_backoff_min_ms = 2000, eo_backoff_max_ms = 60000,
     eo_last_good_fallback = LastGoodFallbackPolicy_default\<lparr> fp_enabled := True, fp_probation_ms := 20 \<rparr> \<rparr>"

definition demo_addr_answer :: "u32 list \<Rightarrow> DnsAnswer" where
  "demo_addr_answer as = \<lparr> an_addrs = as, an_ttl = 60, an_raw_ttl = 60, an_server = \<lparr> sa_ip = V4 1, sa_port = 53 \<rparr>,
     an_cnames = [], an_via_tcp = False \<rparr>"

definition demo_world :: EpWorld where
  "demo_world = \<lparr> ew_env = demo_env, ew_wall = (\<lambda>n. 1000 + n mod 1000), ew_wtick = 0,
     ew_resolve = (\<lambda>n name. Inr (demo_addr_answer (if n = 0 then [0x08080808] else [0x09090909, 0x0a000001]))), ew_rpos = 0,
     ew_cache = Inr None, ew_state = Inr None, ew_lock = (\<lambda>_. True), ew_lpos = 0, ew_write = (\<lambda>_. WriteOk), ew_wpos = 0 \<rparr>"

lemmas ep_evals = bootstrap_def bootstrap_hostname_def controller_new_def read_cache_def load_limits_def unix_now_secs_def
  query_def query_answered_def order_candidates_def canonical_candidates_def cur_v4_def choose_first_def start_preferred_round_def
  backoff_on_success_def Backoff_new_def Let_def state_consts usat_add_def usat_mul_def
  on_authenticated_def on_authenticated_at_def commit_addr_def persist_committed_def request_refresh_def
  on_cycle_def refresh_due_def cycle_refresh_def backoff_ready_def now_ms_def select_def select_forced_def round_expired_def
  committed_health_deadline_def switch_to_def TIMER_INTERVAL_MS_def CLIENT_HANDSHAKE_TIMEOUT_MS_def
  begin_probation_def on_authenticated_activity_def record_data_def probation_gap_def clamp_nat_def
  LastGoodFallbackPolicy_default_def

lemma demo_addrs: "check_endpoint_ip 0x08080808 False = None" "check_endpoint_ip 0x09090909 False = None"
  "check_endpoint_ip 0x0a000001 False = Some PrivateRange"
  by code_simp+

definition demo_boot :: "EndpointOptions \<Rightarrow> EndpointController \<times> EpWorld" where
  "demo_boot opts = (case bootstrap (Hostname ''a.b'' 53) opts 100 demo_world of (r, w) \<Rightarrow> (projr r, w))"

definition demo_boots :: "EndpointOptions \<Rightarrow> bool" where
  "demo_boots opts \<longleftrightarrow> \<not> isl (fst (bootstrap (Hostname ''a.b'' 53) opts 100 demo_world))"

definition demo_calls :: "EndpointOptions \<Rightarrow> ep_op list \<Rightarrow> (ep_op \<times> u32 option) list \<times> EndpointController \<times> EpWorld" where
  "demo_calls opts as = ep_calls as ([], demo_boot opts)"

lemma demo_calls_run:
  assumes "demo_boots opts"
  shows "ep_run (Hostname ''a.b'' 53) opts (fst (demo_calls opts as)) (fst (snd (demo_calls opts as)))"
proof -
  have "bootstrap (Hostname ''a.b'' 53) opts 100 demo_world = (Inr (fst (demo_boot opts)), snd (demo_boot opts))"
    using assms unfolding demo_boot_def demo_boots_def
    by (cases "bootstrap (Hostname ''a.b'' 53) opts 100 demo_world") simp
  then have "ep_run (Hostname ''a.b'' 53) opts [] (fst (demo_boot opts))"
    by (rule ep_run.start)
  then show ?thesis
    using ep_calls_run[of _ opts "[]" "fst (demo_boot opts)" as "snd (demo_boot opts)"] unfolding demo_calls_def
    by (metis prod.collapse)
qed

lemmas demo_evals = ep_evals demo_calls_def demo_boot_def demo_boots_def demo_world_def demo_opts_def demo_addr_answer_def demo_addrs demo_env_def

lemma demo_opts_boots: "demo_boots demo_opts"
  by (simp add: demo_evals)


end
