(* ===== verification/Endpoint_Safety.thy ===== *)
theory Endpoint_Safety
  imports Endpoint_Inv "HOL-Library.Sublist"
begin

text \<open>
  When the endpoint controller gives up its committed address and when it returns to it: a
  replacement is committed only on sustained traffic recorded since it authenticated, and an
  unattended return to an address DNS does not list is charged on disk before it is made.
\<close>


section \<open>Evidence behind a promotion\<close>

text \<open>The times of the data packets recorded while \<open>a\<close> was in use, since the last handshake, the
  newest first.\<close>

fun data_times :: "u32 \<Rightarrow> (ep_op \<times> u32 option) list \<Rightarrow> nat list" where
  "data_times a [] = []"
| "data_times a ((x, cur) # evs) =
     (case x of
        OnAuthenticated \<Rightarrow> []
      | Activity t d \<Rightarrow> if d \<and> cur = Some a then t # data_times a evs else data_times a evs
      | _ \<Rightarrow> data_times a evs)"

text \<open>Consecutive times at most \<open>g\<close> apart.\<close>

fun no_gap :: "nat \<Rightarrow> nat list \<Rightarrow> bool" where
  "no_gap g (t # u # us) = (t - u \<le> g \<and> no_gap g (u # us))"
| "no_gap g _ = True"

definition evidence :: "nat \<Rightarrow> Probation \<Rightarrow> nat list \<Rightarrow> bool" where
  "evidence g p us \<longleftrightarrow> no_gap g us \<and> pb_data_packets p \<le> length us \<and>
     pb_last_data_ms p = (if us = [] then None else Some (hd us)) \<and>
     pb_first_data_ms p = (if us = [] then None else Some (last us))"

definition evidence_inv :: "(ep_op \<times> u32 option) list \<Rightarrow> EndpointController \<Rightarrow> bool" where
  "evidence_inv evs c \<longleftrightarrow> (\<forall>p. ec_probation c = Some p \<longrightarrow>
     (\<exists>us. prefix us (data_times (pb_candidate p) evs) \<and> evidence (probation_gap c) p us))"

lemma evidence_record:
  assumes "evidence g p us"
  shows "\<exists>us'. prefix us' (t # us) \<and> evidence g (record_data g t p) us'"
proof (cases "us \<noteq> [] \<and> t - hd us > g")
  case True
  then have "evidence g (record_data g t p) [t]"
    using assms by (simp add: evidence_def record_data_def Let_def usat_add_def)
  then show ?thesis
    by (intro exI[of _ "[t]"]) simp
next
  case False
  then have "evidence g (record_data g t p) (t # us)"
    using assms by (cases us) (auto simp: evidence_def record_data_def Let_def usat_add_def)
  then show ?thesis
    by blast
qed

lemma evidence_authorized [simp]: "evidence g (p\<lparr> pb_rollback_authorized := b \<rparr>) us = evidence g p us"
  by (simp add: evidence_def)

lemma data_times_other:
  "a \<noteq> OnAuthenticated \<Longrightarrow> \<forall>t. a \<noteq> Activity t True \<Longrightarrow> data_times x ((a, cur) # evs) = data_times x evs"
  by (cases a) auto

lemma evidence_keeps:
  assumes "evidence_inv evs c" "prob_le (ec_probation c) (ec_probation c')" "ec_opts c' = ec_opts c"
    and "\<And>x. data_times x evs' = data_times x evs"
  shows "evidence_inv evs' c'"
proof -
  have "probation_gap c' = probation_gap c"
    using assms(3) by (simp add: probation_gap_def)
  then show ?thesis
    using assms(1,2,4) unfolding evidence_inv_def prob_le_def by (auto, blast)
qed

lemma activity_probation:
  assumes "cur_v4 c = Some cur"
  shows "ec_probation (on_authenticated_activity t True c) =
      map_option (\<lambda>p. if pb_candidate p = cur then record_data (probation_gap c) t p else p) (ec_probation c)"
    and "ec_opts (on_authenticated_activity t True c) = ec_opts c"
    and "ec_committed_good (on_authenticated_activity t True c) = ec_committed_good c"
  using assms by (auto simp: on_authenticated_activity_def Let_def probation_gap_def split: option.split)

lemma evidence_activity:
  assumes "evidence_inv evs c" "cur_v4 c = Some cur"
  shows "evidence_inv ((Activity t True, Some cur) # evs) (on_authenticated_activity t True c)"
  unfolding evidence_inv_def
proof (intro allI impI)
  fix p'
  assume "ec_probation (on_authenticated_activity t True c) = Some p'"
  then obtain p where p: "ec_probation c = Some p" "p' = (if pb_candidate p = cur then record_data (probation_gap c) t p else p)"
    using activity_probation(1)[OF assms(2)] by auto
  have g: "probation_gap (on_authenticated_activity t True c) = probation_gap c"
    using activity_probation(2)[OF assms(2)] by (simp add: probation_gap_def)
  obtain us where us: "prefix us (data_times (pb_candidate p) evs)" "evidence (probation_gap c) p us"
    using assms(1) p(1) by (auto simp: evidence_inv_def)
  show "\<exists>us. prefix us (data_times (pb_candidate p') ((Activity t True, Some cur) # evs)) \<and>
      evidence (probation_gap (on_authenticated_activity t True c)) p' us"
  proof (cases "pb_candidate p = cur")
    case True
    obtain us' where "prefix us' (t # us)" "evidence (probation_gap c) (record_data (probation_gap c) t p) us'"
      using evidence_record[OF us(2)] by blast
    moreover from this(1) have "prefix us' (t # data_times cur evs)"
      using us(1) True by (meson Cons_prefix_Cons prefix_order.trans)
    ultimately show ?thesis
      using p(2) True g by auto
  next
    case False
    then show ?thesis
      using p(2) g us by auto
  qed
qed

lemma evidence_run:
  assumes "ep_run (Hostname name port) opts evs c"
  shows "evidence_inv evs c"
  using assms
proof induction
  case (start now w c w')
  then show ?case
    using bootstrap_ok by (fastforce simp: evidence_inv_def)
next
  case (call evs c a w c' w')
  obtain cur where cur: "cur_v4 c = Some cur"
    using cur_v4_ok ep_run_ok[OF call.hyps(1)] by blast
  from call.hyps(2) cur show ?case
  proof (cases rule: ep_call_cases)
    case (kept c2)
    then have "prob_le (ec_probation c) (ec_probation c')" "ec_opts c' = ec_opts c"
      by (auto simp: same_core_def requery_def keeps_def)
    then show ?thesis
      using evidence_keeps[OF call.IH] data_times_other[OF kept(1,2)] by blast
  next
    case (probation c2 t g)
    then show ?thesis
      using begin_fields(6)[of cur g t c2] by (auto simp: evidence_inv_def evidence_def)
  next
    case (activity t)
    then show ?thesis
      using evidence_activity[OF call.IH cur] cur by simp
  qed (simp_all add: evidence_inv_def)
qed

text \<open>C5: with the fallback enabled, the committed address is given up only for a proven replacement.
  In every run, a call that changes a committed address is a successful promotion, on the explicit
  command, of the address in use; and since that address last completed a handshake at least three of
  its data packets were recorded, the first and the last at least \<open>probation_ms\<close> apart and no two
  consecutive ones more than the allowed gap apart. A handshake alone never replaces it.\<close>

theorem committed_only_by_promotion:
  assumes "ep_run (Hostname name port) opts evs c" "fp_enabled (eo_last_good_fallback opts)"
    and "ec_committed_good c = Some g" "ep_call a c w = (c', w')" "ec_committed_good c' \<noteq> Some g"
  shows "\<exists>e now us. a = Promote e now \<and> ec_committed_good c' = Some e \<and> cur_v4 c = Some e \<and>
    prefix us (data_times e evs) \<and> 3 \<le> length us \<and> fp_probation_ms (eo_last_good_fallback opts) \<le> hd us - last us \<and>
    no_gap (probation_gap c) us"
proof -
  note ok = ep_run_ok[OF assms(1)]
  obtain cur where cur: "cur_v4 c = Some cur"
    using cur_v4_ok ok by blast
  from assms(4) cur show ?thesis
  proof (cases rule: ep_call_cases)
    case (kept c2)
    then show ?thesis
      using assms(3,5) by (auto simp: same_core_def requery_def keeps_def)
  next
    case (activity t)
    then show ?thesis
      using assms(3,5) activity_probation(3)[OF cur] by simp
  next
    case (promoted e t p)
    note allowed = promotion_allowed[OF promoted(3)]
    obtain us where us: "prefix us (data_times e evs)" "evidence (probation_gap c) p us"
      using evidence_run[OF assms(1)] promoted(2) allowed(1) by (auto simp: evidence_inv_def)
    then have "3 \<le> length us" "no_gap (probation_gap c) us" "evidence_span p = hd us - last us"
      using allowed(4) by (auto simp: evidence_def MIN_PROMOTION_DATA_PACKETS_def evidence_span_def)
    then show ?thesis
      using promoted(1,4) us(1) allowed(2,5) ok by (auto simp: cur_v4_def)
  qed (use assms(2,3,5) ok in \<open>auto simp: same_core_def begin_fields\<close>)
qed

definition demo_probation :: "ep_op list" where
  "demo_probation = [OnAuthenticated, RequestRefresh, OnCycle 200 Forced, OnAuthenticated,
     Activity 300 True, Activity 310 True, Activity 325 True]"

theorem committed_only_by_promotion_witness:
  "case demo_calls demo_opts demo_probation of (evs, c, w) \<Rightarrow>
    ec_committed_good c = Some 0x08080808 \<and> cur_v4 c = Some 0x09090909 \<and>
    ec_committed_good (fst (ep_call (Promote 0x09090909 330) c w)) = Some 0x09090909 \<and>
    (\<exists>us. prefix us (data_times 0x09090909 evs) \<and> 3 \<le> length us \<and> 20 \<le> hd us - last us)"
proof -
  obtain evs c w where r: "demo_calls demo_opts demo_probation = (evs, c, w)"
    by (cases "demo_calls demo_opts demo_probation") auto
  obtain c' w' where p: "ep_call (Promote 0x09090909 330) c w = (c', w')"
    by (cases "ep_call (Promote 0x09090909 330) c w")
  have c: "ec_committed_good c = Some 0x08080808" "cur_v4 c = Some 0x09090909"
    using arg_cong[OF r, of "\<lambda>x. (ec_committed_good (fst (snd x)), cur_v4 (fst (snd x)))"]
    by (simp_all add: demo_probation_def demo_evals)
  have "ec_committed_good (fst (case demo_calls demo_opts demo_probation of (evs, c, w) \<Rightarrow> ep_call (Promote 0x09090909 330) c w)) = Some 0x09090909"
    by (simp add: demo_probation_def demo_evals promote_candidate_def promotion_refused_def committed_fresh_def
        evidence_span_def MIN_PROMOTION_DATA_PACKETS_def)
  then have g: "ec_committed_good c' = Some 0x09090909"
    by (simp add: r p del: ep_call.simps)
  have run: "ep_run (Hostname ''a.b'' 53) demo_opts evs c"
    using demo_calls_run[OF demo_opts_boots, of demo_probation] by (simp add: r)
  have "fp_enabled (eo_last_good_fallback demo_opts)" "fp_probation_ms (eo_last_good_fallback demo_opts) = 20"
    by (simp_all add: demo_opts_def)
  then show ?thesis
    using committed_only_by_promotion[OF run _ c(1) p] g c r p by (auto simp del: ep_call.simps)
qed



section \<open>Charges behind an unattended return\<close>

text \<open>The return address of a probation is the committed address, and a client that is not on its
  committed address has candidates.\<close>

definition rollback_inv :: "EndpointController \<Rightarrow> bool" where
  "rollback_inv c \<longleftrightarrow> (\<forall>p. ec_probation c = Some p \<longrightarrow> ec_committed_good c = Some (pb_rollback p)) \<and>
     (\<forall>g. ec_committed_good c = Some g \<longrightarrow> cur_v4 c = Some g \<or> ec_candidates c \<noteq> [])"

lemma cur_v4_current: "ec_current c' = ec_current c \<Longrightarrow> cur_v4 c' = cur_v4 c"
  by (simp add: cur_v4_def)

lemma rollback_inv_keeps:
  assumes "rollback_inv c" "keeps c c'" "cands_ok (ec_candidates c)"
  shows "rollback_inv c'"
proof -
  have set: "set (ec_candidates c') = set (ec_candidates c)" and com: "ec_committed_good c' = ec_committed_good c"
    using assms(2,3) by (auto simp: keeps_def)
  have prob: "\<forall>p. ec_probation c' = Some p \<longrightarrow> ec_committed_good c' = Some (pb_rollback p)"
    using assms(1,2) com by (auto simp: keeps_def prob_le_def rollback_inv_def)
  have "cur_v4 c' = Some g \<or> ec_candidates c' \<noteq> []" if g: "ec_committed_good c' = Some g" for g
  proof -
    consider "ec_current c' = ec_current c"
      | t where "ec_current c' = \<lparr> sa_ip = V4 t, sa_port = spec_port (ec_spec c) \<rparr>" "held c t"
      using assms(2) by (auto simp: keeps_def)
    then show ?thesis
    proof cases
      case 1
      then show ?thesis
        using assms(1) g com set cur_v4_current[OF 1] by (auto simp: rollback_inv_def)
    next
      case 2
      then show ?thesis
        using assms(1) g com set by (auto simp: rollback_inv_def held_def cur_v4_def)
    qed
  qed
  then show ?thesis
    using prob by (simp add: rollback_inv_def)
qed

lemma rollback_inv_core: "rollback_inv c \<Longrightarrow> same_core c c' \<Longrightarrow> rollback_inv c'"
  by (simp add: rollback_inv_def same_core_def cur_v4_def)

lemma rollback_inv_requery: "rollback_inv c \<Longrightarrow> requery c c' \<Longrightarrow> rollback_inv c'"
  by (auto simp: rollback_inv_def requery_def cur_v4_def)

lemma rollback_inv_run:
  assumes "ep_run (Hostname name port) opts evs c"
  shows "rollback_inv c"
  using assms
proof induction
  case (start now w c w')
  then show ?case
    using bootstrap_ok by (fastforce simp: rollback_inv_def)
next
  case (call evs c a w c' w')
  have ok: "ep_ok c"
    using ep_run_ok[OF call.hyps(1)] by simp
  then obtain cur where cur: "cur_v4 c = Some cur"
    using cur_v4_ok by blast
  from call.hyps(2) cur show ?case
  proof (cases rule: ep_call_cases)
    case (kept c2)
    have "rollback_inv c2 \<and> ep_ok c2"
      using kept(3) call.IH ok rollback_inv_core rollback_inv_requery requery_ok keeps_ok[OF _ same_core_keeps] by blast
    then show ?thesis
      using rollback_inv_keeps[OF _ kept(4)] by (simp add: ep_ok_def)
  next
    case (commit c2 t)
    then show ?thesis
      using cur by (simp add: rollback_inv_def cur_v4_def same_core_def)
  next
    case (probation c2 t g)
    have "set (ec_candidates c') = set (ec_candidates c)"
      using probation(2,3) ok order_set[of "begin_probation cur g t c2"] by (simp add: begin_fields same_core_def ep_ok_def)
    then have "ec_candidates c' \<noteq> []"
      using call.IH probation(4,5) cur by (auto simp: rollback_inv_def)
    then show ?thesis
      using probation(2,3,4) begin_fields(6)[of cur g t c2] by (auto simp: rollback_inv_def begin_fields(1-5) same_core_def)
  next
    case (activity t)
    have "ec_candidates c' = ec_candidates c \<and> ec_current c' = ec_current c"
      using activity(2) by (simp add: on_authenticated_activity_def Let_def split: option.split)
    then show ?thesis
      using call.IH activity(2) activity_probation(1,3)[OF cur, of t]
      by (auto simp: rollback_inv_def cur_v4_def split: option.splits)
  next
    case (promoted e t p)
    then show ?thesis
      using promotion_allowed(2)[OF promoted(3)] by (simp add: rollback_inv_def cur_v4_def)
  qed
qed

text \<open>What a granted charge leaves on disk.\<close>

definition loaded_or_new :: "nat \<Rightarrow> nat \<Rightarrow> FallbackState option \<Rightarrow> FallbackState" where
  "loaded_or_new cap wall l = (case l of Some s \<Rightarrow> s | None \<Rightarrow> FallbackState_new cap wall)"

definition charged :: "EndpointController \<Rightarrow> u32 \<Rightarrow> nat \<Rightarrow> EpWorld \<Rightarrow> EpWorld \<Rightarrow> FallbackState \<Rightarrow> bool" where
  "charged c t wall w w' st' \<longleftrightarrow> (\<exists>name loaded.
     spec_hostname (ec_spec c) = Some name \<and>
     load_fallback_state (ew_state w) name (spec_port (ec_spec c)) (fp_global_capacity (ec_policy c))
       (eo_allow_private (ec_opts c)) wall = Inr loaded \<and>
     precharge_fallback_state (loaded_or_new (fp_global_capacity (ec_policy c)) wall loaded)
       (ec_policy c) wall t (canonical_candidates c) = Some st' \<and>
     ew_state w' = Inr (Some (serialize_fallback_state name (spec_port (ec_spec c)) st')))"

lemma charge_fallback_charged:
  assumes "charge_fallback wall t c w = (True, c', w')"
  shows "\<exists>st'. charged c t wall w w' st'"
proof -
  let ?load = "\<lambda>name. load_fallback_state (ew_state w) name (spec_port (ec_spec c)) (fp_global_capacity (ec_policy c))
    (eo_allow_private (ec_opts c)) wall"
  obtain name loaded st' where "spec_hostname (ec_spec c) = Some name" "?load name = Inr loaded"
      "precharge_fallback_state (loaded_or_new (fp_global_capacity (ec_policy c)) wall loaded) (ec_policy c) wall t
        (canonical_candidates c) = Some st'"
      "ew_state w' = Inr (Some (serialize_fallback_state name (spec_port (ec_spec c)) st'))"
    using assms unfolding charge_fallback_def write_state_def Let_def loaded_or_new_def[symmetric]
    by (auto split: if_split_asm option.split_asm sum.split_asm write_result.split_asm)
  then show ?thesis
    unfolding charged_def by blast
qed

lemma charged_core:
  assumes "same_core c c2"
  shows "charged c2 t wall w w' st = charged c t wall w w' st"
proof -
  have e: "ec_spec c2 = ec_spec c" "ec_opts c2 = ec_opts c" "canonical_candidates c2 = canonical_candidates c"
    using assms by (simp_all add: same_core_def canonical_candidates_def)
  show ?thesis
    unfolding charged_def e ..
qed

text \<open>A switch made by \<open>try_next\<close> or to a candidate stays within the candidates.\<close>

lemma switch_listed:
  assumes "switch_to t why c = (Some s, c')"
  shows "sa_ip (sw_to s) = V4 t" "set (ec_candidates c') = set (ec_candidates c) \<or> \<not> cands_ok (ec_candidates c)"
proof -
  show "sa_ip (sw_to s) = V4 t"
    using assms by (auto simp: switch_to_def Let_def split: option.splits if_splits)
  have "c' = order_candidates (c\<lparr> ec_current := sw_to s, ec_current_authenticated := False \<rparr>)"
    using assms by (auto simp: switch_to_def Let_def split: option.splits if_splits)
  then show "set (ec_candidates c') = set (ec_candidates c) \<or> \<not> cands_ok (ec_candidates c)"
    using order_set[of "c\<lparr> ec_current := sw_to s, ec_current_authenticated := False \<rparr>"] by auto
qed

lemma try_next_listed:
  assumes "try_next cur why c = (Some s, c')" "sa_ip (sw_to s) = V4 t"
  shows "t \<in> set (ec_candidates c)"
proof -
  obtain x where x: "next_dns_candidate c cur = Some x" "switch_to x why c = (Some s, c')"
    using assms(1) by (auto simp: try_next_def split: option.splits if_splits)
  then have "x = t"
    using switch_listed(1)[OF x(2)] assms(2) by simp
  then show ?thesis
    using next_listed[OF x(1)] by simp
qed

text \<open>A failed charge leaves the budget unusable or the file as it was.\<close>

lemma charge_refused:
  assumes "charge_fallback wall t c w = (False, c', w')" "ec_fallback_state_usable c'"
  shows "ew_state w' = ew_state w"
  using assms unfolding charge_fallback_def write_state_def Let_def
  by (auto split: if_split_asm option.split_asm sum.split_asm write_result.split_asm)

lemma charge_usable: "charge_fallback wall t c w = (True, c', w') \<Longrightarrow> ec_fallback_state_usable c"
  unfolding charge_fallback_def Let_def by (auto split: if_split_asm)

lemma probation_return_charged:
  assumes "probation_return now wall cur c w = (r, c1, w1)" "\<forall>p. ec_probation c = Some p \<longrightarrow> \<not> pb_direct_return p"
  shows "(\<forall>t. r = Some t \<longrightarrow> (\<exists>st. charged c t wall w w1 st) \<and> ec_committed_good c = Some t \<and> t \<noteq> cur) \<and>
    (r = None \<longrightarrow> same_core c c1 \<and> ec_attended_cutover c1 = ec_attended_cutover c \<and> (ec_fallback_state_usable c1 \<longrightarrow> ew_state w1 = ew_state w))"
proof (cases "ec_probation c")
  case None
  then show ?thesis
    using assms(1) by (auto simp: probation_return_def)
next
  case (Some p)
  obtain ok c2 w2 where ch: "charge_fallback wall (pb_rollback p) c w = (ok, c2, w2)"
    by (cases "charge_fallback wall (pb_rollback p) c w") auto
  have "ec_attended_cutover c2 = ec_attended_cutover c"
    using ch unfolding charge_fallback_def Let_def by (auto split: if_split_asm option.split_asm sum.split_asm prod.split_asm)
  then show ?thesis
    using assms Some ch charge_fallback_charged[of wall "pb_rollback p" c w] charge_refused[of wall "pb_rollback p" c w]
      same_core_simple(2)[OF ch] fresh_held[of c now cur "pb_rollback p"] fresh_other[of c now cur "pb_rollback p"]
    by (auto simp: probation_return_def split: if_splits)
qed

lemma candidate_failed_charged:
  assumes "select_candidate_failed now wall cur c w = (Some s, c', w')" "sa_ip (sw_to s) = V4 t" "t \<notin> set (ec_candidates c)"
  shows "(\<exists>st. charged c t wall w w' st) \<and> ec_fallback_state_usable c \<and> ec_committed_good c = Some t \<and> t \<noteq> cur"
  using assms(1)
proof (cases rule: candidate_failed_cases)
  case (probe c2 good c3)
  then have "good = t"
    using switch_listed(1)[OF probe(6)] assms(2) by simp
  then show ?thesis
    using charge_fallback_charged[OF probe(5)] charge_usable[OF probe(5)] charged_core[OF probe(1)] probe(2-4) by blast
next
  case (rotate c3)
  then show ?thesis
    using try_next_listed[OF rotate(2) assms(2)] assms(3) by (simp add: same_core_def)
qed simp

lemma attempt_failed_charged:
  assumes "select_attempt_failed now wall cur c w = (Some s, c', w')" "sa_ip (sw_to s) = V4 t" "t \<notin> set (ec_candidates c)"
    and "\<forall>p. ec_probation c = Some p \<longrightarrow> \<not> pb_direct_return p" "\<not> ec_attended_cutover c"
  shows "(\<exists>st. charged c t wall w w' st) \<and> ec_committed_good c = Some t \<and> t \<noteq> cur"
proof -
  obtain r c1 w1 where r: "probation_return now wall cur c w = (r, c1, w1)"
    by (cases "probation_return now wall cur c w") auto
  note pr = probation_return_charged[OF r assms(4)]
  show ?thesis
  proof (cases r)
    case (Some x)
    then have "x = t" "w1 = w'"
      using assms(1,2) r switch_listed(1) by (fastforce simp: select_attempt_failed_def split: prod.splits)+
    then show ?thesis
      using pr Some by blast
  next
    case None
    then have core: "same_core c c1" "\<not> ec_attended_cutover c1"
      using pr assms(5) by simp_all
    have "ec_candidates (start_preferred_round now c1) = ec_candidates c"
      using core(1) same_core_simple(1)[of c1 now] by (simp add: same_core_def)
    then have "select_candidate_failed now wall cur c1 w1 = (Some s, c', w')"
      using assms(1,2,3) r None core(2) try_next_listed[of cur CommittedFailed "start_preferred_round now c1" s _ t]
      by (auto simp: select_attempt_failed_def split: if_splits prod.splits)
    then have "(\<exists>st. charged c1 t wall w1 w' st) \<and> ec_committed_good c1 = Some t \<and> t \<noteq> cur" "ec_fallback_state_usable c1"
      using candidate_failed_charged[of now wall cur c1 w1 s c' w' t] assms(2,3) core(1) by (simp_all add: same_core_def)
    moreover from this(2) have "ew_state w1 = ew_state w"
      using pr None by simp
    ultimately show ?thesis
      using charged_core[OF core(1)] core(1) by (simp add: charged_def same_core_def)
  qed
qed

lemma session_lost_charged:
  assumes "select_session_lost now wall cur c w = (Some s, c', w')" "sa_ip (sw_to s) = V4 t" "t \<notin> set (ec_candidates c)"
    and "\<forall>p. ec_probation c = Some p \<longrightarrow> \<not> pb_direct_return p"
  shows "(\<exists>st. charged c t wall w w' st) \<and> ec_committed_good c = Some t \<and> t \<noteq> cur"
proof -
  obtain r c1 w1 where r: "probation_return now wall cur c w = (r, c1, w1)"
    by (cases "probation_return now wall cur c w") auto
  note pr = probation_return_charged[OF r assms(4)]
  show ?thesis
  proof (cases r)
    case (Some x)
    then have "x = t" "w1 = w'"
      using assms(1,2) r switch_listed(1) by (fastforce simp: select_session_lost_def split: prod.splits)+
    then show ?thesis
      using pr Some by blast
  next
    case None
    have "set (canonical_candidates (start_preferred_round now c1)) \<subseteq> set (ec_candidates c)"
      using pr None same_core_simple(1)[of c1 now] canonical_listed[of _ "start_preferred_round now c1"]
      by (auto simp: same_core_def)
    then show ?thesis
      using assms(1,2,3) r None switch_listed(1)
      by (fastforce simp: select_session_lost_def Let_def split: if_splits prod.splits list.splits)
  qed
qed

lemma charged_readable:
  assumes "charged c t wall w w' st'" "charge_args (ec_policy c) (eo_allow_private (ec_opts c)) wall t (canonical_candidates c)"
    and "spec_hostname (ec_spec c) = Some name" "name \<noteq> []" "\<forall>x \<in> set name. dns_char x" "wall \<le> wall'"
  shows "load_fallback_state (ew_state w') name (spec_port (ec_spec c)) (fp_global_capacity (ec_policy c))
      (eo_allow_private (ec_opts c)) wall' = Inr (Some st')"
proof -
  let ?cap = "fp_global_capacity (ec_policy c)" and ?ap = "eo_allow_private (ec_opts c)"
  obtain l where l: "load_fallback_state (ew_state w) name (spec_port (ec_spec c)) ?cap ?ap wall = Inr l"
      "precharge_fallback_state (loaded_or_new ?cap wall l) (ec_policy c) wall t (canonical_candidates c) = Some st'"
      "ew_state w' = Inr (Some (serialize_fallback_state name (spec_port (ec_spec c)) st'))"
    using assms(1,3) by (auto simp: charged_def)
  have "?cap < 2 ^ 32" "wall < 2 ^ 64"
    using assms(2) by (simp_all add: charge_args_def)
  then have "state_ok ?cap ?ap wall (loaded_or_new ?cap wall l)"
    using load_state_ok[of _ name "spec_port (ec_spec c)" ?cap ?ap wall] l(1)
    by (cases l) (auto simp: loaded_or_new_def FallbackState_new_def state_ok_def usat_add_def)
  then have "state_ok ?cap ?ap wall' st'"
    using state_ok_mono[OF precharge_ok[OF assms(2) _ l(2)] assms(6)] by blast
  then show ?thesis
    using load_serialized[OF assms(4,5)] l(3) by simp
qed

lemma canonical_args:
  assumes "ep_ok c" "rollback_inv c" "ec_committed_good c = Some t" "cur_v4 c = Some cur" "t \<noteq> cur"
    and "fp_global_capacity (ec_policy c) < 2 ^ 32" "fp_max_attempts (ec_policy c) < 2 ^ 32"
    and "fp_cooldown_ms (ec_policy c) \<le> 86400000" "wall < 2 ^ 64"
  shows "charge_args (ec_policy c) (eo_allow_private (ec_opts c)) wall t (canonical_candidates c)"
proof -
  let ?cs = "ec_candidates c"
  have cs: "cands_ok ?cs" "\<forall>x \<in> set ?cs. is_safe c x" "is_safe c t" "?cs \<noteq> []"
    using assms(1-5) by (auto simp: ep_ok_def held_def rollback_inv_def)
  have d: "dedup (sort ?cs) = sorted_list_of_set (set ?cs)"
    by (rule dedup_sort)
  have "length (dedup (sort ?cs)) \<le> 8"
    using cs(1) card_length[of ?cs] unfolding d cands_ok_def by simp
  then have can: "canonical_candidates c = sorted_list_of_set (set ?cs)"
    unfolding canonical_candidates_def state_consts d by simp
  have "sorted_list_of_set (set ?cs) = dedup (sort (sorted_list_of_set (set ?cs)))"
    by (simp add: dedup_sort)
  then show ?thesis
    using cs assms(6-9) \<open>length (dedup (sort ?cs)) \<le> 8\<close> d by (simp add: charge_args_def can)
qed


text \<open>The client loses its session, moves to the address DNS now lists, fails there, and returns.\<close>

definition charging_opts :: EndpointOptions where
  "charging_opts = demo_opts\<lparr> eo_cache_file := Some ''cache'',
     eo_last_good_fallback := LastGoodFallbackPolicy_default\<lparr> fp_enabled := True, fp_after_failures := 1 \<rparr> \<rparr>"

lemma demo_hostname: "validate_hostname ''a.b'' = None" "to_ascii_lowercase (trim_end_matches (\<lambda>c. c = CHR ''.'') ''a.b'') = ''a.b''"
  by code_simp+

lemmas charging_evals = demo_evals charging_opts_def load_cache_entry_def load_fallback_state_def sbind_def
  save_cache_with_policy_def cache_body_def demo_hostname write_cache_def write_state_def query_failed_def backoff_on_pending_success_def
  select_session_lost_def select_attempt_failed_def select_candidate_failed_def probation_return_def committed_fresh_def
  charge_fallback_def charge_evals on_session_ended_def

lemma charging_boots: "demo_boots charging_opts"
  by (simp add: charging_evals)

definition charging_calls :: "(ep_op \<times> u32 option) list \<times> EndpointController \<times> EpWorld" where
  "charging_calls = demo_calls charging_opts [OnAuthenticated, OnCycle 200 SessionLost]"

lemma charging_state:
  "case charging_calls of (evs, c, w) \<Rightarrow> \<not> ec_attended_cutover c \<and> ec_probation c = None \<and> ew_wall w = (\<lambda>n. 1000 + (n :: nat) mod 1000)"
  "case charging_calls of (evs, c, w) \<Rightarrow> case on_cycle 300 AttemptFailed c w of (s, c', w') \<Rightarrow>
    s \<noteq> None \<and> sa_ip (sw_to (the s)) = V4 0x08080808 \<and> ec_candidates c' = [0x09090909]"
  by (simp_all add: charging_calls_def charging_evals)


end
