(* ===== verification/Spec2Isabelle.thy ===== *)
theory Spec2Isabelle
  imports Server_Loop Endpoint_Safety
begin

text \<open>
  Verification library for udp2raw (Rust), a tunnel that carries UDP datagrams inside
  encrypted FakeTCP, UDP or ICMP packets sent through raw sockets.
\<close>

end
